(* ===== verification/Prelude.thy ===== *)
theory Prelude
  imports Main "HOL-Library.AList" "HOL-Library.Word"
begin

text \<open>
  What every component shares: the machine integers of the Go code, Go maps as association
  lists with distinct keys, the string functions of the standard library the code calls, and
  the collections of lemmas the component proofs use.

  A Go \<open>string\<close> is a byte sequence and is modelled by \<^typ>\<open>string\<close>, whose characters are
  bytes, and so is a byte slice (\<open>payload\<close>): the code converts between the two freely.
  A Go \<open>int\<close>, \<open>int64\<close> or \<open>time.Duration\<close> is an \<^typ>\<open>int\<close>
  with the 64-bit wrap-around written out by \<open>i64\<close> where an operation can overflow;
  the atomic counters are words.
\<close>

type_synonym byte = "8 word"
type_synonym u16 = "16 word"
type_synonym u32 = "32 word"
type_synonym u64 = "64 word"

type_synonym payload = string

named_theorems inv_intros \<open>introduction rules that an operation keeps an invariant\<close>
named_theorems op_defs \<open>definitions of operations, for unfolding a whole component\<close>

subsection \<open>64-bit signed integers\<close>

definition i64 :: "int \<Rightarrow> int" where
  "i64 x = (x + 2 ^ 63) mod 2 ^ 64 - 2 ^ 63"

definition fits_i64 :: "int \<Rightarrow> bool" where
  "fits_i64 x \<longleftrightarrow> - (2 ^ 63) \<le> x \<and> x < 2 ^ 63"

lemma i64_id [simp]: "fits_i64 x \<Longrightarrow> i64 x = x"
  by (simp add: i64_def fits_i64_def)

lemma i64_fits [simp, intro]: "fits_i64 (i64 x)"
proof -
  have "0 \<le> (x + 2 ^ 63) mod 2 ^ 64" and "(x + 2 ^ 63) mod 2 ^ 64 < 2 ^ 64"
    by simp_all
  then show ?thesis by (simp add: i64_def fits_i64_def)
qed

lemma i64_mod: "i64 x mod 2 ^ 64 = x mod 2 ^ 64"
proof -
  have "i64 x mod 2 ^ 64 = (x + 2 ^ 63 - 2 ^ 63) mod 2 ^ 64"
    unfolding i64_def by (rule mod_diff_left_eq)
  then show ?thesis by simp
qed

lemma i64_cong: "x mod 2 ^ 64 = y mod 2 ^ 64 \<Longrightarrow> i64 x = i64 y"
  unfolding i64_def by (metis mod_add_left_eq)

lemma i64_mult_left: "i64 (i64 a * b) = i64 (a * b)"
  by (rule i64_cong) (metis i64_mod mod_mult_left_eq)

text \<open>The nanoseconds of \<open>time.Millisecond\<close> and \<open>time.Second\<close>.\<close>

definition ms :: int where "ms = 1000000"
definition second :: int where "second = 1000000000"

subsection \<open>Go maps\<close>

text \<open>
  A Go map has finitely many keys and an unspecified iteration order. It is an association
  list with distinct keys (\<open>wf_map\<close>): the position of an entry is the order one iteration
  visits it in, and a theorem about all such lists is a theorem about every order.
\<close>

type_synonym ('k, 'v) gomap = "('k \<times> 'v) list"

abbreviation mget :: "('k, 'v) gomap \<Rightarrow> 'k \<Rightarrow> 'v option" where
  "mget m k \<equiv> map_of m k"

abbreviation mput :: "'k \<Rightarrow> 'v \<Rightarrow> ('k, 'v) gomap \<Rightarrow> ('k, 'v) gomap" where
  "mput k v m \<equiv> AList.update k v m"

abbreviation mdel :: "'k \<Rightarrow> ('k, 'v) gomap \<Rightarrow> ('k, 'v) gomap" where
  "mdel k m \<equiv> AList.delete k m"

abbreviation mkeys :: "('k, 'v) gomap \<Rightarrow> 'k list" where
  "mkeys m \<equiv> map fst m"

abbreviation wf_map :: "('k, 'v) gomap \<Rightarrow> bool" where
  "wf_map m \<equiv> distinct (mkeys m)"

lemma wf_mput [simp, intro]: "wf_map m \<Longrightarrow> wf_map (mput k v m)"
  by (rule distinct_update)

lemma wf_mdel [simp, intro]: "wf_map m \<Longrightarrow> wf_map (mdel k m)"
  by (rule distinct_delete)

lemma mget_mput [simp]: "mget (mput k v m) = (mget m)(k \<mapsto> v)"
  by (rule update_conv')

lemma mget_mdel [simp]: "mget (mdel k m) = (mget m)(k := None)"
  by (rule delete_conv')

lemma set_mkeys_mput [simp]: "set (mkeys (mput k v m)) = insert k (set (mkeys m))"
  by (simp add: dom_update)

lemma set_mkeys_mdel [simp]: "set (mkeys (mdel k m)) = set (mkeys m) - {k}"
  by (simp only: delete_keys set_removeAll)

lemma mget_None_iff: "mget m k = None \<longleftrightarrow> k \<notin> set (mkeys m)"
  by (simp add: map_of_eq_None_iff)

lemma mget_Some_key: "mget m k = Some v \<Longrightarrow> k \<in> set (mkeys m)"
  by (metis mget_None_iff option.distinct(1))

lemma length_mput: "length (mput k v m) = (if mget m k = None then Suc (length m) else length m)"
  by (induction m) auto

lemma length_mput_new [simp]: "mget m k = None \<Longrightarrow> length (mput k v m) = Suc (length m)"
  by (simp add: length_mput)

lemma length_mput_old [simp]: "mget m k = Some w \<Longrightarrow> length (mput k v m) = length m"
  by (simp add: length_mput)

lemma length_mdel_old:
  "wf_map m \<Longrightarrow> mget m k = Some v \<Longrightarrow> Suc (length (mdel k m)) = length m"
proof (induction m)
  case Nil
  then show ?case by simp
next
  case (Cons p m)
  show ?case
  proof (cases "fst p = k")
    case True
    with Cons.prems have "k \<notin> fst ` set m" by auto
    then have "mdel k m = m" by (rule delete_id)
    with True show ?thesis by (cases p) simp
  next
    case False
    with Cons show ?thesis by (cases p) auto
  qed
qed

lemma mdel_absent [simp]: "mget m k = None \<Longrightarrow> mdel k m = m"
  by (simp add: map_of_eq_None_iff)

lemma mget_map_values: "mget (map (\<lambda>(k, v). (k, f v)) m) k = map_option f (mget m k)"
  by (induction m) auto

lemma mkeys_map_values [simp]: "mkeys (map (\<lambda>(k, v). (k, f v)) m) = mkeys m"
  by (induction m) auto

lemma mkeys_mput_new: "mget m k = None \<Longrightarrow> mkeys (mput k v m) = mkeys m @ [k]"
  by (induction m) (auto split: if_splits)

lemma mput_new: "mget m k = None \<Longrightarrow> mput k v m = m @ [(k, v)]"
  by (induction m) (auto split: if_splits)

lemma mput_new_set: "mget m k = None \<Longrightarrow> set (mput k v m) = insert (k, v) (set m)"
  by (induction m) (auto split: if_splits)

lemma mkeys_mput_old: "mget m k = Some w \<Longrightarrow> mkeys (mput k v m) = mkeys m"
  by (induction m) (auto split: if_splits)

lemma in_set_mput:
  assumes "(k', v') \<in> set (mput k v m)"
  shows "(k' = k \<and> v' = v) \<or> (k', v') \<in> set m"
  using assms by (induction m) (auto split: if_splits)

text \<open>
  The interface most maps of the code are used through: look a key up, store under a key,
  remove a key. It is stated as a locale because five components implement it, each with its
  own operations (the handler registry, the memory store, the mock Redis client and the two
  registries).
\<close>

locale keyed_store =
  fixes look :: "'s \<Rightarrow> 'k \<Rightarrow> 'v option"
    and put :: "'k \<Rightarrow> 'v \<Rightarrow> 's \<Rightarrow> 's"
    and del :: "'k \<Rightarrow> 's \<Rightarrow> 's"
  assumes look_put: "look (put k v s) = (look s)(k \<mapsto> v)"
    and look_del: "look (del k s) = (look s)(k := None)"
begin

lemma look_put_same: "look (put k v s) k = Some v"
  by (simp add: look_put)

lemma look_put_other: "k' \<noteq> k \<Longrightarrow> look (put k v s) k' = look s k'"
  by (simp add: look_put)

lemma look_del_same: "look (del k s) k = None"
  by (simp add: look_del)

lemma look_del_other: "k' \<noteq> k \<Longrightarrow> look (del k s) k' = look s k'"
  by (simp add: look_del)

lemma put_overwrites: "look (put k v (put k w s)) = look (put k v s)"
  by (simp add: look_put)

lemma del_after_put: "look s k = None \<Longrightarrow> look (del k (put k v s)) = look s"
  by (auto simp: look_put look_del)

lemma put_commute: "k \<noteq> k' \<Longrightarrow> look (put k v (put k' w s)) = look (put k' w (put k v s))"
  by (simp add: look_put fun_upd_twist)

lemma look_del_list: "look (fold del ks s) = (\<lambda>k. if k \<in> set ks then None else look s k)"
  by (induction ks arbitrary: s) (auto simp: look_del)

end

interpretation gmap: keyed_store mget mput mdel
  by unfold_locales (rule mget_mput, rule mget_mdel)

subsection \<open>Strings\<close>

text \<open>\<open>strings.Split(s, sep)\<close> for a one-byte separator: never empty.\<close>

fun split_on :: "char \<Rightarrow> string \<Rightarrow> string list" where
  "split_on c [] = [[]]"
| "split_on c (x # xs) =
     (if x = c then [] # split_on c xs
      else (case split_on c xs of [] \<Rightarrow> [[x]] | p # ps \<Rightarrow> (x # p) # ps))"

text \<open>\<open>strings.Join(parts, sep)\<close>.\<close>

fun join_with :: "string \<Rightarrow> string list \<Rightarrow> string" where
  "join_with sep [] = []"
| "join_with sep [p] = p"
| "join_with sep (p # q # ps) = p @ sep @ join_with sep (q # ps)"

text \<open>\<open>strings.Contains(s, sub)\<close>.\<close>

fun str_contains :: "string \<Rightarrow> string \<Rightarrow> bool" where
  "str_contains [] sub = (sub = [])"
| "str_contains (x # xs) sub = (take (length sub) (x # xs) = sub \<or> str_contains xs sub)"

lemma split_on_nonempty [simp]: "split_on c s \<noteq> []"
  by (induction s) (auto split: list.splits)

lemma join_with_Cons: "ps \<noteq> [] \<Longrightarrow> join_with sep (p # ps) = p @ sep @ join_with sep ps"
  by (cases ps) auto

lemma join_split [simp]: "join_with [c] (split_on c s) = s"
proof (induction s)
  case Nil
  then show ?case by simp
next
  case (Cons x s)
  obtain p ps where sp: "split_on c s = p # ps"
    by (cases "split_on c s") simp_all
  show ?case
  proof (cases "x = c")
    case True
    with Cons show ?thesis by (simp add: join_with_Cons)
  next
    case False
    have "join_with [c] ((x # p) # ps) = x # join_with [c] (p # ps)"
      by (cases ps) auto
    with Cons False sp show ?thesis by simp
  qed
qed

lemma split_on_inject: "split_on c s = split_on c t \<Longrightarrow> s = t"
  by (metis join_split)

lemma split_on_no_sep: "p \<in> set (split_on c s) \<Longrightarrow> c \<notin> set p"
  by (induction s arbitrary: p) (fastforce split: if_splits list.splits)+

lemma split_on_plain: "c \<notin> set s \<Longrightarrow> split_on c s = [s]"
  by (induction s) auto

lemma split_on_append: "split_on c (a @ c # b) = split_on c a @ split_on c b"
  by (induction a) (auto split: list.splits)

lemma join_with_snoc: "xs \<noteq> [] \<Longrightarrow> join_with sep (xs @ [y]) = join_with sep xs @ sep @ y"
proof (induction xs)
  case Nil
  then show ?case by simp
next
  case (Cons x xs)
  then show ?case by (cases xs) simp_all
qed

lemma str_contains_iff: "str_contains s sub \<longleftrightarrow> (\<exists>u v. s = u @ sub @ v)"
proof (induction s)
  case Nil
  then show ?case by auto
next
  case (Cons x xs)
  have pre: "take (length sub) (x # xs) = sub \<longleftrightarrow> (\<exists>v. x # xs = sub @ v)"
    by (metis append_eq_conv_conj append_take_drop_id)
  have "(\<exists>u v. x # xs = u @ sub @ v) \<longleftrightarrow>
      (\<exists>v. x # xs = sub @ v) \<or> (\<exists>u v. xs = u @ sub @ v)"
    by (metis Cons_eq_append_conv append_Cons append_Nil)
  with Cons pre show ?case by simp
qed

text \<open>\<open>%d\<close> of a non-negative integer.\<close>

fun dec :: "nat \<Rightarrow> string" where
  "dec n = (if n < 10 then [char_of (48 + n)] else dec (n div 10) @ [char_of (48 + n mod 10)])"

declare dec.simps [simp del]

text \<open>\<open>%d\<close> of an integer.\<close>

definition dec_int :: "int \<Rightarrow> string" where
  "dec_int i = (if i < 0 then ''-'' @ dec (nat (- i)) else dec (nat i))"

text \<open>The bytes of a string as numbers, and numbers read from decimal digits.\<close>

abbreviation byte_at :: "char \<Rightarrow> nat" where
  "byte_at c \<equiv> of_char c"

definition is_digit :: "char \<Rightarrow> bool" where
  "is_digit c \<longleftrightarrow> byte_at c \<ge> 48 \<and> byte_at c \<le> 57"

definition digits_value :: "string \<Rightarrow> nat" where
  "digits_value ds = foldl (\<lambda>a c. 10 * a + (byte_at c - 48)) 0 ds"

lemma digits_value_snoc: "digits_value (ds @ [c]) = 10 * digits_value ds + (byte_at c - 48)"
  by (simp add: digits_value_def)

lemma dec_digits: "dec n \<noteq> [] \<and> list_all is_digit (dec n) \<and> digits_value (dec n) = n"
proof (induction n rule: dec.induct)
  case (1 n)
  show ?case
  proof (cases "n < 10")
    case True
    then show ?thesis by (simp add: dec.simps [of n] is_digit_def digits_value_def)
  next
    case False
    with 1 show ?thesis by (simp add: dec.simps [of n] is_digit_def digits_value_def)
  qed
qed

text \<open>
  The order \<open>encoding/json\<close> writes the entries of a map in. A map whose entries already are in the
  order of their keys is one of the lists that stand for it (\<open>sorted_map\<close>).
\<close>

fun string_le :: "string \<Rightarrow> string \<Rightarrow> bool" where
  "string_le [] t = True"
| "string_le (c # s) [] = False"
| "string_le (c # s) (d # t) = (of_char c < (of_char d :: nat) \<or> (c = d \<and> string_le s t))"

fun insert_key :: "string \<times> 'a \<Rightarrow> (string \<times> 'a) list \<Rightarrow> (string \<times> 'a) list" where
  "insert_key e [] = [e]"
| "insert_key e (x # xs) = (if string_le (fst e) (fst x) then e # x # xs else x # insert_key e xs)"

definition sort_keys :: "(string \<times> 'a) list \<Rightarrow> (string \<times> 'a) list" where
  "sort_keys m = foldr insert_key m []"

definition sorted_map :: "(string \<times> 'a) list \<Rightarrow> bool" where
  "sorted_map m \<longleftrightarrow> sorted_wrt string_le (map fst m)"

lemma sort_keys_sorted: "sorted_map m \<Longrightarrow> sort_keys m = m"
proof (induction m)
  case Nil
  show ?case by (simp add: sort_keys_def)
next
  case (Cons e m)
  then have "sort_keys (e # m) = insert_key e m" by (simp add: sort_keys_def sorted_map_def)
  with Cons.prems show ?case by (cases m) (simp_all add: sorted_map_def)
qed

lemma mget_insert_key: "k' \<notin> set (mkeys xs) \<Longrightarrow> mget (insert_key (k', v) xs) = (mget xs)(k' \<mapsto> v)"
  by (induction xs) (auto simp: fun_eq_iff)

lemma mkeys_insert_key: "fst ` set (insert_key e xs) = insert (fst e) (fst ` set xs)"
  by (induction xs) auto

lemma mkeys_sort_keys: "fst ` set (sort_keys m) = fst ` set m"
  unfolding sort_keys_def by (induction m) (simp_all add: mkeys_insert_key)

lemma mget_sort_keys: "wf_map m \<Longrightarrow> mget (sort_keys m) = mget m"
proof (induction m)
  case Nil
  then show ?case by (simp add: sort_keys_def)
next
  case (Cons e m)
  obtain k v where e: "e = (k, v)" by (cases e)
  with Cons.prems have "k \<notin> set (mkeys (sort_keys m))" by (simp add: mkeys_sort_keys)
  with Cons e show ?case using mget_insert_key [of k "sort_keys m" v] by (simp add: sort_keys_def fun_eq_iff)
qed

lemma insert_key_map:
  "insert_key (fst e, f (snd e)) (map (\<lambda>(k, v). (k, f v)) xs) = map (\<lambda>(k, v). (k, f v)) (insert_key e xs)"
  by (cases e; induction xs) auto

lemma sort_keys_map: "sort_keys (map (\<lambda>(k, v). (k, f v)) m) = map (\<lambda>(k, v). (k, f v)) (sort_keys m)"
proof (induction m)
  case Nil
  show ?case by (simp add: sort_keys_def)
next
  case (Cons e m)
  then show ?case using insert_key_map [of e f "sort_keys m"] by (simp add: sort_keys_def case_prod_unfold)
qed

lemma set_insert_key: "set (insert_key e xs) = insert e (set xs)"
  by (induction xs) auto

lemma set_sort_keys [simp]: "set (sort_keys m) = set m"
  unfolding sort_keys_def by (induction m) (simp_all add: set_insert_key)

lemma wf_sort_keys: "wf_map m \<Longrightarrow> wf_map (sort_keys m)"
proof (induction m)
  case Nil
  then show ?case by (simp add: sort_keys_def)
next
  case (Cons e m)
  have "wf_map (insert_key e xs)" if "fst e \<notin> set (mkeys xs)" "wf_map xs" for xs
    using that by (induction xs) (auto simp: set_insert_key)
  moreover have "fst e \<notin> set (mkeys (sort_keys m))" using Cons.prems by simp
  ultimately show ?case using Cons by (simp add: sort_keys_def)
qed

lemma wf_map_values: "wf_map (map (\<lambda>(k, v). (k, f v)) m) \<longleftrightarrow> wf_map m"
  by (simp only: mkeys_map_values)

lemma mget_sorted_values:
  "wf_map m \<Longrightarrow> mget (sort_keys (map (\<lambda>(k, v). (k, f v)) m)) k = map_option f (mget m k)"
  by (simp only: mget_sort_keys wf_map_values mget_map_values)

text \<open>A string given by its UTF-8 bytes, for the literals of the code outside ASCII.\<close>

definition utf8 :: "nat list \<Rightarrow> string" where
  "utf8 bs = map char_of bs"

subsection \<open>Lists\<close>

lemma length_filter_partition:
  "length (filter P xs) + length (filter (\<lambda>x. \<not> P x) xs) = length xs"
  by (induction xs) auto

lemma sum_list_count_cong:
  "(\<And>x. x \<in> set xs \<Longrightarrow> f x = g x) \<Longrightarrow> sum_list (map f xs) = sum_list (map g xs)"
  by (induction xs) auto

subsection \<open>One process of a list moves\<close>

lemma in_update:
  "p \<in> set ps \<Longrightarrow> i < length ps \<Longrightarrow> p \<noteq> ps ! i \<Longrightarrow> p \<in> set (ps[i := q])"
  by (metis in_set_conv_nth length_list_update nth_list_update_neq)

lemma update_in: "p \<in> set (ps[i := q]) \<Longrightarrow> p = q \<or> p \<in> set ps"
  using set_update_subset_insert [of ps i q] by blast

lemma filter_update:
  "i < length xs \<Longrightarrow> \<not> P (xs ! i) \<Longrightarrow>
     length (filter P (xs[i := y])) = length (filter P xs) + (if P y then 1 else 0)"
proof (induction xs arbitrary: i)
  case (Cons x xs)
  then show ?case by (cases i) auto
qed simp

lemma list_all_update: "list_all P xs \<Longrightarrow> P y \<Longrightarrow> list_all P (xs[i := y])"
  by (auto simp: list_all_iff dest: update_in)

end
