(* ===== verification/Floats.thy ===== *)
theory Floats
  imports Prelude
begin

text \<open>
  The \<open>float64\<close> arithmetic of the reconnect back-off: conversion from \<open>int64\<close>, product,
  conversion back, and comparison with zero and one, with round-to-nearest-even to 53 bits. A
  finite float is \<open>m * 2 ^ e\<close> for integers \<open>m\<close> and \<open>e\<close>. Results below the
  normal range keep their 53 bits here; they are below one and truncate to zero all the same.
\<close>

datatype f64 = Fin int int | Inf bool | NaN

definition f_1_5 :: f64 where "f_1_5 = Fin 3 (- 1)"

text \<open>The number of binary digits.\<close>

fun bitlen :: "nat \<Rightarrow> nat" where
  "bitlen n = (if n = 0 then 0 else Suc (bitlen (n div 2)))"

declare bitlen.simps [simp del]

definition rne :: "nat \<Rightarrow> nat \<Rightarrow> nat" where
  "rne m k =
     (let q = m div 2 ^ k; r = m mod 2 ^ k
      in if 2 * r > 2 ^ k \<or> (2 * r = 2 ^ k \<and> odd q) then Suc q else q)"

definition round53 :: "int \<Rightarrow> int \<Rightarrow> f64" where
  "round53 m e =
     (let a = nat \<bar>m\<bar>; k = bitlen a - 53;
          a' = (if bitlen a \<le> 53 then a else rne a k);
          e' = (if bitlen a \<le> 53 then e else e + int k)
      in if int (bitlen a') + e' > 1024 then Inf (m < 0) else Fin (sgn m * int a') e')"

definition of_i64 :: "int \<Rightarrow> f64" where
  "of_i64 x = round53 x 0"

fun f_mult :: "f64 \<Rightarrow> f64 \<Rightarrow> f64" where
  "f_mult (Fin a e) (Fin b e') = round53 (a * b) (e + e')"
| "f_mult (Fin a e) (Inf s) = (if a = 0 then NaN else Inf (s \<noteq> (a < 0)))"
| "f_mult (Inf s) (Fin a e) = (if a = 0 then NaN else Inf (s \<noteq> (a < 0)))"
| "f_mult (Inf s) (Inf s') = Inf (s \<noteq> s')"
| "f_mult _ _ = NaN"

text \<open>Truncation towards zero of a finite float.\<close>

definition f_trunc :: "int \<Rightarrow> int \<Rightarrow> int" where
  "f_trunc m e = (if e \<ge> 0 then m * 2 ^ nat e else sgn m * (\<bar>m\<bar> div 2 ^ nat (- e)))"

text \<open>
  Conversion to \<open>int64\<close>: when the value does not fit, the result is implementation-specific
  (\<open>ovf\<close>).
\<close>

definition to_i64 :: "int \<Rightarrow> f64 \<Rightarrow> int" where
  "to_i64 ovf x =
     (case x of Fin m e \<Rightarrow> if fits_i64 (f_trunc m e) then f_trunc m e else ovf | _ \<Rightarrow> ovf)"

text \<open>\<open>x <= 0\<close>, \<open>x > 0\<close> and \<open>x <= 1\<close>: false for NaN.\<close>

definition f_le_zero :: "f64 \<Rightarrow> bool" where
  "f_le_zero x = (case x of Fin m _ \<Rightarrow> m \<le> 0 | Inf s \<Rightarrow> s | NaN \<Rightarrow> False)"

definition f_gt_zero :: "f64 \<Rightarrow> bool" where
  "f_gt_zero x = (case x of Fin m _ \<Rightarrow> m > 0 | Inf s \<Rightarrow> \<not> s | NaN \<Rightarrow> False)"

definition f_le_one :: "f64 \<Rightarrow> bool" where
  "f_le_one x =
     (case x of
        Fin m e \<Rightarrow> if e \<ge> 0 then m * 2 ^ nat e \<le> 1 else m \<le> 2 ^ nat (- e)
      | Inf s \<Rightarrow> s
      | NaN \<Rightarrow> False)"

subsection \<open>Lemmas\<close>

lemma bitlen_bounds: "0 < n \<Longrightarrow> 2 ^ (bitlen n - 1) \<le> n \<and> n < 2 ^ bitlen n"
proof (induction n rule: bitlen.induct)
  case (1 n)
  show ?case
  proof (cases "n div 2 = 0")
    case True
    with 1 have "n = 1" by simp
    then show ?thesis by (simp add: bitlen.simps [of "Suc 0"] bitlen.simps [of 0])
  next
    case False
    with 1 have IH: "2 ^ (bitlen (n div 2) - 1) \<le> n div 2" "n div 2 < 2 ^ bitlen (n div 2)" by simp_all
    from False have pos: "0 < bitlen (n div 2)" by (simp add: bitlen.simps [of "n div 2"])
    then obtain b where b: "bitlen (n div 2) = Suc b" using gr0_implies_Suc by blast
    have "bitlen n = Suc (Suc b)" using 1 b by (simp add: bitlen.simps [of n])
    moreover have "2 * B \<le> n \<and> n < 4 * B" if "B \<le> n div 2" "n div 2 < 2 * B" for B
      using that by presburger
    ultimately show ?thesis using IH b by simp
  qed
qed

lemma bitlen_le: "n < 2 ^ k \<Longrightarrow> bitlen n \<le> k"
proof (cases "n = 0")
  case True
  then show ?thesis by (simp add: bitlen.simps)
next
  case False
  assume lt: "n < 2 ^ k"
  from False bitlen_bounds [of n] have "2 ^ (bitlen n - 1) \<le> n" by simp
  with lt have "(2::nat) ^ (bitlen n - 1) < 2 ^ k" by linarith
  then show ?thesis by simp
qed

text \<open>An integer below \<open>2 ^ 53\<close> is exact, and so is a product whose mantissa stays below it.\<close>

lemma round53_exact:
  assumes "\<bar>m\<bar> < 2 ^ 53" and "e \<le> 971"
  shows "round53 m e = Fin m e"
proof -
  have "nat \<bar>m\<bar> < 2 ^ 53" using assms(1) by simp
  then have "bitlen (nat \<bar>m\<bar>) \<le> 53" by (rule bitlen_le)
  with assms(2) show ?thesis by (simp add: round53_def Let_def sgn_mult_abs)
qed

lemma of_i64_exact: "\<bar>x\<bar> < 2 ^ 53 \<Longrightarrow> of_i64 x = Fin x 0"
  by (simp add: of_i64_def round53_exact)

lemma mult_1_5_exact:
  assumes "0 \<le> x" and "x < 2 ^ 51"
  shows "to_i64 ovf (f_mult (of_i64 x) f_1_5) = 3 * x div 2"
proof -
  have "of_i64 x = Fin x 0" using assms by (intro of_i64_exact) simp
  moreover have "round53 (x * 3) (- 1) = Fin (x * 3) (- 1)"
    using assms by (intro round53_exact) simp_all
  moreover have "f_trunc (x * 3) (- 1) = 3 * x div 2"
    using assms by (cases "x = 0") (simp_all add: f_trunc_def mult.commute)
  moreover have "fits_i64 (3 * x div 2)" using assms by (simp add: fits_i64_def) presburger
  ultimately show ?thesis by (simp add: f_1_5_def to_i64_def)
qed

end
