(* ===== verification/Errors.thy ===== *)
theory Errors
  imports Prelude
begin

text \<open>
  The error values of the library (\<open>errors.go\<close>) and the helpers over them
  (\<open>error_utils.go\<close>): the chain an error unwraps to, the structured error
  \<open>MQTTXError\<close>, the predicates on errors, the default handler, the in-memory reporter, the
  error metrics and the retryable wrapper.

  A Go \<open>error\<close> is a value of \<open>goerr\<close>; a nil error is \<^const>\<open>None\<close> of
  \<open>goerr option\<close>. Log output is not modelled; time readings are arguments.
\<close>

subsection \<open>Values\<close>

datatype sentinel =
    ErrSessionNotFound | ErrSessionExists | ErrNotConnected | ErrSessionClosed
  | ErrInvalidOptions | ErrInvalidBroker | ErrInvalidClientID | ErrInvalidTopic
  | ErrTimeout | ErrInvalidPayload | ErrSubscribeFailed | ErrUnsubscribeFailed
  | ErrPublishFailed | ErrQoSNotSupported | ErrStorageFailure | ErrInvalidConfig
  | ErrConnectionRefused | ErrAuthenticationFailed | ErrForwarderFailed

fun sentinel_text :: "sentinel \<Rightarrow> string" where
  "sentinel_text ErrSessionNotFound = ''session not found''"
| "sentinel_text ErrSessionExists = ''session already exists''"
| "sentinel_text ErrNotConnected = ''not connected''"
| "sentinel_text ErrSessionClosed = ''session closed''"
| "sentinel_text ErrInvalidOptions = ''invalid options''"
| "sentinel_text ErrInvalidBroker = ''invalid broker address''"
| "sentinel_text ErrInvalidClientID = ''invalid client ID''"
| "sentinel_text ErrInvalidTopic = ''invalid topic''"
| "sentinel_text ErrTimeout = ''operation timeout''"
| "sentinel_text ErrInvalidPayload = ''invalid payload''"
| "sentinel_text ErrSubscribeFailed = ''subscribe failed''"
| "sentinel_text ErrUnsubscribeFailed = ''unsubscribe failed''"
| "sentinel_text ErrPublishFailed = ''publish failed''"
| "sentinel_text ErrQoSNotSupported = ''QoS level not supported''"
| "sentinel_text ErrStorageFailure = ''storage operation failed''"
| "sentinel_text ErrInvalidConfig = ''invalid configuration''"
| "sentinel_text ErrConnectionRefused = ''connection refused''"
| "sentinel_text ErrAuthenticationFailed = ''authentication failed''"
| "sentinel_text ErrForwarderFailed = ''forwarder operation failed''"

type_synonym severity = string

definition SeverityInfo :: severity where "SeverityInfo = ''info''"
definition SeverityWarning :: severity where "SeverityWarning = ''warning''"
definition SeverityError :: severity where "SeverityError = ''error''"
definition SeverityCritical :: severity where "SeverityCritical = ''critical''"

lemmas severity_defs =
  SeverityInfo_def SeverityWarning_def SeverityError_def SeverityCritical_def

type_synonym error_type = string

definition TypeConnection :: error_type where "TypeConnection = ''connection''"
definition TypeAuthentication :: error_type where "TypeAuthentication = ''authentication''"
definition TypeSubscription :: error_type where "TypeSubscription = ''subscription''"
definition TypePublish :: error_type where "TypePublish = ''publish''"
definition TypeConfiguration :: error_type where "TypeConfiguration = ''configuration''"
definition TypeStorage :: error_type where "TypeStorage = ''storage''"
definition TypeForwarder :: error_type where "TypeForwarder = ''forwarder''"
definition TypeInternal :: error_type where "TypeInternal = ''internal''"

lemmas error_type_defs =
  TypeConnection_def TypeAuthentication_def TypeSubscription_def TypePublish_def
  TypeConfiguration_def TypeStorage_def TypeForwarder_def TypeInternal_def

text \<open>The values callers put into \<open>MQTTXError.Context\<close> (\<open>map[string]any\<close>).\<close>

datatype ctx_value = CtxString string | CtxInt int | CtxOther nat

text \<open>
  \<open>MQTTXError\<close> carries the fields of the Go struct in their order. \<open>NewErr\<close> is
  \<open>errors.New\<close> or \<open>fmt.Errorf\<close> without \<open>%w\<close>, \<open>WrapErr\<close> is
  \<open>fmt.Errorf\<close> with one \<open>%w\<close> (its whole text and the wrapped error), \<open>External\<close>
  is an error of a package outside the repository: its text, the result of its
  \<open>Temporary()\<close> and \<open>Timeout()\<close> methods where it has them, and what it unwraps to.
\<close>

datatype goerr =
    Sentinel sentinel
  | NewErr string
  | WrapErr string goerr
  | MQTTXError (e_type: error_type) (e_severity: severity) (e_code: string) (e_message: string)
      (e_session: string) (e_topic: string) (e_timestamp: int)
      (e_context: "(string, ctx_value) gomap") (e_cause: "goerr option")
  | SessionError string goerr
  | ValidationErrors "goerr list"
  | AuthError string string "goerr option"
  | SecurityError string "goerr option"
  | External string "bool option" "bool option" "goerr option"

definition numbered :: "string list \<Rightarrow> string list" where
  "numbered ts = map (\<lambda>(i, t). dec (Suc i) @ ''. '' @ t) (zip [0..<length ts] ts)"

definition parts_text :: "string \<Rightarrow> string \<Rightarrow> string \<Rightarrow> string" where
  "parts_text ses tpc code =
     (let parts = (if ses \<noteq> [] then [''session='' @ ses] else [])
                @ (if tpc \<noteq> [] then [''topic='' @ tpc] else [])
                @ (if code \<noteq> [] then [''code='' @ code] else [])
      in if parts \<noteq> [] then '' ('' @ join_with '', '' parts @ '')'' else [])"

text \<open>The \<open>Error()\<close> methods.\<close>

fun err_text :: "goerr \<Rightarrow> string" where
  "err_text (Sentinel s) = sentinel_text s"
| "err_text (NewErr t) = t"
| "err_text (WrapErr t _) = t"
| "err_text (MQTTXError ty sev code msg ses tpc tm ctx cause) =
     ''['' @ ty @ '':'' @ sev @ ''] '' @ msg @ parts_text ses tpc code
       @ (case cause of None \<Rightarrow> [] | Some c \<Rightarrow> '': '' @ err_text c)"
| "err_text (SessionError n e) = ''session '' @ n @ '': '' @ err_text e"
| "err_text (ValidationErrors es) =
     (case es of [] \<Rightarrow> ''no validation errors''
      | [e] \<Rightarrow> ''validation error: '' @ err_text e
      | _ \<Rightarrow> ''validation errors:'' @ [CHR 0x0A]
               @ join_with [CHR 0x0A] (numbered (map err_text es)))"
| "err_text (AuthError m msg r) =
     ''authentication error ['' @ m @ '']: '' @ msg
       @ (case r of None \<Rightarrow> [] | Some e \<Rightarrow> '': '' @ err_text e)"
| "err_text (SecurityError msg r) =
     msg @ (case r of None \<Rightarrow> [] | Some e \<Rightarrow> '': '' @ err_text e)"
| "err_text (External t _ _ _) = t"

text \<open>The \<open>Unwrap()\<close> methods; \<open>ValidationErrors\<close> has none.\<close>

fun unwrap :: "goerr \<Rightarrow> goerr option" where
  "unwrap (WrapErr _ e) = Some e"
| "unwrap (MQTTXError _ _ _ _ _ _ _ _ cause) = cause"
| "unwrap (SessionError _ e) = Some e"
| "unwrap (AuthError _ _ r) = r"
| "unwrap (SecurityError _ r) = r"
| "unwrap (External _ _ _ c) = c"
| "unwrap _ = None"

text \<open>
  \<open>errors.Is(err, target)\<close>, for the targets the identity of which the code relies on: a
  sentinel of the package, or a \<open>*MQTTXError\<close>, which its \<open>Is\<close> method compares by
  type and code.
\<close>

datatype err_target = TargetSentinel sentinel | TargetMQTTX error_type string

fun mqttx_same :: "error_type \<Rightarrow> string \<Rightarrow> err_target \<Rightarrow> bool" where
  "mqttx_same ty code (TargetMQTTX ty' code') = (ty = ty' \<and> code = code')"
| "mqttx_same ty code (TargetSentinel _) = False"

fun errors_is :: "goerr \<Rightarrow> err_target \<Rightarrow> bool" where
  "errors_is (Sentinel s) t = (t = TargetSentinel s)"
| "errors_is (WrapErr _ e) t = errors_is e t"
| "errors_is (MQTTXError ty _ code _ _ _ _ _ cause) t =
     (mqttx_same ty code t \<or> (case cause of None \<Rightarrow> False | Some c \<Rightarrow> errors_is c t))"
| "errors_is (SessionError _ e) t = errors_is e t"
| "errors_is (AuthError _ _ r) t = (case r of None \<Rightarrow> False | Some e \<Rightarrow> errors_is e t)"
| "errors_is (SecurityError _ r) t = (case r of None \<Rightarrow> False | Some e \<Rightarrow> errors_is e t)"
| "errors_is (External _ _ _ c) t = (case c of None \<Rightarrow> False | Some e \<Rightarrow> errors_is e t)"
| "errors_is _ t = False"

text \<open>\<open>(*MQTTXError).Is\<close>.\<close>

definition MQTTXError_Is :: "error_type \<Rightarrow> string \<Rightarrow> goerr option \<Rightarrow> err_target \<Rightarrow> bool" where
  "MQTTXError_Is ty code cause t =
     (case t of TargetMQTTX ty' code' \<Rightarrow> ty = ty' \<and> code = code'
      | TargetSentinel s \<Rightarrow> (case cause of None \<Rightarrow> False | Some c \<Rightarrow> errors_is c t))"

fun is_mqttx :: "goerr \<Rightarrow> bool" where
  "is_mqttx (MQTTXError _ _ _ _ _ _ _ _ _) = True"
| "is_mqttx _ = False"

subsection \<open>Constructors\<close>

definition NewError :: "error_type \<Rightarrow> severity \<Rightarrow> string \<Rightarrow> int \<Rightarrow> goerr" where
  "NewError ty sev msg now = MQTTXError ty sev [] msg [] [] now [] None"

definition NewConnectionError :: "string \<Rightarrow> goerr option \<Rightarrow> int \<Rightarrow> goerr" where
  "NewConnectionError msg cause now =
     MQTTXError TypeConnection SeverityError [] msg [] [] now [] cause"

definition NewConfigError :: "string \<Rightarrow> goerr option \<Rightarrow> int \<Rightarrow> goerr" where
  "NewConfigError msg cause now =
     MQTTXError TypeConfiguration SeverityCritical [] msg [] [] now [] cause"

definition NewPublishError :: "string \<Rightarrow> goerr option \<Rightarrow> int \<Rightarrow> goerr" where
  "NewPublishError tpc cause now =
     MQTTXError TypePublish SeverityError [] ''failed to publish message'' [] tpc now [] cause"

definition NewSubscribeError :: "string \<Rightarrow> goerr option \<Rightarrow> int \<Rightarrow> goerr" where
  "NewSubscribeError tpc cause now =
     MQTTXError TypeSubscription SeverityError [] ''failed to subscribe to topic'' [] tpc now [] cause"

definition NewForwarderError :: "string \<Rightarrow> goerr option \<Rightarrow> int \<Rightarrow> goerr" where
  "NewForwarderError msg cause now =
     MQTTXError TypeForwarder SeverityError [] msg [] [] now [] cause"

text \<open>
  The \<open>With\<dots>\<close> methods write through the pointer and return it; here they return the
  updated value. On another kind of error they do not exist.
\<close>

fun WithContext :: "string \<Rightarrow> ctx_value \<Rightarrow> goerr \<Rightarrow> goerr" where
  "WithContext k v (MQTTXError ty sev code msg ses tpc tm ctx cause) =
     MQTTXError ty sev code msg ses tpc tm (mput k v ctx) cause"
| "WithContext k v e = e"

fun WithSession :: "string \<Rightarrow> goerr \<Rightarrow> goerr" where
  "WithSession n (MQTTXError ty sev code msg ses tpc tm ctx cause) =
     MQTTXError ty sev code msg n tpc tm ctx cause"
| "WithSession n e = e"

fun WithTopic :: "string \<Rightarrow> goerr \<Rightarrow> goerr" where
  "WithTopic t (MQTTXError ty sev code msg ses tpc tm ctx cause) =
     MQTTXError ty sev code msg ses t tm ctx cause"
| "WithTopic t e = e"

definition newSessionError :: "string \<Rightarrow> goerr \<Rightarrow> goerr" where
  "newSessionError n e = SessionError n e"

text \<open>\<open>wrapError(err, format)\<close>: every caller passes a format without verbs.\<close>

definition wrapError :: "goerr option \<Rightarrow> string \<Rightarrow> goerr option" where
  "wrapError err msg =
     (case err of None \<Rightarrow> None | Some e \<Rightarrow> Some (WrapErr (msg @ '': '' @ err_text e) e))"

text \<open>\<open>NewValidationErrors\<close>, \<open>Add\<close> and \<open>HasErrors\<close> on the list of the struct.\<close>

definition validation_add :: "goerr option \<Rightarrow> goerr list \<Rightarrow> goerr list" where
  "validation_add err es = (case err of None \<Rightarrow> es | Some e \<Rightarrow> es @ [e])"

definition validation_has_errors :: "goerr list \<Rightarrow> bool" where
  "validation_has_errors es \<longleftrightarrow> length es > 0"

subsection \<open>Predicates\<close>

fun IsCritical :: "goerr \<Rightarrow> bool" where
  "IsCritical (MQTTXError ty sev code msg ses tpc tm ctx cause) = (sev = SeverityCritical)"
| "IsCritical _ = False"

fun IsRecoverable :: "goerr \<Rightarrow> bool" where
  "IsRecoverable (MQTTXError ty sev code msg ses tpc tm ctx cause) =
     (sev = SeverityInfo \<or> sev = SeverityWarning)"
| "IsRecoverable _ = False"

fun IsTemporary :: "goerr option \<Rightarrow> bool" where
  "IsTemporary (Some (MQTTXError ty sev code msg ses tpc tm ctx cause)) =
     (ty = TypeConnection \<and> sev \<noteq> SeverityCritical)"
| "IsTemporary (Some (External _ (Some temp) _ _)) = temp"
| "IsTemporary _ = False"

fun has_timeout_method :: "goerr \<Rightarrow> bool option" where
  "has_timeout_method (External _ _ tmo _) = tmo"
| "has_timeout_method _ = None"

definition IsTimeout :: "goerr option \<Rightarrow> bool" where
  "IsTimeout err =
     (case err of None \<Rightarrow> False
      | Some e \<Rightarrow>
          if errors_is e (TargetSentinel ErrTimeout) then True
          else (case has_timeout_method e of Some b \<Rightarrow> b | None \<Rightarrow> False))"

fun GetErrorCode :: "goerr option \<Rightarrow> string" where
  "GetErrorCode (Some (MQTTXError ty sev code msg ses tpc tm ctx cause)) = code"
| "GetErrorCode _ = []"

fun GetErrorType :: "goerr option \<Rightarrow> error_type" where
  "GetErrorType (Some (MQTTXError ty sev code msg ses tpc tm ctx cause)) = ty"
| "GetErrorType _ = TypeInternal"

fun GetErrorSeverity :: "goerr option \<Rightarrow> severity" where
  "GetErrorSeverity (Some (MQTTXError ty sev code msg ses tpc tm ctx cause)) = sev"
| "GetErrorSeverity _ = SeverityError"

subsection \<open>The default handler\<close>

text \<open>\<open>handleMQTTXError\<close>: the switch on the severity; the log calls are left out.\<close>

definition handleMQTTXError :: "goerr \<Rightarrow> bool" where
  "handleMQTTXError e =
     (if e_severity e = SeverityInfo then True
      else if e_severity e = SeverityWarning then \<not> IsCritical e
      else if e_severity e = SeverityError then IsTemporary (Some e)
      else False)"

definition HandleError :: "goerr option \<Rightarrow> bool" where
  "HandleError err =
     (case err of None \<Rightarrow> True
      | Some e \<Rightarrow> if is_mqttx e then handleMQTTXError e else False)"

subsection \<open>\<open>WrapError\<close>, \<open>ChainErrors\<close> and the counters over error lists\<close>

definition wrap_severity :: "goerr \<Rightarrow> error_type \<Rightarrow> severity" where
  "wrap_severity e ty =
     (if ty = TypeConfiguration then SeverityCritical
      else if ty = TypeConnection \<or> ty = TypeAuthentication then
        (if IsTimeout (Some e) then SeverityWarning else SeverityError)
      else if ty = TypePublish \<or> ty = TypeSubscription then SeverityWarning
      else if ty = TypeInternal then SeverityCritical
      else SeverityError)"

fun prefix_message :: "string \<Rightarrow> goerr \<Rightarrow> goerr" where
  "prefix_message m (MQTTXError ty sev code msg ses tpc tm ctx cause) =
     MQTTXError ty sev code (m @ '': '' @ msg) ses tpc tm ctx cause"
| "prefix_message m e = e"

definition WrapError :: "goerr option \<Rightarrow> error_type \<Rightarrow> string \<Rightarrow> int \<Rightarrow> goerr option" where
  "WrapError err ty msg now =
     (case err of None \<Rightarrow> None
      | Some e \<Rightarrow>
          if is_mqttx e then Some (prefix_message msg e)
          else Some (WithContext ''original_error'' (CtxString (err_text e))
                      (NewError ty (wrap_severity e ty) msg now)))"

definition ChainErrors :: "goerr option list \<Rightarrow> goerr option" where
  "ChainErrors errs =
     (let es = fold validation_add errs []
      in if \<not> validation_has_errors es then None else Some (ValidationErrors es))"

definition FilterErrors :: "goerr list \<Rightarrow> error_type \<Rightarrow> goerr list" where
  "FilterErrors errs ty = filter (\<lambda>e. is_mqttx e \<and> e_type e = ty) errs"

fun HasCriticalErrors :: "goerr list \<Rightarrow> bool" where
  "HasCriticalErrors [] = False"
| "HasCriticalErrors (e # es) = (if is_mqttx e \<and> IsCritical e then True else HasCriticalErrors es)"

text \<open>\<open>counts[k]++\<close> on a map of counters.\<close>

definition bump :: "string \<Rightarrow> (string, nat) gomap \<Rightarrow> (string, nat) gomap" where
  "bump k m = mput k (Suc (case mget m k of None \<Rightarrow> 0 | Some n \<Rightarrow> n)) m"

definition count_of :: "(string, nat) gomap \<Rightarrow> string \<Rightarrow> nat" where
  "count_of m k = (case mget m k of None \<Rightarrow> 0 | Some n \<Rightarrow> n)"

definition total_count :: "(string, nat) gomap \<Rightarrow> nat" where
  "total_count m = sum_list (map snd m)"

definition severity_key :: "goerr \<Rightarrow> severity" where
  "severity_key e = (if is_mqttx e then e_severity e else SeverityError)"

definition CountErrorsBySeverity :: "goerr list \<Rightarrow> (severity, nat) gomap" where
  "CountErrorsBySeverity errs = fold (\<lambda>e. bump (severity_key e)) errs []"

definition FormatErrorSummary :: "goerr list \<Rightarrow> string" where
  "FormatErrorSummary errs =
     (if length errs = 0 then ''No errors''
      else let counts = CountErrorsBySeverity errs;
               part = (\<lambda>label sev. if count_of counts sev > 0
                        then '', '' @ label @ '': '' @ dec (count_of counts sev) else [])
           in ''Total: '' @ dec (length errs) @ '' errors''
              @ part ''Critical'' SeverityCritical @ part ''Error'' SeverityError
              @ part ''Warning'' SeverityWarning @ part ''Info'' SeverityInfo)"

subsection \<open>The in-memory reporter\<close>

record reporter =
  rep_errors :: "goerr list"
  rep_stats :: "(string, nat) gomap"

definition NewInMemoryErrorReporter :: reporter where
  "NewInMemoryErrorReporter = \<lparr>rep_errors = [], rep_stats = []\<rparr>"

definition ReportError :: "goerr option \<Rightarrow> reporter \<Rightarrow> reporter" where
  "ReportError err r =
     (case err of None \<Rightarrow> r
      | Some e \<Rightarrow>
          let r1 = r\<lparr>rep_errors := rep_errors r @ [e]\<rparr>
          in if is_mqttx e
             then r1\<lparr>rep_stats := bump (''severity_'' @ e_severity e)
                                  (bump (''type_'' @ e_type e) (rep_stats r1))\<rparr>
             else r1\<lparr>rep_stats := bump ''unknown_type'' (rep_stats r1)\<rparr>)"

definition reporter_GetErrorStats :: "reporter \<Rightarrow> (string, nat) gomap" where
  "reporter_GetErrorStats r =
     fold (\<lambda>(k, c). mput k c) (rep_stats r) [(''total_errors'', length (rep_errors r))]"

definition GetRecentErrors :: "int \<Rightarrow> reporter \<Rightarrow> goerr list" where
  "GetRecentErrors limit r =
     (if limit \<le> 0 \<or> length (rep_errors r) = 0 then []
      else let start = (if int (length (rep_errors r)) > limit
                        then int (length (rep_errors r)) - limit else 0)
           in drop (nat start) (rep_errors r))"

subsection \<open>The error metrics\<close>

record error_metrics =
  em_total :: u64
  em_by_type :: "(string, u64) gomap"
  em_by_severity :: "(string, u64) gomap"
  em_last :: string
  em_last_time :: int

definition NewErrorMetrics :: error_metrics where
  "NewErrorMetrics =
     \<lparr>em_total = 0, em_by_type = [], em_by_severity = [], em_last = [], em_last_time = 0\<rparr>"

definition bump64 :: "string \<Rightarrow> (string, u64) gomap \<Rightarrow> (string, u64) gomap" where
  "bump64 k m = mput k ((case mget m k of None \<Rightarrow> 0 | Some n \<Rightarrow> n) + 1) m"

definition RecordError :: "goerr option \<Rightarrow> int \<Rightarrow> error_metrics \<Rightarrow> error_metrics" where
  "RecordError err now m =
     (case err of None \<Rightarrow> m
      | Some e \<Rightarrow>
          let m1 = m\<lparr>em_total := em_total m + 1, em_last := err_text e, em_last_time := now\<rparr>;
              ty = (if is_mqttx e then e_type e else ''unknown'');
              sev = (if is_mqttx e then e_severity e else ''unknown'')
          in m1\<lparr>em_by_type := bump64 ty (em_by_type m1),
                em_by_severity := bump64 sev (em_by_severity m1)\<rparr>)"

definition error_metrics_Reset :: "error_metrics \<Rightarrow> error_metrics" where
  "error_metrics_Reset m =
     m\<lparr>em_total := 0, em_by_type := [], em_by_severity := [], em_last := [], em_last_time := 0\<rparr>"

subsection \<open>Retryable errors\<close>

record retryable =
  re_error :: goerr
  re_max :: int
  re_current :: int
  re_delay :: int

definition NewRetryableError :: "goerr \<Rightarrow> int \<Rightarrow> int \<Rightarrow> retryable" where
  "NewRetryableError e maxRetries retryDelay =
     \<lparr>re_error = e, re_max = maxRetries, re_current = 0, re_delay = retryDelay\<rparr>"

definition CanRetry :: "retryable \<Rightarrow> bool" where
  "CanRetry r \<longleftrightarrow> re_current r < re_max r \<and> IsTemporary (Some (re_error r))"

definition NextRetry :: "retryable \<Rightarrow> retryable" where
  "NextRetry r =
     (let c = i64 (re_current r + 1)
      in r\<lparr>re_current := c, re_error := WithContext ''retry_count'' (CtxInt c) (re_error r)\<rparr>)"

text \<open>The loop \<open>for i := 0; i < CurrentRetry; i++ { delay *= 2 }\<close>.\<close>

fun double_delay :: "nat \<Rightarrow> int \<Rightarrow> int" where
  "double_delay 0 delay = delay"
| "double_delay (Suc n) delay = double_delay n (i64 (delay * 2))"

definition GetRetryDelay :: "retryable \<Rightarrow> int" where
  "GetRetryDelay r = double_delay (nat (re_current r)) (re_delay r)"

subsection \<open>Lemmas\<close>

lemma err_text_SessionError: "err_text (newSessionError n e) = ''session '' @ n @ '': '' @ err_text e"
  by (simp add: newSessionError_def)

lemma errors_is_wrapError [simp]:
  "wrapError (Some e) m = Some w \<Longrightarrow> errors_is w t = errors_is e t"
  by (auto simp: wrapError_def)

lemma errors_is_unwrap:
  "errors_is e t \<longleftrightarrow>
     (case e of Sentinel s \<Rightarrow> t = TargetSentinel s
      | MQTTXError ty _ code _ _ _ _ _ _ \<Rightarrow> mqttx_same ty code t
      | _ \<Rightarrow> False)
     \<or> (case unwrap e of None \<Rightarrow> False | Some c \<Rightarrow> errors_is c t)"
  by (cases e) (auto split: option.splits)

lemma is_mqttx_cases:
  assumes "is_mqttx e"
  obtains ty sev code msg ses tpc tm ctx cause
  where "e = MQTTXError ty sev code msg ses tpc tm ctx cause"
  using assms by (cases e) auto

lemma WithContext_mqttx [simp]:
  "is_mqttx (WithContext k v e) = is_mqttx e"
  "IsTemporary (Some (WithContext k v e)) = IsTemporary (Some e)"
  "IsCritical (WithContext k v e) = IsCritical e"
  "errors_is (WithContext k v e) t = errors_is e t"
  by (cases e; simp)+

lemma double_delay_i64: "double_delay n (i64 d) = i64 (d * 2 ^ n)"
proof (induction n arbitrary: d)
  case 0
  then show ?case by simp
next
  case (Suc n)
  have "double_delay (Suc n) (i64 d) = double_delay n (i64 (d * 2))"
    by (simp add: i64_mult_left)
  also have "\<dots> = i64 (d * 2 * 2 ^ n)" by (rule Suc.IH)
  finally show ?case by (simp add: mult.assoc)
qed

lemma total_bump [simp]: "total_count (bump k m) = Suc (total_count m)"
  unfolding bump_def total_count_def by (induction m) (auto split: option.splits if_splits)

lemma count_of_bump: "count_of (bump k m) k' = (if k' = k then Suc (count_of m k) else count_of m k')"
  by (simp add: bump_def count_of_def)

lemma count_of_fold_bump:
  "count_of (fold (\<lambda>e. bump (f e)) es m) k = count_of m k + length (filter (\<lambda>e. f e = k) es)"
  by (induction es arbitrary: m) (auto simp: count_of_bump)

lemma total_fold_bump: "total_count (fold (\<lambda>e. bump (f e)) es m) = total_count m + length es"
  by (induction es arbitrary: m) auto

lemma fold_validation_add: "fold validation_add errs acc = acc @ List.map_filter id errs"
  by (induction errs arbitrary: acc)
     (auto simp: validation_add_def List.map_filter_def split: option.splits)

lemma NextRetry_fields [simp]:
  "re_current (NextRetry r) = i64 (re_current r + 1)"
  "re_max (NextRetry r) = re_max r"
  "re_delay (NextRetry r) = re_delay r"
  "IsTemporary (Some (re_error (NextRetry r))) = IsTemporary (Some (re_error r))"
  by (simp_all add: NextRetry_def Let_def)

lemma NextRetry_iter:
  assumes "fits_i64 (re_current r + int n)" and "0 \<le> re_current r"
  shows "re_current ((NextRetry ^^ n) r) = re_current r + int n
       \<and> re_max ((NextRetry ^^ n) r) = re_max r
       \<and> re_delay ((NextRetry ^^ n) r) = re_delay r
       \<and> IsTemporary (Some (re_error ((NextRetry ^^ n) r))) = IsTemporary (Some (re_error r))"
  using assms(1)
proof (induction n)
  case 0
  then show ?case by simp
next
  case (Suc n)
  from Suc.prems assms(2) have "fits_i64 (re_current r + int n)"
    by (auto simp: fits_i64_def)
  with Suc.IH have IH: "re_current ((NextRetry ^^ n) r) = re_current r + int n
       \<and> re_max ((NextRetry ^^ n) r) = re_max r
       \<and> re_delay ((NextRetry ^^ n) r) = re_delay r
       \<and> IsTemporary (Some (re_error ((NextRetry ^^ n) r))) = IsTemporary (Some (re_error r))"
    by blast
  moreover have "i64 (re_current r + int n + 1) = re_current r + int (Suc n)"
    using Suc.prems by (simp add: add.commute add.left_commute)
  ultimately show ?case by simp
qed

lemma report_list_errors:
  "rep_errors (fold ReportError errs r) = rep_errors r @ List.map_filter id errs"
  by (induction errs arbitrary: r)
     (auto simp: ReportError_def Let_def List.map_filter_def split: option.splits)

lemma report_list_total:
  "total_count (rep_stats (fold ReportError errs r)) =
     total_count (rep_stats r)
     + sum_list (map (\<lambda>e. if is_mqttx e then 2 else 1) (List.map_filter id errs))"
  by (induction errs arbitrary: r)
     (auto simp: ReportError_def Let_def List.map_filter_def split: option.splits)

definition stat_key :: "string \<Rightarrow> bool" where
  "stat_key k \<longleftrightarrow> k = ''unknown_type'' \<or> (\<exists>t. k = ''type_'' @ t) \<or> (\<exists>t. k = ''severity_'' @ t)"

lemma stat_key_not_total [simp]: "\<not> stat_key ''total_errors''"
  by (simp add: stat_key_def)

lemma stat_key_intros [simp, intro]:
  "stat_key ''unknown_type''" "stat_key (''type_'' @ t)" "stat_key (''severity_'' @ t)"
  by (auto simp: stat_key_def)

lemma set_mkeys_bump [simp]: "set (mkeys (bump k m)) = insert k (set (mkeys m))"
  unfolding bump_def by (rule set_mkeys_mput)

lemma ReportError_keys:
  "\<forall>k \<in> set (mkeys (rep_stats r)). stat_key k \<Longrightarrow>
   \<forall>k \<in> set (mkeys (rep_stats (ReportError err r))). stat_key k"
  by (cases err) (simp_all add: ReportError_def Let_def set_mkeys_bump del: set_map append.simps)

lemma report_list_keys:
  "\<forall>k \<in> set (mkeys (rep_stats r)). stat_key k \<Longrightarrow>
   \<forall>k \<in> set (mkeys (rep_stats (fold ReportError errs r))). stat_key k"
proof (induction errs arbitrary: r)
  case Nil
  then show ?case by simp
next
  case (Cons e errs)
  from Cons.IH [OF ReportError_keys [OF Cons.prems]] show ?case by simp
qed

lemma mget_fold_mput_other:
  "k \<notin> set (mkeys ps) \<Longrightarrow> mget (fold (\<lambda>(k, c). mput k c) ps m) k = mget m k"
  by (induction ps arbitrary: m) auto

subsection \<open>Properties\<close>

text \<open>
  A retryable error made with \<open>NewRetryableError\<close> from a temporary error grants exactly
  \<open>maxRetries\<close> retries: after \<open>n\<close> calls of \<open>NextRetry\<close>, \<open>CanRetry\<close> holds exactly
  when \<open>n < maxRetries\<close>, and the delay is the initial delay doubled \<open>n\<close> times in 64-bit
  arithmetic.
\<close>

theorem retry_budget:
  assumes "fits_i64 (int n)" and "IsTemporary (Some e)" and "fits_i64 d"
  shows "(CanRetry ((NextRetry ^^ n) (NewRetryableError e m d)) \<longleftrightarrow> int n < m)
       \<and> GetRetryDelay ((NextRetry ^^ n) (NewRetryableError e m d)) = i64 (d * 2 ^ n)"
proof -
  let ?r = "NewRetryableError e m d"
  have "re_current ((NextRetry ^^ n) ?r) = int n \<and> re_max ((NextRetry ^^ n) ?r) = m
      \<and> re_delay ((NextRetry ^^ n) ?r) = d
      \<and> IsTemporary (Some (re_error ((NextRetry ^^ n) ?r)))"
    using NextRetry_iter [of ?r n] assms by (simp add: NewRetryableError_def)
  moreover have "double_delay n d = i64 (d * 2 ^ n)"
    using double_delay_i64 [of n d] assms(3) by simp
  ultimately show ?thesis by (simp add: CanRetry_def GetRetryDelay_def)
qed

theorem retry_budget_witness:
  "(CanRetry ((NextRetry ^^ 3) (NewRetryableError (NewConnectionError ''x'' None 0) 3 500))
      \<longleftrightarrow> (3::int) < 3)
   \<and> GetRetryDelay ((NextRetry ^^ 3) (NewRetryableError (NewConnectionError ''x'' None 0) 3 500)) = i64 4000"
  using retry_budget [of 3 "NewConnectionError ''x'' None 0" 500 3]
  by (simp add: fits_i64_def NewConnectionError_def error_type_defs severity_defs)

text \<open>
  \<open>CountErrorsBySeverity\<close> counts every error of the list once: under each severity the
  number of errors that have it (an error that is not an \<open>MQTTXError\<close> counts as severity
  error), and the counts add up to the length of the list.
\<close>

theorem severity_counts_complete:
  "count_of (CountErrorsBySeverity errs) sev = length (filter (\<lambda>e. severity_key e = sev) errs)
   \<and> total_count (CountErrorsBySeverity errs) = length errs"
  using count_of_fold_bump [of severity_key errs "[]" sev] total_fold_bump [of severity_key errs "[]"]
  by (simp add: CountErrorsBySeverity_def count_of_def total_count_def)

text \<open>
  After any sequence of \<open>ReportError\<close> calls on a new reporter, \<open>GetErrorStats\<close>
  reports as total exactly the number of non-nil errors reported (no per-type or per-severity
  counter overwrites it), and the counters add up to two per \<open>MQTTXError\<close> and one per other
  error.
\<close>

theorem reporter_stats_complete:
  "mget (reporter_GetErrorStats (fold ReportError errs NewInMemoryErrorReporter)) ''total_errors''
     = Some (length (List.map_filter id errs))
   \<and> total_count (rep_stats (fold ReportError errs NewInMemoryErrorReporter))
     = sum_list (map (\<lambda>e. if is_mqttx e then 2 else 1) (List.map_filter id errs))"
proof -
  define r where "r = fold ReportError errs NewInMemoryErrorReporter"
  have es: "rep_errors r = List.map_filter id errs"
    and tot: "total_count (rep_stats r)
      = sum_list (map (\<lambda>e. if is_mqttx e then 2 else 1) (List.map_filter id errs))"
    unfolding r_def report_list_errors report_list_total
    by (simp_all add: NewInMemoryErrorReporter_def total_count_def)
  have "\<forall>k \<in> set (mkeys (rep_stats r)). stat_key k"
    unfolding r_def by (rule report_list_keys) (simp add: NewInMemoryErrorReporter_def)
  then have "''total_errors'' \<notin> set (mkeys (rep_stats r))"
    using stat_key_not_total by blast
  then have "mget (reporter_GetErrorStats r) ''total_errors'' = Some (length (rep_errors r))"
    unfolding reporter_GetErrorStats_def by (subst mget_fold_mput_other) simp_all
  with es tot show ?thesis by (simp only: r_def)
qed

text \<open>
  \<open>WrapError\<close> on an error that is not yet an \<open>MQTTXError\<close> keeps its text in the
  context but cuts the chain: the result unwraps to nothing, so \<open>IsTimeout\<close> and every
  \<open>errors.Is\<close> against a sentinel of the package fail on it, although the comment of
  \<open>WrapError\<close> says that the original error is kept; wrapping with \<open>wrapError\<close>
  keeps every such answer.
\<close>

theorem WrapError_cuts_chain:
  assumes "\<not> is_mqttx e"
  shows "\<exists>w. WrapError (Some e) ty msg now = Some w \<and> unwrap w = None
           \<and> \<not> IsTimeout (Some w) \<and> (\<forall>s. \<not> errors_is w (TargetSentinel s))
           \<and> mget (e_context w) ''original_error'' = Some (CtxString (err_text e))
           \<and> (\<forall>t. errors_is (the (wrapError (Some e) msg)) t = errors_is e t)"
  using assms by (simp add: WrapError_def NewError_def IsTimeout_def wrapError_def)

theorem WrapError_cuts_chain_witness:
  "IsTimeout (Some (Sentinel ErrTimeout))
   \<and> (\<exists>w. WrapError (Some (Sentinel ErrTimeout)) TypeConnection ''dial'' 0 = Some w
          \<and> \<not> IsTimeout (Some w))"
  using WrapError_cuts_chain [of "Sentinel ErrTimeout" TypeConnection "''dial''" 0]
  by (auto simp: IsTimeout_def)

end
