(* ===== verification/Config.thy ===== *)
theory Config
  imports Floats Errors
begin

text \<open>
  Session options (\<open>Options\<close> and its parts in \<open>types.go\<close>, \<open>options.go\<close>, the option
  part of \<open>mqtt5.go\<close>): the records, their defaults, validation, which also fills in defaults,
  the setters, and the TLS configuration. A pointer to a part is an option (\<open>None\<close> is nil).
\<close>

subsection \<open>Handlers\<close>

text \<open>
  The message handlers that reach a session: a user's function (named by a number), the closure
  \<open>restoreState\<close> installs for a topic, the closures of the forwarder and route of a name, and
  a nil function.
\<close>

datatype handler =
    UserHandler nat | RestoredHandler string | ForwardHandler string | RouteHandler string | NilHandler

subsection \<open>The option records\<close>

record tls_config =
  tls_ca :: string
  tls_cert :: string
  tls_key :: string
  tls_skip_verify :: bool

record connect_props =
  cp_keep_alive :: int
  cp_clean :: bool
  cp_auto :: bool
  cp_connect_timeout :: int
  cp_initial :: int
  cp_max :: int
  cp_backoff :: f64
  cp_write_timeout :: int
  cp_resume :: bool
  cp_persistent :: bool

record performance_options =
  pf_write_buffer :: int
  pf_read_buffer :: int
  pf_chan_size :: u64
  pf_write_timeout :: int
  pf_read_timeout :: int
  pf_max_message :: int
  pf_max_pending :: int

record topic_config =
  tc_topic :: string
  tc_qos :: byte
  tc_handler :: handler

record redis_options =
  ro_addr :: string
  ro_username :: string
  ro_password :: string
  ro_db :: int
  ro_prefix :: string
  ro_ttl :: int
  ro_pool :: int

record storage_options =
  so_type :: string
  so_path :: string
  so_redis :: "redis_options option"

record mqtt5_config =
  m5_version :: byte
  m5_session_expiry :: int
  m5_receive_max :: u16
  m5_max_packet :: u32
  m5_alias_max :: u16
  m5_req_resp :: bool
  m5_req_problem :: bool
  m5_auth_method :: string
  m5_auth_data :: "payload option"
  m5_enhanced_auth :: bool
  m5_shared_sub :: bool
  m5_user_props :: "(string, string) gomap option"

record mqtt5_auth =
  ma_method :: string
  ma_data :: "payload option"
  ma_props :: "(string, string) gomap"

record mqtt5_options =
  mo_config :: mqtt5_config
  mo_auth :: "mqtt5_auth option"
  mo_share_prefix :: string

text \<open>Of the enhanced TLS configuration (\<open>security.go\<close>), what a session looks at.\<close>

record enhanced_tls =
  et_auto_reload :: bool
  et_watching :: bool

record options =
  op_name :: string
  op_brokers :: "string list"
  op_username :: string
  op_password :: string
  op_client_id :: string
  op_tls :: "tls_config option"
  op_enhanced :: "enhanced_tls option"
  op_connect :: "connect_props option"
  op_topics :: "topic_config list"
  op_performance :: "performance_options option"
  op_storage :: "storage_options option"
  op_protocol :: byte
  op_mqtt5 :: "mqtt5_options option"

definition StoreTypeMemory :: string where "StoreTypeMemory = ''memory''"
definition StoreTypeFile :: string where "StoreTypeFile = ''file''"
definition StoreTypeRedis :: string where "StoreTypeRedis = ''redis''"

lemmas store_type_defs = StoreTypeMemory_def StoreTypeFile_def StoreTypeRedis_def

subsection \<open>Defaults\<close>

definition randomClientID :: "byte list \<Rightarrow> int" where
  "randomClientID b =
     uint (and (foldl (\<lambda>val i. or (push_bit 8 val) (ucast (b ! i))) (0 :: u64) [0..<8])
             0x7FFFFFFFFFFFFFFF)"

definition DefaultConnectProps :: connect_props where
  "DefaultConnectProps =
     \<lparr>cp_keep_alive = 60, cp_clean = True, cp_auto = True, cp_connect_timeout = 30 * second,
      cp_initial = 2 * second, cp_max = 120 * second, cp_backoff = f_1_5,
      cp_write_timeout = 30 * second, cp_resume = True, cp_persistent = False\<rparr>"

definition DefaultPerformance :: performance_options where
  "DefaultPerformance =
     \<lparr>pf_write_buffer = 4096, pf_read_buffer = 4096, pf_chan_size = 100,
      pf_write_timeout = 30 * second, pf_read_timeout = 30 * second, pf_max_message = 32 * 1024,
      pf_max_pending = 1000\<rparr>"

definition DefaultRedisOptions :: redis_options where
  "DefaultRedisOptions =
     \<lparr>ro_addr = ''localhost:6379'', ro_username = [], ro_password = [], ro_db = 0,
      ro_prefix = ''mqttx:session:'', ro_ttl = 86400, ro_pool = 10\<rparr>"

definition DefaultStorageOptions :: storage_options where
  "DefaultStorageOptions =
     \<lparr>so_type = StoreTypeMemory, so_path = [], so_redis = Some DefaultRedisOptions\<rparr>"

definition DefaultOptions :: "byte list \<Rightarrow> options" where
  "DefaultOptions rand =
     \<lparr>op_name = ''default'', op_brokers = [''tcp://localhost:1883''], op_username = [],
      op_password = [], op_client_id = ''mqttx-'' @ dec_int (randomClientID rand), op_tls = None,
      op_enhanced = None, op_connect = Some DefaultConnectProps, op_topics = [],
      op_performance = Some DefaultPerformance, op_storage = Some DefaultStorageOptions,
      op_protocol = 0, op_mqtt5 = None\<rparr>"

subsection \<open>Validation\<close>

definition validate_connect :: "connect_props option \<Rightarrow> connect_props" where
  "validate_connect cp =
     (case cp of None \<Rightarrow> DefaultConnectProps
      | Some c \<Rightarrow>
          let c1 = (if cp_keep_alive c \<le> 0 then c\<lparr>cp_keep_alive := 60\<rparr> else c);
              c2 = (if cp_connect_timeout c1 \<le> 0 then c1\<lparr>cp_connect_timeout := 30 * second\<rparr> else c1);
              c3 = (if cp_initial c2 \<le> 0 then c2\<lparr>cp_initial := 2 * second\<rparr> else c2);
              c4 = (if cp_max c3 \<le> 0 then c3\<lparr>cp_max := 120 * second\<rparr> else c3);
              c5 = (if f_le_zero (cp_backoff c4) then c4\<lparr>cp_backoff := f_1_5\<rparr> else c4)
          in if cp_write_timeout c5 \<le> 0 then c5\<lparr>cp_write_timeout := 30 * second\<rparr> else c5)"

definition validate_performance :: "performance_options option \<Rightarrow> performance_options" where
  "validate_performance pf =
     (case pf of None \<Rightarrow> DefaultPerformance
      | Some p \<Rightarrow>
          let p1 = (if pf_write_buffer p \<le> 0 then p\<lparr>pf_write_buffer := 4096\<rparr> else p);
              p2 = (if pf_read_buffer p1 \<le> 0 then p1\<lparr>pf_read_buffer := 4096\<rparr> else p1);
              p3 = (if pf_chan_size p2 \<le> 0 then p2\<lparr>pf_chan_size := 100\<rparr> else p2);
              p4 = (if pf_max_message p3 \<le> 0 then p3\<lparr>pf_max_message := 32 * 1024\<rparr> else p3)
          in if pf_max_pending p4 \<le> 0 then p4\<lparr>pf_max_pending := 1000\<rparr> else p4)"

fun validate_topics :: "topic_config list \<Rightarrow> goerr option" where
  "validate_topics [] = None"
| "validate_topics (t # ts) =
     (if tc_topic t = [] then Some (Sentinel ErrInvalidTopic)
      else if tc_qos t > 2 then Some (Sentinel ErrQoSNotSupported)
      else validate_topics ts)"

definition validate_storage :: "storage_options option \<Rightarrow> goerr option \<times> storage_options" where
  "validate_storage st =
     (case st of None \<Rightarrow> (None, DefaultStorageOptions)
      | Some s \<Rightarrow>
          if so_type s = StoreTypeFile then
            (if so_path s = [] then (Some (NewErr ''storage path cannot be empty for file store''), s)
             else (None, s))
          else if so_type s = StoreTypeRedis then
            (case so_redis s of
               None \<Rightarrow> (None, s\<lparr>so_redis := Some DefaultRedisOptions\<rparr>)
             | Some r \<Rightarrow>
                 if ro_addr r = [] then (Some (NewErr ''redis address cannot be empty''), s)
                 else if ro_ttl r \<le> 0 then (None, s\<lparr>so_redis := Some (r\<lparr>ro_ttl := 86400\<rparr>)\<rparr>)
                 else (None, s))
          else if so_type s = StoreTypeMemory then (None, s)
          else (None, s\<lparr>so_type := StoreTypeMemory\<rparr>))"

text \<open>\<open>Validate\<close> returns the error and the options it has updated on the way.\<close>

definition Validate :: "options \<Rightarrow> goerr option \<times> options" where
  "Validate opt =
     (if op_name opt = [] then (Some (Sentinel ErrInvalidOptions), opt)
      else if length (op_brokers opt) = 0 then (Some (Sentinel ErrInvalidBroker), opt)
      else if op_client_id opt = [] then (Some (Sentinel ErrInvalidClientID), opt)
      else
        let o1 = opt\<lparr>op_connect := Some (validate_connect (op_connect opt))\<rparr>;
            o2 = o1\<lparr>op_performance := Some (validate_performance (op_performance o1))\<rparr>
        in case validate_topics (op_topics o2) of
             Some e \<Rightarrow> (Some e, o2)
           | None \<Rightarrow>
               (case validate_storage (op_storage o2) of
                  (r, s) \<Rightarrow> (r, o2\<lparr>op_storage := Some s\<rparr>)))"

subsection \<open>Setters\<close>

definition props_of :: "options \<Rightarrow> connect_props" where
  "props_of opt = (case op_connect opt of None \<Rightarrow> DefaultConnectProps | Some c \<Rightarrow> c)"

definition WithTLS :: "string \<Rightarrow> string \<Rightarrow> string \<Rightarrow> bool \<Rightarrow> options \<Rightarrow> options" where
  "WithTLS ca cert key skip opt =
     opt\<lparr>op_tls := Some \<lparr>tls_ca = ca, tls_cert = cert, tls_key = key, tls_skip_verify = skip\<rparr>\<rparr>"

definition WithPerformance :: "int \<Rightarrow> int \<Rightarrow> int \<Rightarrow> options \<Rightarrow> options" where
  "WithPerformance writeBuffer readBuffer chanSize opt =
     (let p = (case op_performance opt of None \<Rightarrow> DefaultPerformance | Some p \<Rightarrow> p)
      in opt\<lparr>op_performance := Some (p\<lparr>pf_write_buffer := writeBuffer, pf_read_buffer := readBuffer,
                                    pf_chan_size := word_of_int chanSize\<rparr>)\<rparr>)"

definition WithPersistence :: "bool \<Rightarrow> options \<Rightarrow> options" where
  "WithPersistence enabled opt = opt\<lparr>op_connect := Some ((props_of opt)\<lparr>cp_persistent := enabled\<rparr>)\<rparr>"

definition WithReconnect :: "bool \<Rightarrow> int \<Rightarrow> int \<Rightarrow> f64 \<Rightarrow> options \<Rightarrow> options" where
  "WithReconnect auto initialInterval maxInterval backoff opt =
     (let c0 = (props_of opt)\<lparr>cp_auto := auto\<rparr>;
          c1 = (if initialInterval > 0 then c0\<lparr>cp_initial := i64 (initialInterval * second)\<rparr> else c0);
          c2 = (if maxInterval > 0 then c1\<lparr>cp_max := i64 (maxInterval * second)\<rparr> else c1);
          c3 = (if f_gt_zero backoff then c2\<lparr>cp_backoff := backoff\<rparr> else c2)
      in opt\<lparr>op_connect := Some c3\<rparr>)"

definition WithSimpleReconnect :: "bool \<Rightarrow> int \<Rightarrow> options \<Rightarrow> options" where
  "WithSimpleReconnect auto maxInterval opt = WithReconnect auto 0 maxInterval (Fin 0 0) opt"

definition WithTimeout :: "int \<Rightarrow> int \<Rightarrow> options \<Rightarrow> options" where
  "WithTimeout conn write opt =
     opt\<lparr>op_connect := Some ((props_of opt)\<lparr>cp_connect_timeout := i64 (conn * second),
                                        cp_write_timeout := i64 (write * second)\<rparr>)\<rparr>"

definition WithCleanSession :: "bool \<Rightarrow> options \<Rightarrow> options" where
  "WithCleanSession clean opt = opt\<lparr>op_connect := Some ((props_of opt)\<lparr>cp_clean := clean\<rparr>)\<rparr>"

definition WithAuth :: "string \<Rightarrow> string \<Rightarrow> options \<Rightarrow> options" where
  "WithAuth username password opt = opt\<lparr>op_username := username, op_password := password\<rparr>"

definition storage_of :: "options \<Rightarrow> storage_options" where
  "storage_of opt = (case op_storage opt of None \<Rightarrow> DefaultStorageOptions | Some s \<Rightarrow> s)"

definition WithStorage :: "string \<Rightarrow> string \<Rightarrow> options \<Rightarrow> options" where
  "WithStorage storeType path opt =
     opt\<lparr>op_storage := Some ((storage_of opt)\<lparr>so_type := storeType, so_path := path\<rparr>)\<rparr>"

definition WithRedisStorage ::
  "string \<Rightarrow> string \<Rightarrow> string \<Rightarrow> int \<Rightarrow> string \<Rightarrow> int \<Rightarrow> options \<Rightarrow> options" where
  "WithRedisStorage addr username password db keyPrefix ttl opt =
     (let s = storage_of opt;
          r0 = (case so_redis s of None \<Rightarrow> DefaultRedisOptions | Some r \<Rightarrow> r);
          r1 = r0\<lparr>ro_addr := addr, ro_username := username, ro_password := password, ro_db := db\<rparr>;
          r2 = (if keyPrefix \<noteq> [] then r1\<lparr>ro_prefix := keyPrefix\<rparr> else r1);
          r3 = (if ttl > 0 then r2\<lparr>ro_ttl := ttl\<rparr> else r2)
      in opt\<lparr>op_storage := Some (s\<lparr>so_type := StoreTypeRedis, so_redis := Some r3\<rparr>)\<rparr>)"

subsection \<open>MQTT 5.0 options\<close>

text \<open>
  The configuration given to \<open>WithMQTT5\<close> is not nil; the copies of the two TLS pointers it makes are
  left out, as nothing reads them.
\<close>

definition DefaultMQTT5Config :: mqtt5_config where
  "DefaultMQTT5Config =
     \<lparr>m5_version = 5, m5_session_expiry = 24 * 3600 * second, m5_receive_max = 65535,
      m5_max_packet = 268435455, m5_alias_max = 65535, m5_req_resp = True, m5_req_problem = True,
      m5_auth_method = [], m5_auth_data = None, m5_enhanced_auth = False, m5_shared_sub = True,
      m5_user_props = Some []\<rparr>"

definition NewMQTT5Auth :: "string \<Rightarrow> payload option \<Rightarrow> mqtt5_auth" where
  "NewMQTT5Auth method bytes = \<lparr>ma_method = method, ma_data = bytes, ma_props = []\<rparr>"

definition auth_WithProperty :: "string \<Rightarrow> string \<Rightarrow> mqtt5_auth \<Rightarrow> mqtt5_auth" where
  "auth_WithProperty key v a = a\<lparr>ma_props := mput key v (ma_props a)\<rparr>"

definition WithMQTT5 :: "mqtt5_config \<Rightarrow> options \<Rightarrow> options" where
  "WithMQTT5 cfg opt =
     opt\<lparr>op_connect := Some (props_of opt), op_protocol := 5,
       op_mqtt5 := Some \<lparr>mo_config = cfg, mo_auth = None, mo_share_prefix = ''$share''\<rparr>\<rparr>"

text \<open>The setters below first make sure that there are MQTT 5.0 options.\<close>

definition ensure_mqtt5 :: "options \<Rightarrow> options" where
  "ensure_mqtt5 opt = (if op_mqtt5 opt = None then WithMQTT5 DefaultMQTT5Config opt else opt)"

definition on_mqtt5 :: "(mqtt5_options \<Rightarrow> mqtt5_options) \<Rightarrow> options \<Rightarrow> options" where
  "on_mqtt5 f opt = (let o1 = ensure_mqtt5 opt in o1\<lparr>op_mqtt5 := map_option f (op_mqtt5 o1)\<rparr>)"

definition WithEnhancedAuth :: "mqtt5_auth option \<Rightarrow> options \<Rightarrow> options" where
  "WithEnhancedAuth auth opt = on_mqtt5 (\<lambda>m. m\<lparr>mo_auth := auth\<rparr>) opt"

definition WithSharedSubscription :: "bool \<Rightarrow> string \<Rightarrow> options \<Rightarrow> options" where
  "WithSharedSubscription enable prefix opt =
     on_mqtt5 (\<lambda>m. let m1 = m\<lparr>mo_config := (mo_config m)\<lparr>m5_shared_sub := enable\<rparr>\<rparr>
                   in if prefix \<noteq> [] then m1\<lparr>mo_share_prefix := prefix\<rparr> else m1) opt"

text \<open>\<^const>\<open>None\<close> is the panic of writing to a nil map of user properties.\<close>

definition WithUserProperty :: "string \<Rightarrow> string \<Rightarrow> options \<Rightarrow> options option" where
  "WithUserProperty key v opt =
     (let o1 = ensure_mqtt5 opt
      in case op_mqtt5 o1 of None \<Rightarrow> None
         | Some m \<Rightarrow>
             (case m5_user_props (mo_config m) of
                None \<Rightarrow> None
              | Some ps \<Rightarrow>
                  Some (o1\<lparr>op_mqtt5 := Some (m\<lparr>mo_config := (mo_config m)\<lparr>m5_user_props := Some (mput key v ps)\<rparr>\<rparr>)\<rparr>)))"

definition WithSessionExpiry :: "int \<Rightarrow> options \<Rightarrow> options" where
  "WithSessionExpiry expiry opt =
     on_mqtt5 (\<lambda>m. m\<lparr>mo_config := (mo_config m)\<lparr>m5_session_expiry := expiry\<rparr>\<rparr>) opt"

text \<open>The topic a shared subscription uses, when shared subscriptions are available.\<close>

definition shared_topic :: "string \<Rightarrow> string \<Rightarrow> options \<Rightarrow> goerr + string" where
  "shared_topic grp tpc opt =
     (case op_mqtt5 opt of
        None \<Rightarrow> Inl (NewErr ''shared subscription not available'')
      | Some m \<Rightarrow>
          if \<not> m5_shared_sub (mo_config m) then Inl (NewErr ''shared subscription not available'')
          else Inr (mo_share_prefix m @ ''/'' @ grp @ ''/'' @ tpc))"

subsection \<open>TLS\<close>

text \<open>
  The basic TLS configuration: \<open>ca\<close> is the outcome of reading a CA file and \<open>pem\<close> whether
  it parses; \<open>pair\<close> the outcome of loading a certificate and its key.
\<close>

record tls_result =
  tr_skip_verify :: bool
  tr_min_version :: u16
  tr_roots :: "string option"
  tr_certs :: "string list"

definition VersionTLS12 :: u16 where "VersionTLS12 = 0x0303"

definition ConfigureTLS ::
  "(string \<Rightarrow> goerr + string) \<Rightarrow> (string \<Rightarrow> bool) \<Rightarrow> (string \<Rightarrow> string \<Rightarrow> goerr + string) \<Rightarrow> options \<Rightarrow>
     goerr + tls_result option" where
  "ConfigureTLS ca pem pair opt =
     (case op_tls opt of
        None \<Rightarrow> Inr None
      | Some t \<Rightarrow>
          let c0 = \<lparr>tr_skip_verify = tls_skip_verify t, tr_min_version = VersionTLS12,
                    tr_roots = None, tr_certs = []\<rparr>;
              r1 = (if tls_ca t \<noteq> []
                    then (case ca (tls_ca t) of
                            Inl e \<Rightarrow> Inl (WrapErr (''failed to read CA file: '' @ err_text e) e)
                          | Inr x \<Rightarrow>
                              if pem x then Inr (c0\<lparr>tr_roots := Some x\<rparr>)
                              else Inl (NewErr ''failed to parse CA certificate''))
                    else Inr c0)
          in case r1 of
               Inl e \<Rightarrow> Inl e
             | Inr c1 \<Rightarrow>
                 if tls_cert t \<noteq> [] \<and> tls_key t \<noteq> []
                 then (case pair (tls_cert t) (tls_key t) of
                         Inl e \<Rightarrow> Inl (WrapErr (''failed to load client certificates: '' @ err_text e) e)
                       | Inr cert \<Rightarrow> Inr (Some (c1\<lparr>tr_certs := [cert]\<rparr>)))
                 else Inr (Some c1))"

subsection \<open>What validation establishes\<close>

definition connect_ok :: "connect_props \<Rightarrow> bool" where
  "connect_ok c \<longleftrightarrow>
     cp_keep_alive c > 0 \<and> cp_connect_timeout c > 0 \<and> cp_initial c > 0 \<and> cp_max c > 0
     \<and> \<not> f_le_zero (cp_backoff c) \<and> cp_write_timeout c > 0"

definition performance_ok :: "performance_options \<Rightarrow> bool" where
  "performance_ok p \<longleftrightarrow>
     pf_write_buffer p > 0 \<and> pf_read_buffer p > 0 \<and> pf_chan_size p > 0 \<and> pf_max_message p > 0
     \<and> pf_max_pending p > 0"

definition storage_ok :: "storage_options \<Rightarrow> bool" where
  "storage_ok s \<longleftrightarrow>
     so_type s = StoreTypeMemory
     \<or> (so_type s = StoreTypeFile \<and> so_path s \<noteq> [])
     \<or> (so_type s = StoreTypeRedis
         \<and> (case so_redis s of None \<Rightarrow> False | Some r \<Rightarrow> ro_addr r \<noteq> [] \<and> ro_ttl r > 0))"

definition options_ok :: "options \<Rightarrow> bool" where
  "options_ok opt \<longleftrightarrow>
     op_name opt \<noteq> [] \<and> op_brokers opt \<noteq> [] \<and> op_client_id opt \<noteq> []
     \<and> (case op_connect opt of None \<Rightarrow> False | Some c \<Rightarrow> connect_ok c)
     \<and> (case op_performance opt of None \<Rightarrow> False | Some p \<Rightarrow> performance_ok p)
     \<and> (\<forall>t \<in> set (op_topics opt). tc_topic t \<noteq> [] \<and> tc_qos t \<le> 2)
     \<and> (case op_storage opt of None \<Rightarrow> False | Some s \<Rightarrow> storage_ok s)"

lemma f_1_5_pos [simp]: "\<not> f_le_zero f_1_5"
  by (simp add: f_le_zero_def f_1_5_def)

lemma second_pos [simp]: "0 < second" "\<not> second \<le> 0"
  by (simp_all add: second_def)

lemma DefaultConnectProps_ok: "connect_ok DefaultConnectProps"
  by (simp add: connect_ok_def DefaultConnectProps_def)

lemma DefaultPerformance_ok: "performance_ok DefaultPerformance"
  by (simp add: performance_ok_def DefaultPerformance_def)

lemma validate_connect_ok: "connect_ok (validate_connect cp)"
  by (cases cp) (simp_all add: validate_connect_def DefaultConnectProps_ok Let_def, simp add: connect_ok_def)

lemma validate_connect_id: "connect_ok c \<Longrightarrow> validate_connect (Some c) = c"
  by (simp add: validate_connect_def connect_ok_def Let_def)

lemma word_pos_iff: "(0 < w) \<longleftrightarrow> \<not> w \<le> 0" for w :: u64
  by (simp add: word_gt_0)

lemma validate_performance_ok: "performance_ok (validate_performance pf)"
  by (cases pf)
    (simp_all add: validate_performance_def DefaultPerformance_ok Let_def,
     simp add: performance_ok_def word_pos_iff)

lemma validate_performance_id: "performance_ok p \<Longrightarrow> validate_performance (Some p) = p"
  by (auto simp: validate_performance_def performance_ok_def Let_def)

lemma validate_topics_None: "validate_topics ts = None \<longleftrightarrow> (\<forall>t \<in> set ts. tc_topic t \<noteq> [] \<and> tc_qos t \<le> 2)"
  by (induction ts) (auto simp: not_le)

lemma validate_storage_ok: "validate_storage st = (None, s) \<Longrightarrow> storage_ok s"
  by (cases st)
    (auto simp: validate_storage_def storage_ok_def DefaultStorageOptions_def DefaultRedisOptions_def
      split: if_splits option.splits)

lemma validate_storage_id: "storage_ok s \<Longrightarrow> validate_storage (Some s) = (None, s)"
  by (auto simp: validate_storage_def storage_ok_def store_type_defs split: option.splits)

lemma Validate_id: "options_ok opt \<Longrightarrow> Validate opt = (None, opt)"
  by (auto simp: Validate_def options_ok_def validate_connect_id validate_performance_id
      validate_topics_None validate_storage_id Let_def split: option.splits)

lemma Validate_ok: "Validate opt = (None, opt') \<Longrightarrow> options_ok opt'"
  by (auto simp: Validate_def options_ok_def validate_connect_ok validate_performance_ok Let_def
      validate_topics_None dest: validate_storage_ok
      split: if_splits option.splits prod.splits)

lemma Validate_frame:
  "Validate opt = (r, opt') \<Longrightarrow>
     op_name opt' = op_name opt \<and> op_brokers opt' = op_brokers opt \<and> op_username opt' = op_username opt
     \<and> op_password opt' = op_password opt \<and> op_client_id opt' = op_client_id opt
     \<and> op_tls opt' = op_tls opt \<and> op_enhanced opt' = op_enhanced opt \<and> op_topics opt' = op_topics opt
     \<and> op_protocol opt' = op_protocol opt \<and> op_mqtt5 opt' = op_mqtt5 opt"
  by (auto simp: Validate_def Let_def split: if_splits option.splits prod.splits)

subsection \<open>Properties\<close>



text \<open>
  A basic TLS configuration never allows a version below TLS 1.2, skips the verification of the
  server only when the options say so, uses a root pool exactly when a CA file is named, and
  fails rather than going on when a named file cannot be read or parsed.
\<close>

theorem ConfigureTLS_safe:
  assumes "ConfigureTLS ca pem pair opt = Inr (Some c)"
  shows "\<exists>t. op_tls opt = Some t \<and> tr_min_version c = VersionTLS12
    \<and> tr_skip_verify c = tls_skip_verify t
    \<and> (tr_roots c \<noteq> None \<longleftrightarrow> tls_ca t \<noteq> [])
    \<and> (\<forall>x. tr_roots c = Some x \<longrightarrow> ca (tls_ca t) = Inr x \<and> pem x)
    \<and> (tr_certs c \<noteq> [] \<longleftrightarrow> tls_cert t \<noteq> [] \<and> tls_key t \<noteq> [])"
proof (cases "op_tls opt")
  case None
  with assms show ?thesis by (simp add: ConfigureTLS_def)
next
  case (Some t)
  with assms show ?thesis
    by (auto simp: ConfigureTLS_def Let_def split: if_splits sum.splits)
qed

theorem ConfigureTLS_safe_witness:
  "\<exists>c. ConfigureTLS (\<lambda>_. Inr ''pem'') (\<lambda>_. True) (\<lambda>_ _. Inr ''pair'')
      (WithTLS ''ca'' [] [] False (DefaultOptions (replicate 8 0))) = Inr (Some c) \<and> \<not> tr_skip_verify c"
proof -
  let ?o = "WithTLS ''ca'' [] [] False (DefaultOptions (replicate 8 0))"
  obtain c where c: "ConfigureTLS (\<lambda>_. Inr ''pem'') (\<lambda>_. True) (\<lambda>_ _. Inr ''pair'') ?o = Inr (Some c)"
    by (simp add: ConfigureTLS_def WithTLS_def)
  have "op_tls ?o = Some \<lparr>tls_ca = ''ca'', tls_cert = [], tls_key = [], tls_skip_verify = False\<rparr>"
    by (simp add: WithTLS_def)
  with ConfigureTLS_safe [OF c] c show ?thesis by auto
qed

end
