(* ===== verification/Events.thy ===== *)
theory Events
  imports Errors
begin

text \<open>
  The event manager (\<open>event.go\<close>, the event types of \<open>types.go\<close>): handlers
  registered per event type, called synchronously and in registration order by \<open>emit\<close>.
  A handler is user code; it is named by a number, and what the manager does with it is recorded
  in \<open>ev_calls\<close>, the history of calls (handler, event).
\<close>

definition EventSessionConnecting :: string where "EventSessionConnecting = ''session_connecting''"
definition EventSessionConnected :: string where "EventSessionConnected = ''session_connected''"
definition EventSessionDisconnected :: string where
  "EventSessionDisconnected = ''session_disconnected''"
definition EventSessionReconnecting :: string where
  "EventSessionReconnecting = ''session_reconnecting''"
definition EventSessionAdded :: string where "EventSessionAdded = ''session_added''"
definition EventSessionRemoved :: string where "EventSessionRemoved = ''session_removed''"
definition EventSessionReady :: string where "EventSessionReady = ''session_ready''"
definition EventStateChanged :: string where "EventStateChanged = ''session_state_changed''"

lemmas event_type_defs =
  EventSessionConnecting_def EventSessionConnected_def EventSessionDisconnected_def
  EventSessionReconnecting_def EventSessionAdded_def EventSessionRemoved_def
  EventSessionReady_def EventStateChanged_def

text \<open>The values of \<open>Event.Data\<close>: nothing, an error, or a map of fields.\<close>

datatype field_value =
    FString string | FBool bool | FInt int | FU32 u32 | FTime int | FError goerr

datatype event_data = NoData | ErrData "goerr option" | MapData "(string, field_value) gomap"

record event =
  ev_type :: string
  ev_session :: string
  ev_data :: event_data
  ev_time :: int

record event_manager =
  ev_handlers :: "(string, nat list) gomap"
  ev_calls :: "(nat \<times> event) list"

definition newEventManager :: event_manager where
  "newEventManager = \<lparr>ev_handlers = [], ev_calls = []\<rparr>"

definition emit :: "event \<Rightarrow> event_manager \<Rightarrow> event_manager" where
  "emit e em =
     (case mget (ev_handlers em) (ev_type e) of
        None \<Rightarrow> em
      | Some hs \<Rightarrow> em\<lparr>ev_calls := ev_calls em @ map (\<lambda>h. (h, e)) hs\<rparr>)"

definition on_event :: "string \<Rightarrow> nat \<Rightarrow> event_manager \<Rightarrow> event_manager" where
  "on_event t h em =
     em\<lparr>ev_handlers :=
          mput t ((case mget (ev_handlers em) t of None \<Rightarrow> [] | Some hs \<Rightarrow> hs) @ [h])
            (ev_handlers em)\<rparr>"

subsection \<open>Lemmas\<close>

definition handlers_of :: "event_manager \<Rightarrow> string \<Rightarrow> nat list" where
  "handlers_of em t = (case mget (ev_handlers em) t of None \<Rightarrow> [] | Some hs \<Rightarrow> hs)"

lemma emit_calls [simp]:
  "ev_calls (emit e em) = ev_calls em @ map (\<lambda>h. (h, e)) (handlers_of em (ev_type e))"
  by (simp add: emit_def handlers_of_def split: option.splits)

lemma emit_handlers [simp]: "ev_handlers (emit e em) = ev_handlers em"
  by (simp add: emit_def split: option.splits)

lemma handlers_of_emit [simp]: "handlers_of (emit e em) t = handlers_of em t"
  by (simp add: handlers_of_def)

lemma handlers_of_on_event [simp]:
  "handlers_of (on_event t h em) t' = (if t' = t then handlers_of em t @ [h] else handlers_of em t')"
  by (simp add: handlers_of_def on_event_def)

lemma on_event_calls [simp]: "ev_calls (on_event t h em) = ev_calls em"
  by (simp add: on_event_def)

text \<open>A use of the event manager: registrations and emissions in the order they happen.\<close>

datatype ev_op = OnEvent string nat | Emit event

fun ev_step :: "event_manager \<Rightarrow> ev_op \<Rightarrow> event_manager" where
  "ev_step em (OnEvent t h) = on_event t h em"
| "ev_step em (Emit e) = emit e em"

definition ev_run :: "ev_op list \<Rightarrow> event_manager" where
  "ev_run ops = foldl ev_step newEventManager ops"

text \<open>The abstract specification: the registrations of a type so far, in order.\<close>

definition registered :: "string \<Rightarrow> ev_op list \<Rightarrow> nat list" where
  "registered t ops = concat (map (\<lambda>x. case x of OnEvent t' h \<Rightarrow> if t' = t then [h] else []
                                    | Emit _ \<Rightarrow> []) ops)"

fun deliveries :: "ev_op list \<Rightarrow> ev_op list \<Rightarrow> (nat \<times> event) list" where
  "deliveries past [] = []"
| "deliveries past (OnEvent t h # ops) = deliveries (past @ [OnEvent t h]) ops"
| "deliveries past (Emit e # ops) =
     map (\<lambda>h. (h, e)) (registered (ev_type e) past) @ deliveries (past @ [Emit e]) ops"

lemma registered_snoc [simp]:
  "registered t (ops @ [OnEvent t' h]) = registered t ops @ (if t' = t then [h] else [])"
  "registered t (ops @ [Emit e]) = registered t ops"
  by (simp_all add: registered_def)

lemma handlers_of_run: "handlers_of (ev_run ops) t = registered t ops"
proof (induction ops rule: rev_induct)
  case Nil
  then show ?case by (simp add: ev_run_def handlers_of_def newEventManager_def registered_def)
next
  case (snoc x ops)
  then show ?case by (cases x) (auto simp: ev_run_def)
qed

lemma deliveries_append:
  "deliveries past (ops @ ops') = deliveries past ops @ deliveries (past @ ops) ops'"
  by (induction past ops rule: deliveries.induct) auto

subsection \<open>Properties\<close>

text \<open>
  The event manager calls, for every emitted event and in the order the events are emitted,
  each handler registered for the event's type before the emission, once per registration and in
  registration order, and no other handler.
\<close>

theorem emit_delivers_in_order: "ev_calls (ev_run ops) = deliveries [] ops"
proof (induction ops rule: rev_induct)
  case Nil
  then show ?case by (simp add: ev_run_def newEventManager_def)
next
  case (snoc x ops)
  have run: "ev_run (ops @ [x]) = ev_step (ev_run ops) x" by (simp add: ev_run_def)
  show ?case
  proof (cases x)
    case (OnEvent t h)
    with snoc run show ?thesis by (simp add: deliveries_append)
  next
    case (Emit e)
    with snoc run show ?thesis by (simp add: deliveries_append handlers_of_run)
  qed
qed

end
