(* ===== verification/Metrics.thy ===== *)
theory Metrics
  imports Prelude
begin

text \<open>
  The counters of \<open>metrics.go\<close>: the manager's \<open>Metrics\<close> and a session's
  \<open>SessionMetrics\<close>, which the code updates with atomic additions (so a counter is a word and
  wraps), and the unit loop of \<open>formatBytes\<close>. A reading of the clock is the argument
  \<open>now\<close>, in nanoseconds.
\<close>

subsection \<open>The manager's counters\<close>

record metrics =
  mx_messages :: u64
  mx_bytes :: u64
  mx_errors :: u64
  mx_reconnects :: u64
  mx_active :: int
  mx_last_update :: int
  mx_last_message :: int
  mx_last_error :: int

definition newMetrics :: "int \<Rightarrow> metrics" where
  "newMetrics now =
     \<lparr>mx_messages = 0, mx_bytes = 0, mx_errors = 0, mx_reconnects = 0, mx_active = 0,
      mx_last_update = now, mx_last_message = now, mx_last_error = now\<rparr>"

definition metrics_recordMessage :: "u64 \<Rightarrow> int \<Rightarrow> metrics \<Rightarrow> metrics" where
  "metrics_recordMessage bytes now m =
     m\<lparr>mx_messages := mx_messages m + 1, mx_bytes := mx_bytes m + bytes,
       mx_last_update := now, mx_last_message := now\<rparr>"

definition metrics_recordError :: "int \<Rightarrow> metrics \<Rightarrow> metrics" where
  "metrics_recordError now m = m\<lparr>mx_errors := mx_errors m + 1, mx_last_error := now\<rparr>"

definition metrics_recordReconnect :: "metrics \<Rightarrow> metrics" where
  "metrics_recordReconnect m = m\<lparr>mx_reconnects := mx_reconnects m + 1\<rparr>"

definition metrics_reset :: "int \<Rightarrow> metrics \<Rightarrow> metrics" where
  "metrics_reset now m =
     m\<lparr>mx_messages := 0, mx_bytes := 0, mx_errors := 0, mx_reconnects := 0, mx_active := 0,
       mx_last_update := now, mx_last_message := now, mx_last_error := now\<rparr>"

definition updateSessionCount :: "int \<Rightarrow> metrics \<Rightarrow> metrics" where
  "updateSessionCount delta m = m\<lparr>mx_active := i64 (mx_active m + delta)\<rparr>"

subsection \<open>A session's counters\<close>

record session_metrics =
  sm_sent :: u64
  sm_received :: u64
  sm_bytes_sent :: u64
  sm_bytes_received :: u64
  sm_errors :: u64
  sm_reconnects :: u64
  sm_last_message :: int
  sm_last_error :: int

definition newSessionMetrics :: "int \<Rightarrow> session_metrics" where
  "newSessionMetrics now =
     \<lparr>sm_sent = 0, sm_received = 0, sm_bytes_sent = 0, sm_bytes_received = 0, sm_errors = 0,
      sm_reconnects = 0, sm_last_message = now, sm_last_error = now\<rparr>"

definition sm_recordMessage :: "bool \<Rightarrow> u64 \<Rightarrow> int \<Rightarrow> session_metrics \<Rightarrow> session_metrics" where
  "sm_recordMessage sent bytes now m =
     (let m1 = (if sent
                then m\<lparr>sm_sent := sm_sent m + 1, sm_bytes_sent := sm_bytes_sent m + bytes\<rparr>
                else m\<lparr>sm_received := sm_received m + 1,
                       sm_bytes_received := sm_bytes_received m + bytes\<rparr>)
      in m1\<lparr>sm_last_message := now\<rparr>)"

definition sm_recordError :: "int \<Rightarrow> session_metrics \<Rightarrow> session_metrics" where
  "sm_recordError now m = m\<lparr>sm_errors := sm_errors m + 1, sm_last_error := now\<rparr>"

definition sm_recordReconnect :: "session_metrics \<Rightarrow> session_metrics" where
  "sm_recordReconnect m = m\<lparr>sm_reconnects := sm_reconnects m + 1\<rparr>"

definition sm_reset :: "int \<Rightarrow> session_metrics \<Rightarrow> session_metrics" where
  "sm_reset now m =
     m\<lparr>sm_sent := 0, sm_received := 0, sm_bytes_sent := 0, sm_bytes_received := 0,
       sm_errors := 0, sm_reconnects := 0, sm_last_message := now, sm_last_error := now\<rparr>"

subsection \<open>Byte sizes and snapshots\<close>

text \<open>
  The text of \<open>formatBytes\<close>: a plain count, or the quotient of the bytes and the divisor
  with its unit letter (the two decimals of the quotient are left to \<open>fmt\<close>).
\<close>

datatype size_text = PlainBytes u64 | Scaled u64 nat char

fun unit_loop :: "nat \<Rightarrow> nat \<Rightarrow> nat \<Rightarrow> nat \<times> nat" where
  "unit_loop n divisor ex =
     (if n \<ge> 1024 then unit_loop (n div 1024) (divisor * 1024 mod 2 ^ 64) (Suc ex)
      else (divisor, ex))"

declare unit_loop.simps [simp del]

text \<open>\<^const>\<open>None\<close> is the panic of indexing \<open>"KMGTPE"\<close> out of range.\<close>

definition formatBytes :: "u64 \<Rightarrow> size_text option" where
  "formatBytes bytes =
     (if unat bytes < 1024 then Some (PlainBytes bytes)
      else let (divisor, ex) = unit_loop (unat bytes div 1024) 1024 0
           in if ex < length ''KMGTPE'' then Some (Scaled bytes divisor (''KMGTPE'' ! ex)) else None)"

datatype metric_value =
    MU64 u64 | MI64 int | MSize "size_text option" | MTime int | MTimeText int

definition metrics_getSnapshot :: "metrics \<Rightarrow> (string, metric_value) gomap" where
  "metrics_getSnapshot m =
     [(''active_sessions'', MI64 (mx_active m)),
      (''total_messages'', MU64 (mx_messages m)),
      (''total_bytes'', MSize (formatBytes (mx_bytes m))),
      (''error_count'', MU64 (mx_errors m)),
      (''reconnect_count'', MU64 (mx_reconnects m)),
      (''last_update'', MTimeText (mx_last_update m)),
      (''last_message_time'', MTimeText (mx_last_message m)),
      (''last_error_time'', MTimeText (mx_last_error m))]"

definition sm_getSnapshot :: "session_metrics \<Rightarrow> (string, metric_value) gomap" where
  "sm_getSnapshot m =
     [(''messages_sent'', MU64 (sm_sent m)),
      (''messages_received'', MU64 (sm_received m)),
      (''bytes_sent'', MU64 (sm_bytes_sent m)),
      (''bytes_received'', MU64 (sm_bytes_received m)),
      (''errors'', MU64 (sm_errors m)),
      (''reconnects'', MU64 (sm_reconnects m)),
      (''last_error'', MTime (sm_last_error m)),
      (''last_message'', MTime (sm_last_message m))]"

subsection \<open>The Prometheus exporter\<close>

text \<open>
  \<open>PrometheusExporter.Export\<close> (\<open>metrics_export.go\<close>): one line per number of a snapshot, in the order
  the map is visited; texts are left out, and so are values of the other types.
\<close>

definition metric_name :: "string \<Rightarrow> string \<Rightarrow> string" where
  "metric_name pre k = pre @ ''_'' @ map (\<lambda>c. if c = CHR ''-'' then CHR ''_'' else c) k"

fun metric_number :: "metric_value \<Rightarrow> string option" where
  "metric_number (MU64 n) = Some (dec (unat n))"
| "metric_number (MI64 i) = Some (dec_int i)"
| "metric_number _ = None"

fun Export :: "string \<Rightarrow> int \<Rightarrow> (string, metric_value) gomap \<Rightarrow> string" where
  "Export pre now [] = []"
| "Export pre now ((k, v) # kvs) =
     (case metric_number v of
        None \<Rightarrow> []
      | Some n \<Rightarrow> metric_name pre k @ '' '' @ n @ '' '' @ dec_int (i64 (now div second * 1000)) @ [CHR 0x0A])
     @ Export pre now kvs"

text \<open>The export of the manager's counters does not contain the bytes: they are a text in the snapshot.\<close>

lemma Export_manager:
  "Export pre now (metrics_getSnapshot m)
     = Export pre now [(''active_sessions'', MI64 (mx_active m)), (''total_messages'', MU64 (mx_messages m)),
                       (''error_count'', MU64 (mx_errors m)), (''reconnect_count'', MU64 (mx_reconnects m))]"
  by (simp add: metrics_getSnapshot_def)

subsection \<open>Lemmas\<close>

lemma sm_recordMessage_fields [simp]:
  "sm_errors (sm_recordMessage sent b now m) = sm_errors m"
  "sm_reconnects (sm_recordMessage sent b now m) = sm_reconnects m"
  "sm_sent (sm_recordMessage sent b now m) = (if sent then sm_sent m + 1 else sm_sent m)"
  "sm_received (sm_recordMessage sent b now m) = (if sent then sm_received m else sm_received m + 1)"
  "sm_bytes_sent (sm_recordMessage sent b now m) = (if sent then sm_bytes_sent m + b else sm_bytes_sent m)"
  "sm_bytes_received (sm_recordMessage sent b now m) =
     (if sent then sm_bytes_received m else sm_bytes_received m + b)"
  by (simp_all add: sm_recordMessage_def)

lemma sm_recordError_fields [simp]:
  "sm_errors (sm_recordError now m) = sm_errors m + 1"
  "sm_sent (sm_recordError now m) = sm_sent m"
  "sm_received (sm_recordError now m) = sm_received m"
  "sm_bytes_sent (sm_recordError now m) = sm_bytes_sent m"
  "sm_bytes_received (sm_recordError now m) = sm_bytes_received m"
  "sm_reconnects (sm_recordError now m) = sm_reconnects m"
  "sm_last_error (sm_recordError now m) = now"
  by (simp_all add: sm_recordError_def)

lemma sm_recordReconnect_fields [simp]:
  "sm_reconnects (sm_recordReconnect m) = sm_reconnects m + 1"
  "sm_errors (sm_recordReconnect m) = sm_errors m"
  "sm_sent (sm_recordReconnect m) = sm_sent m"
  "sm_received (sm_recordReconnect m) = sm_received m"
  by (simp_all add: sm_recordReconnect_def)

lemma metrics_active_frame [simp]:
  "mx_active (metrics_recordMessage b now m) = mx_active m"
  "mx_active (metrics_recordError now m) = mx_active m"
  "mx_active (metrics_recordReconnect m) = mx_active m"
  "mx_active (updateSessionCount d m) = i64 (mx_active m + d)"
  by (simp_all add: metrics_recordMessage_def metrics_recordError_def metrics_recordReconnect_def
      updateSessionCount_def)

text \<open>
  The loop keeps the divisor a power of 1024 that brackets the remaining quotient: it stops
  with the largest such power not above the start value.
\<close>

lemma unit_loop_bracket:
  assumes "0 < n" and "n < 16 * 1024 ^ (5 - ex)" and "ex \<le> 5" and "d = 1024 ^ Suc ex"
  shows "\<exists>k. unit_loop n d ex = (1024 ^ Suc k, k) \<and> ex \<le> k \<and> k < 6
           \<and> 1024 ^ (k - ex) \<le> n \<and> n < 1024 * 1024 ^ (k - ex)"
  using assms
proof (induction n d ex rule: unit_loop.induct)
  case (1 n d ex)
  show ?case
  proof (cases "n \<ge> 1024")
    case False
    with "1.prems" show ?thesis
      by (intro exI [of _ ex]) (simp add: unit_loop.simps [of n])
  next
    case True
    have ex: "ex < 5"
    proof (rule ccontr)
      assume "\<not> ex < 5"
      with "1.prems"(3) have "ex = 5" by simp
      with "1.prems"(2) True show False by simp
    qed
    have div: "d * 1024 mod 2 ^ 64 = 1024 ^ Suc (Suc ex)"
    proof -
      have "(1024::nat) ^ Suc (Suc ex) \<le> 1024 ^ 6"
        using ex by (intro power_increasing) auto
      then have "(1024::nat) ^ Suc (Suc ex) < 2 ^ 64" by simp
      with "1.prems"(4) show ?thesis by simp
    qed
    have pos: "0 < n div 1024" using True by (simp add: div_greater_zero_iff)
    have up: "n div 1024 < 16 * 1024 ^ (5 - Suc ex)"
    proof -
      have "(1024::nat) ^ (5 - ex) = 1024 ^ (5 - Suc ex) * 1024"
        using ex by (metis Suc_diff_Suc mult.commute power_Suc)
      with "1.prems"(2) show ?thesis by (simp add: less_mult_imp_div_less)
    qed
    from "1.IH" [OF True pos up] ex div obtain k where k:
      "unit_loop (n div 1024) (d * 1024 mod 2 ^ 64) (Suc ex) = (1024 ^ Suc k, k)"
      "Suc ex \<le> k" "k < 6" "1024 ^ (k - Suc ex) \<le> n div 1024"
      "n div 1024 < 1024 * 1024 ^ (k - Suc ex)"
      by auto
    from k(2) have pw: "(1024::nat) ^ (k - ex) = 1024 * 1024 ^ (k - Suc ex)"
      by (metis Suc_diff_le diff_Suc_Suc power_Suc)
    have lo: "1024 * 1024 ^ (k - Suc ex) \<le> n" using k(4) by linarith
    have hi: "n < 1024 * (1024 * 1024 ^ (k - Suc ex))" using k(5) by linarith
    show ?thesis
      using k(1,2,3) True lo hi pw by (intro exI [of _ k]) (simp add: unit_loop.simps [of n])
  qed
qed

subsection \<open>Properties\<close>

text \<open>
  \<open>formatBytes\<close> never indexes its unit table out of range, for any 64-bit count: it
  prints a count below 1024 as it is and any other count over the largest power of 1024 not
  above it, with the unit letter of that power.
\<close>

theorem formatBytes_total:
  "(unat b < 1024 \<and> formatBytes b = Some (PlainBytes b))
   \<or> (\<exists>k < 6. formatBytes b = Some (Scaled b (1024 ^ Suc k) (''KMGTPE'' ! k))
        \<and> 1024 ^ Suc k \<le> unat b \<and> unat b < 1024 * 1024 ^ Suc k)"
proof (cases "unat b < 1024")
  case True
  then show ?thesis by (simp add: formatBytes_def)
next
  case False
  let ?n = "unat b div 1024"
  have "unat b < 2 ^ 64" using unsigned_less [of b] by simp
  then have up: "?n < 16 * 1024 ^ (5 - 0)" by simp
  have pos: "0 < ?n" using False by (simp add: div_greater_zero_iff)
  obtain k where k: "unit_loop ?n 1024 0 = (1024 ^ Suc k, k)" "k < 6"
      "1024 ^ k \<le> ?n" "?n < 1024 * 1024 ^ k"
    using unit_loop_bracket [OF pos up] by auto
  have "1024 ^ Suc k \<le> unat b" and "unat b < 1024 * 1024 ^ Suc k"
    using k(3,4) by (simp_all only: power_Suc)
  with k False show ?thesis
    by (intro disjI2 exI [of _ k]) (simp add: formatBytes_def)
qed

end
