(* ===== verification/Recovery.thy ===== *)
theory Recovery
  imports Events Metrics
begin

text \<open>
  The error recovery manager (\<open>error_recovery.go\<close>): a table of at most \<open>errorLimit\<close>
  errors, keyed by session, category and error text. The code shares \<open>*ErrorInfo\<close> pointers
  between the table, the caller and the recovery goroutine it starts, so an entry is an address
  into a list of objects that only grows (an object that leaves the table stays reachable from
  its goroutine). \<open>rc_pending\<close> holds the addresses for which \<open>go executeRecovery(info)\<close>
  has been started; the goroutine's body is in \<open>Manager\<close>, which owns the sessions it looks
  up.
\<close>

subsection \<open>State\<close>

type_synonym category = string

definition CategoryConnection :: category where "CategoryConnection = ''connection''"
definition CategorySubscription :: category where "CategorySubscription = ''subscription''"
definition CategoryPublish :: category where "CategoryPublish = ''publish''"
definition CategoryAuthentication :: category where "CategoryAuthentication = ''authentication''"
definition CategoryInternal :: category where "CategoryInternal = ''internal''"

lemmas category_defs =
  CategoryConnection_def CategorySubscription_def CategoryPublish_def CategoryAuthentication_def
  CategoryInternal_def

datatype strategy = StrategyRetry | StrategyReconnect | StrategyNotify

record error_info =
  ei_error :: goerr
  ei_time :: int
  ei_session :: string
  ei_category :: category
  ei_severity :: severity
  ei_strategy :: strategy
  ei_retry :: int
  ei_recovered :: bool

record recovery =
  rc_errors :: "(string, nat) gomap"
  rc_objs :: "error_info list"
  rc_max_retries :: "(category, int) gomap"
  rc_limit :: nat
  rc_count :: int
  rc_pending :: "nat list"

definition NewRecoveryManager :: recovery where
  "NewRecoveryManager =
     \<lparr>rc_errors = [], rc_objs = [],
      rc_max_retries =
        [(CategoryConnection, 3), (CategorySubscription, 2), (CategoryPublish, 2),
         (CategoryAuthentication, 1), (CategoryInternal, 1)],
      rc_limit = 100, rc_count = 0, rc_pending = []\<rparr>"

definition obj :: "recovery \<Rightarrow> nat \<Rightarrow> error_info" where
  "obj rm r = rc_objs rm ! r"

subsection \<open>Operations\<close>

definition error_id :: "string \<Rightarrow> category \<Rightarrow> goerr \<Rightarrow> string" where
  "error_id session cat err = session @ '':'' @ cat @ '':'' @ err_text err"

definition determineSeverity :: "goerr \<Rightarrow> category \<Rightarrow> severity" where
  "determineSeverity err cat =
     (if cat = CategoryAuthentication \<or> cat = CategoryInternal then SeverityCritical
      else SeverityWarning)"

definition determineStrategy :: "category \<Rightarrow> severity \<Rightarrow> strategy" where
  "determineStrategy cat sev =
     (if cat = CategoryConnection \<and> sev = SeverityWarning then StrategyReconnect
      else if cat = CategorySubscription \<or> cat = CategoryPublish then StrategyRetry
      else StrategyNotify)"

definition ClearRecoveredErrors :: "recovery \<Rightarrow> nat \<times> recovery" where
  "ClearRecoveredErrors rm =
     (let gone = filter (\<lambda>(k, r). ei_recovered (obj rm r)) (rc_errors rm);
          count = length gone;
          rm1 = rm\<lparr>rc_errors := filter (\<lambda>(k, r). \<not> ei_recovered (obj rm r)) (rc_errors rm)\<rparr>
      in (count, if count > 0 then rm1\<lparr>rc_count := rc_count rm1 - int count\<rparr> else rm1))"

text \<open>The search for the oldest entry: the first of those with the least time.\<close>

fun oldest :: "recovery \<Rightarrow> (string \<times> nat) list \<Rightarrow> (string \<times> int) option \<Rightarrow> (string \<times> int) option" where
  "oldest rm [] acc = acc"
| "oldest rm ((k, r) # es) acc =
     (case acc of
        None \<Rightarrow> oldest rm es (Some (k, ei_time (obj rm r)))
      | Some (k0, t0) \<Rightarrow>
          if ei_time (obj rm r) < t0 then oldest rm es (Some (k, ei_time (obj rm r)))
          else oldest rm es acc)"

definition evict_oldest :: "recovery \<Rightarrow> recovery" where
  "evict_oldest rm =
     (if length (rc_errors rm) \<ge> rc_limit rm
      then (case oldest rm (rc_errors rm) None of
              None \<Rightarrow> rm
            | Some (k, _) \<Rightarrow>
                if k \<noteq> [] then rm\<lparr>rc_errors := mdel k (rc_errors rm), rc_count := rc_count rm - 1\<rparr>
                else rm)
      else rm)"

text \<open>The first part of \<open>RegisterError\<close>, before it takes the lock for the insertion.\<close>

definition make_room :: "recovery \<Rightarrow> recovery" where
  "make_room rm =
     (if rc_count rm \<ge> int (rc_limit rm) then evict_oldest (snd (ClearRecoveredErrors rm)) else rm)"

definition new_info :: "string \<Rightarrow> goerr \<Rightarrow> category \<Rightarrow> int \<Rightarrow> error_info" where
  "new_info session err cat now =
     (let sev = determineSeverity err cat
      in \<lparr>ei_error = err, ei_time = now, ei_session = session, ei_category = cat,
          ei_severity = sev, ei_strategy = determineStrategy cat sev, ei_retry = 0,
          ei_recovered = False\<rparr>)"

text \<open>The second part, under the lock: find or insert.\<close>

definition insert_error ::
  "string \<Rightarrow> goerr \<Rightarrow> category \<Rightarrow> int \<Rightarrow> recovery \<Rightarrow> nat \<times> recovery" where
  "insert_error session err cat now rm =
     (let eid = error_id session cat err
      in case mget (rc_errors rm) eid of
           Some r \<Rightarrow>
             (r, rm\<lparr>rc_objs := (rc_objs rm)[r := (obj rm r)\<lparr>ei_retry := ei_retry (obj rm r) + 1\<rparr>]\<rparr>)
         | None \<Rightarrow>
             (let r = length (rc_objs rm)
              in (r, rm\<lparr>rc_objs := rc_objs rm @ [new_info session err cat now],
                        rc_errors := mput eid r (rc_errors rm),
                        rc_count := rc_count rm + 1,
                        rc_pending := rc_pending rm @ [r]\<rparr>)))"

definition RegisterError ::
  "string \<Rightarrow> goerr option \<Rightarrow> category \<Rightarrow> int \<Rightarrow> recovery \<Rightarrow> nat option \<times> recovery" where
  "RegisterError session err cat now rm =
     (case err of None \<Rightarrow> (None, rm)
      | Some e \<Rightarrow> (case insert_error session e cat now (make_room rm) of (r, rm') \<Rightarrow> (Some r, rm')))"

definition GetActiveErrors :: "recovery \<Rightarrow> nat list" where
  "GetActiveErrors rm = filter (\<lambda>r. \<not> ei_recovered (obj rm r)) (map snd (rc_errors rm))"

definition MarkErrorRecovered ::
  "string \<Rightarrow> category \<Rightarrow> goerr option \<Rightarrow> recovery \<Rightarrow> bool \<times> recovery" where
  "MarkErrorRecovered session cat err rm =
     (case err of None \<Rightarrow> (False, rm)
      | Some e \<Rightarrow>
          (case mget (rc_errors rm) (error_id session cat e) of
             None \<Rightarrow> (False, rm)
           | Some r \<Rightarrow>
               (True, rm\<lparr>rc_objs := (rc_objs rm)[r := (obj rm r)\<lparr>ei_recovered := True\<rparr>]\<rparr>)))"

definition SetMaxRetries :: "category \<Rightarrow> int \<Rightarrow> recovery \<Rightarrow> recovery" where
  "SetMaxRetries cat n rm = rm\<lparr>rc_max_retries := mput cat n (rc_max_retries rm)\<rparr>"

text \<open>A missing key of \<open>map[ErrorCategory]int\<close> reads as zero.\<close>

definition max_retries_of :: "recovery \<Rightarrow> category \<Rightarrow> int" where
  "max_retries_of rm cat = (case mget (rc_max_retries rm) cat of None \<Rightarrow> 0 | Some n \<Rightarrow> n)"

text \<open>
  \<open>time.Duration(1<<uint(RetryCount)) * 100 * time.Millisecond\<close>, capped at ten seconds: the
  shift is done in the 64-bit \<open>int\<close> and the products wrap.
\<close>

definition retry_backoff :: "int \<Rightarrow> int" where
  "retry_backoff retryCount =
     (let n = nat (retryCount mod 2 ^ 64);
          shifted = (if n < 64 then i64 (2 ^ n) else 0);
          backoff = i64 (i64 (shifted * 100) * ms)
      in if backoff > 10 * second then 10 * second else backoff)"

text \<open>
  \<open>executeRetry\<close>: \<^const>\<open>None\<close> when the retries are used up, otherwise the time it sleeps
  and the table with the entry's retry count raised. Nothing is retried.
\<close>

definition executeRetry :: "nat \<Rightarrow> recovery \<Rightarrow> int option \<times> recovery" where
  "executeRetry r rm =
     (let info = obj rm r
      in if ei_retry info \<ge> max_retries_of rm (ei_category info) then (None, rm)
         else (Some (retry_backoff (ei_retry info)),
               rm\<lparr>rc_objs := (rc_objs rm)[r := info\<lparr>ei_retry := ei_retry info + 1\<rparr>]\<rparr>))"

record error_stats =
  es_total :: nat
  es_active :: nat
  es_by_category :: "(string, nat) gomap"
  es_by_severity :: "(string, nat) gomap"
  es_by_recovery :: "(string, nat) gomap"

definition stats_step :: "recovery \<Rightarrow> string \<times> nat \<Rightarrow> error_stats \<Rightarrow> error_stats" where
  "stats_step rm p st =
     (let info = obj rm (snd p);
          st1 = st\<lparr>es_by_category := bump (ei_category info) (es_by_category st),
                   es_by_severity := bump (ei_severity info) (es_by_severity st)\<rparr>
      in if ei_recovered info
         then st1\<lparr>es_by_recovery := bump ''recovered'' (es_by_recovery st1)\<rparr>
         else st1\<lparr>es_by_recovery := bump ''active'' (es_by_recovery st1),
                  es_active := Suc (es_active st1)\<rparr>)"

definition recovery_GetErrorStats :: "recovery \<Rightarrow> error_stats" where
  "recovery_GetErrorStats rm =
     fold (stats_step rm) (rc_errors rm)
      \<lparr>es_total = length (rc_errors rm), es_active = 0, es_by_category = [], es_by_severity = [],
       es_by_recovery = []\<rparr>"

subsection \<open>The invariant\<close>

text \<open>
  The table has distinct keys, its counter is its size and does not pass the limit, every entry
  points to an object of its own, and the object's session, category and error give its key.
\<close>

definition entry_ok :: "recovery \<Rightarrow> string \<times> nat \<Rightarrow> bool" where
  "entry_ok rm p \<longleftrightarrow>
     snd p < length (rc_objs rm)
     \<and> fst p = error_id (ei_session (obj rm (snd p))) (ei_category (obj rm (snd p)))
                 (ei_error (obj rm (snd p)))"

definition table_ok :: "recovery \<Rightarrow> bool" where
  "table_ok rm \<longleftrightarrow>
     wf_map (rc_errors rm) \<and> distinct (map snd (rc_errors rm))
     \<and> rc_count rm = int (length (rc_errors rm))
     \<and> (\<forall>p \<in> set (rc_errors rm). entry_ok rm p)"

definition recovery_inv :: "recovery \<Rightarrow> bool" where
  "recovery_inv rm \<longleftrightarrow> table_ok rm \<and> length (rc_errors rm) \<le> rc_limit rm \<and> 0 < rc_limit rm"

lemma error_id_nonempty [simp]: "error_id s c e \<noteq> []"
  by (simp add: error_id_def)

lemma entry_ok_cong:
  assumes "rc_objs rm' = rc_objs rm"
  shows "entry_ok rm' p = entry_ok rm p"
  using assms by (simp add: entry_ok_def obj_def)

lemma ClearRecovered_fields [simp]:
  "rc_objs (snd (ClearRecoveredErrors rm)) = rc_objs rm"
  "rc_limit (snd (ClearRecoveredErrors rm)) = rc_limit rm"
  "rc_pending (snd (ClearRecoveredErrors rm)) = rc_pending rm"
  "rc_errors (snd (ClearRecoveredErrors rm)) =
     filter (\<lambda>(k, r). \<not> ei_recovered (obj rm r)) (rc_errors rm)"
  by (simp_all add: ClearRecoveredErrors_def Let_def)

lemma distinct_map_filter_pairs:
  "distinct (map f xs) \<Longrightarrow> distinct (map f (filter P xs))"
  by (induction xs) auto

lemma ClearRecovered_count:
  "table_ok rm \<Longrightarrow>
   rc_count (snd (ClearRecoveredErrors rm)) = int (length (rc_errors (snd (ClearRecoveredErrors rm))))"
  using length_filter_partition [of "\<lambda>(k, r). ei_recovered (obj rm r)" "rc_errors rm"]
  by (auto simp: ClearRecoveredErrors_def Let_def table_ok_def case_prod_unfold)

lemma table_ok_Clear [inv_intros]: "table_ok rm \<Longrightarrow> table_ok (snd (ClearRecoveredErrors rm))"
  using ClearRecovered_count [of rm]
  by (auto simp: table_ok_def distinct_map_filter_pairs entry_ok_def obj_def)

lemma oldest_None_iff: "oldest rm es acc = None \<longleftrightarrow> es = [] \<and> acc = None"
  by (induction rm es acc rule: oldest.induct) (auto split: option.splits)

lemma oldest_Some:
  "oldest rm es (Some (k0, t0)) = Some (k, t) \<Longrightarrow>
     (t \<le> t0 \<and> (\<forall>(k', r') \<in> set es. t \<le> ei_time (obj rm r')))
     \<and> ((k = k0 \<and> t = t0) \<or> (\<exists>r. (k, r) \<in> set es \<and> t = ei_time (obj rm r)))"
proof (induction es arbitrary: k0 t0)
  case Nil
  then show ?case by simp
next
  case (Cons p es)
  obtain k1 r1 where p: "p = (k1, r1)" by (cases p)
  show ?case
  proof (cases "ei_time (obj rm r1) < t0")
    case True
    with Cons.prems p have "oldest rm es (Some (k1, ei_time (obj rm r1))) = Some (k, t)" by simp
    from Cons.IH [OF this] True p show ?thesis by auto
  next
    case False
    with Cons.prems p have "oldest rm es (Some (k0, t0)) = Some (k, t)" by simp
    from Cons.IH [OF this] False p show ?thesis by auto
  qed
qed

lemma oldest_least:
  assumes "oldest rm es None = Some (k, t)"
  shows "\<exists>r. (k, r) \<in> set es \<and> t = ei_time (obj rm r)
           \<and> (\<forall>(k', r') \<in> set es. ei_time (obj rm r) \<le> ei_time (obj rm r'))"
proof (cases es)
  case Nil
  with assms show ?thesis by simp
next
  case (Cons p ps)
  obtain k1 r1 where p: "p = (k1, r1)" by (cases p)
  with assms Cons have "oldest rm ps (Some (k1, ei_time (obj rm r1))) = Some (k, t)" by simp
  from oldest_Some [OF this] show ?thesis using Cons p by auto
qed

lemma in_set_mdel: "p \<in> set (mdel k m) \<Longrightarrow> p \<in> set m"
  by (auto simp: AList.delete_eq)

lemma distinct_snd_mdel: "distinct (map snd m) \<Longrightarrow> distinct (map snd (mdel k m))"
  by (simp add: AList.delete_eq distinct_map_filter_pairs)

text \<open>What \<open>evict_oldest\<close> does to a full table whose entries are well formed.\<close>

lemma evict_oldest_full:
  assumes ok: "table_ok rm" and full: "length (rc_errors rm) \<ge> rc_limit rm" and "0 < rc_limit rm"
  shows "\<exists>k r. mget (rc_errors rm) k = Some r
           \<and> (\<forall>(k', r') \<in> set (rc_errors rm). ei_time (obj rm r) \<le> ei_time (obj rm r'))
           \<and> evict_oldest rm = rm\<lparr>rc_errors := mdel k (rc_errors rm), rc_count := rc_count rm - 1\<rparr>"
proof -
  from full assms(3) have "rc_errors rm \<noteq> []" by auto
  then obtain k t where old: "oldest rm (rc_errors rm) None = Some (k, t)"
    by (metis oldest_None_iff not_None_eq surj_pair)
  from oldest_least [OF old] obtain r where r: "(k, r) \<in> set (rc_errors rm)"
    "\<forall>(k', r') \<in> set (rc_errors rm). ei_time (obj rm r) \<le> ei_time (obj rm r')" by auto
  from r(1) ok have "mget (rc_errors rm) k = Some r" by (simp add: table_ok_def)
  moreover from r(1) ok have "entry_ok rm (k, r)" by (simp add: table_ok_def)
  then have "k \<noteq> []" by (simp add: entry_ok_def)
  ultimately show ?thesis using r(2) old full by (force simp: evict_oldest_def)
qed

lemma evict_oldest_inv:
  assumes ok: "table_ok rm" and lim: "0 < rc_limit rm" and size: "length (rc_errors rm) \<le> rc_limit rm"
  shows "table_ok (evict_oldest rm) \<and> length (rc_errors (evict_oldest rm)) < rc_limit rm
       \<and> rc_limit (evict_oldest rm) = rc_limit rm"
proof (cases "length (rc_errors rm) \<ge> rc_limit rm")
  case False
  with ok show ?thesis by (simp add: evict_oldest_def)
next
  case True
  from evict_oldest_full [OF ok True lim] obtain k r where kr:
    "mget (rc_errors rm) k = Some r"
    "evict_oldest rm = rm\<lparr>rc_errors := mdel k (rc_errors rm), rc_count := rc_count rm - 1\<rparr>"
    by auto
  from ok have wf: "wf_map (rc_errors rm)" by (simp add: table_ok_def)
  have len: "Suc (length (mdel k (rc_errors rm))) = length (rc_errors rm)"
    by (rule length_mdel_old [OF wf kr(1)])
  have "table_ok (evict_oldest rm)"
    using ok len kr(2)
    by (auto simp: table_ok_def entry_ok_def obj_def distinct_snd_mdel dest: in_set_mdel)
  with len size kr(2) show ?thesis by simp
qed

lemma make_room_inv:
  assumes inv: "recovery_inv rm"
  shows "recovery_inv (make_room rm) \<and> length (rc_errors (make_room rm)) < rc_limit rm
       \<and> rc_limit (make_room rm) = rc_limit rm"
proof (cases "rc_count rm \<ge> int (rc_limit rm)")
  case False
  with inv show ?thesis by (simp add: make_room_def recovery_inv_def table_ok_def)
next
  case True
  let ?c = "snd (ClearRecoveredErrors rm)"
  from inv have ok: "table_ok ?c" by (simp add: recovery_inv_def table_ok_Clear)
  have "length (rc_errors ?c) \<le> length (rc_errors rm)" by (simp add: length_filter_le)
  with inv have "length (rc_errors ?c) \<le> rc_limit ?c" "0 < rc_limit ?c"
    unfolding recovery_inv_def by (simp_all del: ClearRecovered_fields(4))
  with evict_oldest_inv [OF ok] True show ?thesis
    by (auto simp: make_room_def recovery_inv_def)
qed

lemma obj_update [simp]:
  "obj (rm\<lparr>rc_objs := (rc_objs rm)[r := i]\<rparr>) q
     = (if q = r \<and> r < length (rc_objs rm) then i else obj rm q)"
  by (cases "r < length (rc_objs rm)") (auto simp: obj_def nth_list_update list_update_beyond)

lemma table_ok_same_identity:
  assumes "table_ok rm" and "ei_session i = ei_session (obj rm r)"
    and "ei_category i = ei_category (obj rm r)" and "ei_error i = ei_error (obj rm r)"
  shows "table_ok (rm\<lparr>rc_objs := (rc_objs rm)[r := i]\<rparr>)"
  using assms by (auto simp: table_ok_def entry_ok_def)

lemma insert_error_table_ok:
  assumes ok: "table_ok rm"
  shows "table_ok (snd (insert_error session e cat now rm))"
proof (cases "mget (rc_errors rm) (error_id session cat e)")
  case (Some r)
  with ok show ?thesis by (simp add: insert_error_def Let_def table_ok_same_identity)
next
  case None
  let ?k = "error_id session cat e" and ?r = "length (rc_objs rm)"
  have old: "entry_ok (rm\<lparr>rc_objs := rc_objs rm @ [i]\<rparr>) p" if "p \<in> set (rc_errors rm)" for p i
    using ok that by (auto simp: table_ok_def entry_ok_def obj_def nth_append)
  have fresh: "?r \<notin> set (map snd (rc_errors rm))"
    using ok by (auto simp: table_ok_def entry_ok_def)
  have upd: "mput ?k ?r (rc_errors rm) = rc_errors rm @ [(?k, ?r)]"
    using None by (rule mput_new)
  have nokey: "?k \<notin> set (mkeys (rc_errors rm))" using None by (simp add: mget_None_iff)
  show ?thesis
    using ok None upd fresh nokey old
    by (auto simp: insert_error_def Let_def table_ok_def entry_ok_def obj_def nth_append new_info_def)
qed

lemma insert_error_length:
  "length (rc_errors (snd (insert_error session e cat now rm))) \<le> Suc (length (rc_errors rm))
   \<and> rc_limit (snd (insert_error session e cat now rm)) = rc_limit rm"
  by (auto simp: insert_error_def Let_def mput_new split: option.splits)

lemma RegisterError_inv [inv_intros]:
  assumes "recovery_inv rm"
  shows "recovery_inv (snd (RegisterError session err cat now rm))"
proof (cases err)
  case None
  with assms show ?thesis by (simp add: RegisterError_def)
next
  case (Some e)
  from make_room_inv [OF assms] have "recovery_inv (make_room rm)"
    "length (rc_errors (make_room rm)) < rc_limit (make_room rm)" by simp_all
  with insert_error_table_ok [of "make_room rm" session e cat now]
    insert_error_length [of session e cat now "make_room rm"]
  have "recovery_inv (snd (insert_error session e cat now (make_room rm)))"
    unfolding recovery_inv_def by linarith
  with Some show ?thesis by (simp add: RegisterError_def case_prod_unfold)
qed

lemma ClearRecovered_inv [inv_intros]:
  "recovery_inv rm \<Longrightarrow> recovery_inv (snd (ClearRecoveredErrors rm))"
  using table_ok_Clear [of rm]
  by (auto simp: recovery_inv_def intro: order_trans [OF length_filter_le])

lemma MarkErrorRecovered_inv [inv_intros]:
  "recovery_inv rm \<Longrightarrow> recovery_inv (snd (MarkErrorRecovered session cat err rm))"
  by (auto simp: MarkErrorRecovered_def recovery_inv_def table_ok_same_identity split: option.splits)

lemma SetMaxRetries_inv [inv_intros]:
  "recovery_inv rm \<Longrightarrow> recovery_inv (SetMaxRetries cat n rm)"
  by (simp add: SetMaxRetries_def recovery_inv_def table_ok_def entry_ok_def obj_def)

lemma executeRetry_inv [inv_intros]:
  "recovery_inv rm \<Longrightarrow> recovery_inv (snd (executeRetry r rm))"
  by (auto simp: executeRetry_def Let_def recovery_inv_def table_ok_same_identity)

lemma NewRecoveryManager_inv [inv_intros]: "recovery_inv NewRecoveryManager"
  by (simp add: NewRecoveryManager_def recovery_inv_def table_ok_def)

subsection \<open>Runs\<close>

datatype rc_op =
    OpRegister string "goerr option" category int
  | OpMark string category "goerr option"
  | OpClear
  | OpSetMax category int
  | OpRetry nat

fun rc_step :: "recovery \<Rightarrow> rc_op \<Rightarrow> recovery" where
  "rc_step rm (OpRegister s e c now) = snd (RegisterError s e c now rm)"
| "rc_step rm (OpMark s c e) = snd (MarkErrorRecovered s c e rm)"
| "rc_step rm OpClear = snd (ClearRecoveredErrors rm)"
| "rc_step rm (OpSetMax c n) = SetMaxRetries c n rm"
| "rc_step rm (OpRetry r) = snd (executeRetry r rm)"

lemma rc_step_inv: "recovery_inv rm \<Longrightarrow> recovery_inv (rc_step rm op)"
  by (cases op) (simp_all add: inv_intros)

lemma rc_run_inv: "recovery_inv rm \<Longrightarrow> recovery_inv (foldl rc_step rm ops)"
  by (induction ops arbitrary: rm) (simp_all add: rc_step_inv)

lemma rc_step_limit [simp]: "rc_limit (rc_step rm op) = rc_limit rm"
proof (cases op)
  case (OpRegister s e c now)
  have "rc_limit (make_room rm) = rc_limit rm"
    by (simp add: make_room_def evict_oldest_def split: option.splits)
  with OpRegister show ?thesis
    using insert_error_length [of s _ c now "make_room rm"]
    by (auto simp: RegisterError_def case_prod_unfold split: option.splits)
qed (auto simp: MarkErrorRecovered_def SetMaxRetries_def executeRetry_def Let_def split: option.splits)

lemma rc_run_limit: "rc_limit (foldl rc_step rm ops) = rc_limit rm"
  by (induction ops arbitrary: rm) simp_all

subsection \<open>Statistics and back-off\<close>

lemma stats_fold:
  "es_total (fold (stats_step rm) es st) = es_total st
   \<and> es_active (fold (stats_step rm) es st)
       = es_active st + length (filter (\<lambda>p. \<not> ei_recovered (obj rm (snd p))) es)
   \<and> total_count (es_by_category (fold (stats_step rm) es st)) = total_count (es_by_category st) + length es
   \<and> total_count (es_by_severity (fold (stats_step rm) es st)) = total_count (es_by_severity st) + length es
   \<and> total_count (es_by_recovery (fold (stats_step rm) es st)) = total_count (es_by_recovery st) + length es
   \<and> count_of (es_by_recovery (fold (stats_step rm) es st)) ''active''
       = count_of (es_by_recovery st) ''active''
         + length (filter (\<lambda>p. \<not> ei_recovered (obj rm (snd p))) es)"
proof (induction es arbitrary: st)
  case Nil
  then show ?case by simp
next
  case (Cons p es)
  show ?case using Cons [of "stats_step rm p st"]
    by (simp add: stats_step_def Let_def count_of_bump)
qed

lemma retry_backoff_small:
  assumes "0 \<le> n" and "n \<le> 36"
  shows "retry_backoff n = min (2 ^ nat n * 100 * ms) (10 * second)"
proof -
  have n: "nat (n mod 2 ^ 64) = nat n" using assms by simp
  have le: "(2::int) ^ nat n \<le> 2 ^ 36" using assms by (intro power_increasing) auto
  obtain x :: int where x: "2 ^ nat n = x" "0 < x" by simp
  with le have "x \<le> 68719476736" by simp
  with x(2) have "fits_i64 x" "fits_i64 (x * 100)" "fits_i64 (x * 100 * ms)"
    unfolding fits_i64_def ms_def by simp_all
  with x(1) have "fits_i64 (2 ^ nat n)" "fits_i64 (2 ^ nat n * 100)"
    "fits_i64 (2 ^ nat n * 100 * ms)" by simp_all
  moreover have "nat n < 64" using assms by simp
  ultimately show ?thesis using n by (simp add: retry_backoff_def Let_def)
qed

lemma retry_backoff_large:
  assumes "56 \<le> n" and "n < 2 ^ 63"
  shows "retry_backoff n = 0"
proof -
  have n: "nat (n mod 2 ^ 64) = nat n" using assms by simp
  show ?thesis
  proof (cases "nat n < 64")
    case False
    with n show ?thesis by (simp add: retry_backoff_def Let_def i64_def second_def)
  next
    case True
    define j where "j = nat n - 56"
    have "nat n = 56 + j" using assms by (simp add: j_def)
    then have "(2::int) ^ nat n * 100 * ms = 2 ^ 64 * (2 ^ j * 390625)"
      by (simp add: power_add ms_def)
    then have "i64 (2 ^ nat n * 100 * ms) = i64 0"
      by (intro i64_cong) (metis mod_mult_self1_is_0 mod_0)
    moreover have "i64 (i64 (i64 (2 ^ nat n) * 100) * ms) = i64 (2 ^ nat n * 100 * ms)"
      by (simp add: i64_mult_left)
    ultimately show ?thesis
      using n True by (simp add: retry_backoff_def Let_def second_def fits_i64_def)
  qed
qed

subsection \<open>Properties\<close>

text \<open>
  C8. After any sequence of operations on a new recovery manager, its table holds at most 100
  errors, its counter is the size of the table, its keys are distinct, no two keys share an
  object, and every key is the one its object's session, category and error give.
\<close>

theorem recovery_table_bounded:
  "length (rc_errors (foldl rc_step NewRecoveryManager ops)) \<le> 100
   \<and> rc_count (foldl rc_step NewRecoveryManager ops)
       = int (length (rc_errors (foldl rc_step NewRecoveryManager ops)))
   \<and> table_ok (foldl rc_step NewRecoveryManager ops)"
proof -
  have "recovery_inv (foldl rc_step NewRecoveryManager ops)"
    by (rule rc_run_inv [OF NewRecoveryManager_inv])
  moreover have "rc_limit (foldl rc_step NewRecoveryManager ops) = 100"
    by (simp add: rc_run_limit NewRecoveryManager_def)
  ultimately show ?thesis by (simp add: recovery_inv_def table_ok_def)
qed

text \<open>A table with room for one error that holds one.\<close>

definition one_error :: recovery where
  "one_error =
     NewRecoveryManager
       \<lparr>rc_limit := 1, rc_count := 1, rc_objs := [new_info ''s'' (NewErr ''x'') CategoryPublish 5],
        rc_errors := [(error_id ''s'' CategoryPublish (NewErr ''x''), 0)]\<rparr>"

text \<open>
  When the table is full and nothing in it is marked recovered, registering an error whose key
  is new replaces the entry with the least registration time: that key goes, every other key
  keeps its object, the new key maps to the returned object, and the table stays full.
\<close>

theorem RegisterError_evicts_oldest:
  assumes inv: "recovery_inv rm" and full: "length (rc_errors rm) = rc_limit rm"
    and none: "\<forall>p \<in> set (rc_errors rm). \<not> ei_recovered (obj rm (snd p))"
    and new: "mget (rc_errors rm) (error_id session cat err) = None"
  shows "\<exists>k r r' rm'. RegisterError session (Some err) cat now rm = (Some r', rm')
           \<and> mget (rc_errors rm) k = Some r
           \<and> (\<forall>p \<in> set (rc_errors rm). ei_time (obj rm r) \<le> ei_time (obj rm (snd p)))
           \<and> mget (rc_errors rm') = ((mget (rc_errors rm))(k := None))(error_id session cat err \<mapsto> r')
           \<and> obj rm' r' = new_info session err cat now
           \<and> length (rc_errors rm') = rc_limit rm"
proof -
  have keep: "filter (\<lambda>(k, r). \<not> ei_recovered (obj rm r)) (rc_errors rm) = rc_errors rm"
    using none by (auto simp: case_prod_unfold intro: filter_True)
  have none_gone: "filter (\<lambda>(k, r). ei_recovered (obj rm r)) (rc_errors rm) = []"
    using none by (auto simp: case_prod_unfold filter_empty_conv)
  have clear: "snd (ClearRecoveredErrors rm) = rm"
    using keep none_gone by (simp add: ClearRecoveredErrors_def)
  from inv have ok: "table_ok rm" and lim: "0 < rc_limit rm" by (simp_all add: recovery_inv_def)
  from evict_oldest_full [OF ok _ lim] full obtain k r where kr:
    "mget (rc_errors rm) k = Some r"
    "\<forall>(k', r') \<in> set (rc_errors rm). ei_time (obj rm r) \<le> ei_time (obj rm r')"
    "evict_oldest rm = rm\<lparr>rc_errors := mdel k (rc_errors rm), rc_count := rc_count rm - 1\<rparr>"
    by auto
  have room: "make_room rm = rm\<lparr>rc_errors := mdel k (rc_errors rm), rc_count := rc_count rm - 1\<rparr>"
    using ok full clear kr(3) by (simp add: make_room_def table_ok_def)
  have absent: "mget (mdel k (rc_errors rm)) (error_id session cat err) = None"
    using new by simp
  from ok have "wf_map (rc_errors rm)" by (simp add: table_ok_def)
  with kr(1) have len: "Suc (length (mdel k (rc_errors rm))) = length (rc_errors rm)"
    by (intro length_mdel_old)
  let ?r' = "length (rc_objs rm)" and ?rm' = "snd (RegisterError session (Some err) cat now rm)"
  have reg: "RegisterError session (Some err) cat now rm = (Some ?r', ?rm')"
    "mget (rc_errors ?rm') = ((mget (rc_errors rm))(k := None))(error_id session cat err \<mapsto> ?r')"
    "obj ?rm' ?r' = new_info session err cat now" "length (rc_errors ?rm') = rc_limit rm"
    using room absent len full
    by (simp_all add: RegisterError_def insert_error_def Let_def obj_def fun_eq_iff)
  have least: "\<forall>p \<in> set (rc_errors rm). ei_time (obj rm r) \<le> ei_time (obj rm (snd p))"
    using kr(2) by (simp add: case_prod_unfold)
  from reg kr(1) least show ?thesis by blast
qed

theorem RegisterError_evicts_oldest_witness:
  "\<exists>k r r' rm'. RegisterError ''c'' (Some (NewErr ''y'')) CategoryPublish 7 one_error = (Some r', rm')
     \<and> mget (rc_errors one_error) k = Some r \<and> length (rc_errors rm') = 1"
proof -
  have "recovery_inv one_error"
    by (simp add: one_error_def recovery_inv_def table_ok_def entry_ok_def obj_def new_info_def Let_def
        NewRecoveryManager_def)
  moreover have "length (rc_errors one_error) = rc_limit one_error" "rc_limit one_error = 1"
    "\<forall>p \<in> set (rc_errors one_error). \<not> ei_recovered (obj one_error (snd p))"
    "mget (rc_errors one_error) (error_id ''c'' CategoryPublish (NewErr ''y'')) = None"
    by (simp_all add: one_error_def obj_def new_info_def Let_def error_id_def)
  ultimately show ?thesis
    using RegisterError_evicts_oldest [of one_error "''c''" CategoryPublish "NewErr ''y''" 7]
    by metis
qed

text \<open>
  Registering an error whose key is already in a table that is not full only raises that entry's
  retry count: the same object is returned, the table and its counter stay as they are, and no
  further recovery is started.
\<close>

theorem RegisterError_same_key:
  assumes "rc_count rm < int (rc_limit rm)"
    and "mget (rc_errors rm) (error_id session cat err) = Some r" and "r < length (rc_objs rm)"
  shows "\<exists>rm'. RegisterError session (Some err) cat now rm = (Some r, rm')
           \<and> rc_errors rm' = rc_errors rm \<and> rc_count rm' = rc_count rm
           \<and> rc_pending rm' = rc_pending rm
           \<and> obj rm' r = (obj rm r)\<lparr>ei_retry := ei_retry (obj rm r) + 1\<rparr>
           \<and> (\<forall>q. q \<noteq> r \<longrightarrow> obj rm' q = obj rm q)"
  using assms by (simp add: RegisterError_def make_room_def insert_error_def Let_def)

theorem RegisterError_same_key_witness:
  "\<exists>rm'. RegisterError ''s'' (Some (NewErr ''x'')) CategoryPublish 9 (one_error\<lparr>rc_limit := 2\<rparr>)
       = (Some 0, rm') \<and> ei_retry (obj rm' 0) = 1"
  using RegisterError_same_key
    [of "one_error\<lparr>rc_limit := 2\<rparr>" "''s''" CategoryPublish "NewErr ''x''" 0 9]
  by (auto simp: one_error_def obj_def new_info_def Let_def)

text \<open>
  The counts of \<open>GetErrorStats\<close> are consistent: the totals by category, by severity and
  by recovery state each add up to the size of the table, and the active count is the number of
  errors \<open>GetActiveErrors\<close> returns, which is what the table says under ``active''.
\<close>

theorem recovery_stats_consistent:
  "es_total (recovery_GetErrorStats rm) = length (rc_errors rm)
   \<and> es_active (recovery_GetErrorStats rm) = length (GetActiveErrors rm)
   \<and> count_of (es_by_recovery (recovery_GetErrorStats rm)) ''active'' = length (GetActiveErrors rm)
   \<and> total_count (es_by_category (recovery_GetErrorStats rm)) = length (rc_errors rm)
   \<and> total_count (es_by_severity (recovery_GetErrorStats rm)) = length (rc_errors rm)
   \<and> total_count (es_by_recovery (recovery_GetErrorStats rm)) = length (rc_errors rm)"
proof -
  have act: "length (GetActiveErrors rm)
      = length (filter (\<lambda>p. \<not> ei_recovered (obj rm (snd p))) (rc_errors rm))"
    by (simp add: GetActiveErrors_def filter_map comp_def)
  show ?thesis unfolding recovery_GetErrorStats_def
    using stats_fold [of rm "rc_errors rm"] act
    by (simp add: total_count_def count_of_def)
qed

text \<open>
  C40. The back-off of \<open>executeRetry\<close> doubles from 100 ms up to the cap of ten seconds for
  every retry count up to 36; from a retry count of 56 on, the 64-bit product wraps to zero and
  the code sleeps not at all instead of ten seconds.
\<close>

theorem retry_backoff_cap_and_wrap:
  "(\<forall>n. 0 \<le> n \<and> n \<le> 36 \<longrightarrow> retry_backoff n = min (2 ^ nat n * 100 * ms) (10 * second))
   \<and> (\<forall>n. 56 \<le> n \<and> n < 2 ^ 63 \<longrightarrow> retry_backoff n = 0)"
  using retry_backoff_small retry_backoff_large by blast

theorem retry_backoff_cap_and_wrap_witness:
  "retry_backoff 3 = 800 * ms \<and> retry_backoff 60 = 0"
  using retry_backoff_cap_and_wrap by (simp add: ms_def second_def)

text \<open>
  C34. An error that comes back after it was marked as recovered stays marked: registering it again, with
  room in the table, finds the old entry and only counts, so that the error is not among the active ones,
  no recovery is started, and the next clearing drops it.
\<close>

theorem recurring_error_stays_recovered:
  assumes "table_ok rm" and "mget (rc_errors rm) (error_id s c e) = Some r" and "rc_count rm < int (rc_limit rm)"
    and "rm1 = snd (MarkErrorRecovered s c (Some e) rm)" and "RegisterError s (Some e) c now rm1 = (res, rm2)"
  shows "res = Some r \<and> r \<notin> set (GetActiveErrors rm2) \<and> rc_pending rm2 = rc_pending rm
    \<and> ei_retry (obj rm2 r) = ei_retry (obj rm r) + 1
    \<and> mget (rc_errors (snd (ClearRecoveredErrors rm2))) (error_id s c e) = None"
proof -
  let ?o = "(obj rm r)\<lparr>ei_recovered := True\<rparr>"
  have r: "r < length (rc_objs rm)" and d: "distinct (map snd (rc_errors rm))" and wf: "wf_map (rc_errors rm)"
    using assms(1) map_of_SomeD [OF assms(2)] by (auto simp: table_ok_def entry_ok_def)
  have rm1: "rm1 = rm\<lparr>rc_objs := (rc_objs rm)[r := ?o]\<rparr>"
    using assms(2,4) by (simp add: MarkErrorRecovered_def)
  have "RegisterError s (Some e) c now rm1
      = (Some r, rm1\<lparr>rc_objs := (rc_objs rm1)[r := (obj rm1 r)\<lparr>ei_retry := ei_retry (obj rm1 r) + 1\<rparr>]\<rparr>)"
    using assms(2,3) rm1 by (simp add: RegisterError_def make_room_def insert_error_def)
  with assms(5) have res: "res = Some r"
    and rm2: "rm2 = rm1\<lparr>rc_objs := (rc_objs rm1)[r := (obj rm1 r)\<lparr>ei_retry := ei_retry (obj rm1 r) + 1\<rparr>]\<rparr>"
    by simp_all
  have o2: "obj rm2 r = ?o\<lparr>ei_retry := ei_retry (obj rm r) + 1\<rparr>" using r by (simp add: rm2 rm1 obj_def)
  have "r \<notin> set (GetActiveErrors rm2)" using o2 by (simp add: GetActiveErrors_def)
  moreover have "mget (filter (\<lambda>(k, r). \<not> ei_recovered (obj rm2 r)) (rc_errors rm)) (error_id s c e) = None"
  proof -
    have "b = r" if "(error_id s c e, b) \<in> set (rc_errors rm)" for b
      using map_of_is_SomeI [OF _ that] wf assms(2) by simp
    with o2 show ?thesis by (auto simp: map_of_eq_None_iff)
  qed
  ultimately show ?thesis using res o2 by (simp add: rm2 rm1)
qed

theorem recurring_error_stays_recovered_witness:
  "GetActiveErrors (snd (RegisterError ''s'' (Some (NewErr ''down'')) CategoryConnection 2
     (snd (MarkErrorRecovered ''s'' CategoryConnection (Some (NewErr ''down''))
       (snd (RegisterError ''s'' (Some (NewErr ''down'')) CategoryConnection 1 NewRecoveryManager)))))) = []"
proof -
  let ?e = "NewErr ''down''"
  define rm where "rm = snd (RegisterError ''s'' (Some ?e) CategoryConnection 1 NewRecoveryManager)"
  define rm1 where "rm1 = snd (MarkErrorRecovered ''s'' CategoryConnection (Some ?e) rm)"
  obtain res rm2 where r2: "RegisterError ''s'' (Some ?e) CategoryConnection 2 rm1 = (res, rm2)" by (rule prod.exhaust)
  have errs: "rc_errors rm = [(error_id ''s'' CategoryConnection ?e, 0)]" "rc_count rm = 1" "rc_limit rm = 100"
    and objs: "rc_objs rm = [new_info ''s'' ?e CategoryConnection 1]"
    by (simp_all add: rm_def RegisterError_def make_room_def insert_error_def NewRecoveryManager_def Let_def)
  have "table_ok rm"
    using errs objs by (simp add: table_ok_def entry_ok_def obj_def new_info_def Let_def)
  from recurring_error_stays_recovered [OF this, of "''s''" CategoryConnection ?e 0 rm1 2 res rm2] errs r2
  have "0 \<notin> set (GetActiveErrors rm2)" by (simp add: rm1_def)
  moreover have "rc_errors rm2 = rc_errors rm"
    using r2 errs by (auto simp: rm1_def MarkErrorRecovered_def RegisterError_def make_room_def insert_error_def Let_def
        split: option.splits)
  ultimately have "GetActiveErrors rm2 = []" by (auto simp: GetActiveErrors_def errs split: if_splits)
  with r2 show ?thesis by (simp add: rm_def rm1_def)
qed

end
