(* ===== verification/Unicode.thy ===== *)
theory Unicode
  imports Prelude
begin

text \<open>
  UTF-8 as the Go library reads it (\<open>unicode/utf8\<close>): a byte string is cut into runes, a byte that
  starts no valid sequence standing for the replacement character. \<open>encoding/json\<close> writes a string
  rune by rune, so this decides which strings survive being stored.
\<close>

subsection \<open>Runes\<close>

definition tail_byte :: "char \<Rightarrow> bool" where
  "tail_byte c \<longleftrightarrow> 128 \<le> byte_at c \<and> byte_at c \<le> 191"

text \<open>The bytes allowed in second place: no overlong form, no surrogate, nothing beyond U+10FFFF.\<close>

definition second_ok :: "char \<Rightarrow> char \<Rightarrow> bool" where
  "second_ok a b \<longleftrightarrow>
     (if byte_at a = 224 then 160 else if byte_at a = 240 then 144 else 128) \<le> byte_at b
     \<and> byte_at b \<le> (if byte_at a = 237 then 159 else if byte_at a = 244 then 143 else 191)"

text \<open>\<open>utf8.DecodeRune\<close>: the length of the valid sequence a string starts with, 0 for none.\<close>

fun rune_len :: "string \<Rightarrow> nat" where
  "rune_len [] = 0"
| "rune_len (a # s) =
     (if byte_at a < 128 then 1
      else if 194 \<le> byte_at a \<and> byte_at a \<le> 223 then
        (case s of b # _ \<Rightarrow> if tail_byte b then 2 else 0 | _ \<Rightarrow> 0)
      else if 224 \<le> byte_at a \<and> byte_at a \<le> 239 then
        (case s of b # c # _ \<Rightarrow> if second_ok a b \<and> tail_byte c then 3 else 0 | _ \<Rightarrow> 0)
      else if 240 \<le> byte_at a \<and> byte_at a \<le> 244 then
        (case s of b # c # d # _ \<Rightarrow> if second_ok a b \<and> tail_byte c \<and> tail_byte d then 4 else 0 | _ \<Rightarrow> 0)
      else 0)"

definition is_rune :: "string \<Rightarrow> bool" where
  "is_rune r \<longleftrightarrow> r \<noteq> [] \<and> rune_len r = length r"

lemma rune_len_le: "rune_len s \<le> length s"
  by (cases s) (auto split: list.split)

lemma rune_len_append: "is_rune r \<Longrightarrow> rune_len (r @ t) = length r"
  by (cases r) (auto simp: is_rune_def split: list.splits if_splits)

lemma rune_len_take:
  assumes "rune_len s \<noteq> 0"
  shows "is_rune (take (rune_len s) s)"
  using assms by (cases s) (auto simp: is_rune_def split: list.splits if_splits)

lemma is_rune_single: "is_rune [c] \<longleftrightarrow> byte_at c < 128"
  by (simp add: is_rune_def)

declare rune_len.simps(2) [simp del]

lemma is_rune_ascii_head: "is_rune (c # r) \<Longrightarrow> byte_at c < 128 \<Longrightarrow> r = []"
  by (simp add: is_rune_def rune_len.simps(2))

text \<open>The runes of a string: \<^const>\<open>None\<close> is a byte that belongs to none.\<close>

function runes :: "string \<Rightarrow> string option list" where
  "runes [] = []"
| "runes (c # s) =
     (if rune_len (c # s) = 0 then None # runes s
      else Some (take (rune_len (c # s)) (c # s)) # runes (drop (rune_len (c # s)) (c # s)))"
  by pat_completeness auto
termination by (relation "measure length") auto

declare runes.simps(2) [simp del]

text \<open>U+FFFD.\<close>

definition rune_error :: string where
  "rune_error = utf8 [239, 191, 189]"

definition rune_value :: "string option \<Rightarrow> string" where
  "rune_value r = (case r of None \<Rightarrow> rune_error | Some x \<Rightarrow> x)"

text \<open>\<open>strings.ToValidUTF8(s, U+FFFD)\<close>, byte by byte.\<close>

definition coerce :: "string \<Rightarrow> string" where
  "coerce s = concat (map rune_value (runes s))"

definition valid_utf8 :: "string \<Rightarrow> bool" where
  "valid_utf8 s \<longleftrightarrow> None \<notin> set (runes s)"

subsection \<open>Lemmas\<close>

lemma runes_append:
  assumes "is_rune r"
  shows "runes (r @ t) = Some r # runes t"
proof -
  from assms obtain c q where r: "r = c # q" by (cases r) (auto simp: is_rune_def)
  from rune_len_append [OF assms, of t] r have "rune_len (c # q @ t) = length r" by simp
  with r show ?thesis using runes.simps(2) [of c "q @ t"] by simp
qed

lemma runes_concat: "list_all is_rune rs \<Longrightarrow> runes (concat rs) = map Some rs"
  by (induction rs) (simp_all add: runes_append)

definition rune_ok :: "string option \<Rightarrow> bool" where
  "rune_ok r \<longleftrightarrow> (case r of None \<Rightarrow> True | Some x \<Rightarrow> is_rune x)"

lemma runes_ok: "list_all rune_ok (runes s)"
  by (induction s rule: runes.induct) (simp_all add: runes.simps(2) rune_ok_def rune_len_take)

lemma is_rune_error: "is_rune rune_error"
  by (simp add: is_rune_def rune_error_def utf8_def second_ok_def tail_byte_def rune_len.simps(2))

lemma rune_value_ok: "rune_ok r \<Longrightarrow> is_rune (rune_value r)"
  by (cases r) (simp_all add: rune_ok_def rune_value_def is_rune_error)

lemma runes_coerce: "runes (coerce s) = map (Some \<circ> rune_value) (runes s)"
proof -
  have "list_all is_rune (map rune_value (runes s))"
    using runes_ok [of s] by (auto simp: list_all_iff rune_value_ok)
  then show ?thesis unfolding coerce_def by (simp add: runes_concat)
qed

lemma valid_coerce [simp]: "valid_utf8 (coerce s)"
  by (auto simp: valid_utf8_def runes_coerce)

lemma coerce_valid: "valid_utf8 s \<Longrightarrow> coerce s = s"
proof (induction s rule: runes.induct)
  case 1
  then show ?case by (simp add: coerce_def)
next
  case (2 c s)
  then have n: "rune_len (c # s) \<noteq> 0"
    by (cases "rune_len (c # s) = 0") (simp_all add: valid_utf8_def runes.simps(2))
  with 2 have "coerce (drop (rune_len (c # s)) (c # s)) = drop (rune_len (c # s)) (c # s)"
    by (simp add: valid_utf8_def runes.simps(2))
  with n show ?case by (simp add: coerce_def runes.simps(2) rune_value_def)
qed

lemma valid_iff_coerce: "valid_utf8 s \<longleftrightarrow> coerce s = s"
  using coerce_valid valid_coerce by metis

lemma coerce_idem [simp]: "coerce (coerce s) = coerce s"
  by (simp add: coerce_valid)

lemma valid_append_rune: "is_rune r \<Longrightarrow> valid_utf8 (r @ s) \<longleftrightarrow> valid_utf8 s"
  by (simp add: valid_utf8_def runes_append)

lemma valid_Nil [simp]: "valid_utf8 []"
  by (simp add: valid_utf8_def)

lemma valid_Cons_ascii [simp]: "byte_at c < 128 \<Longrightarrow> valid_utf8 (c # s) \<longleftrightarrow> valid_utf8 s"
  using valid_append_rune [of "[c]" s] by (simp add: is_rune_single)

lemma valid_ascii: "list_all (\<lambda>c. byte_at c < 128) s \<Longrightarrow> valid_utf8 s"
  by (induction s) simp_all

text \<open>A byte of its own in the middle of a sequence: two strings that are coerced to one.\<close>

lemma coerce_collides: "coerce [char_of (255 :: nat)] = coerce [char_of (254 :: nat)]"
  by (simp add: coerce_def runes.simps(2) rune_len.simps(2) rune_value_def)

end
