(* ===== verification/JsonText.thy ===== *)
theory JsonText
  imports Unicode
begin

text \<open>
  JSON values and their text, as \<open>encoding/json\<close> writes and reads it: quoting of strings, numbers,
  tokens, and a stack machine over the tokens, which is how the library's scanner keeps the objects
  and arrays that are open. The main fact is \<open>parse_print\<close>: reading what was written gives the
  value back, with the bytes of its strings that are not UTF-8 replaced.
\<close>

text \<open>
  A number is an integer or any other literal, which is kept by its text (\<open>JFrac\<close>). An object is
  the list of its entries.
\<close>

datatype json =
    JNull
  | JBool bool
  | JNum int
  | JFrac string
  | JStr string
  | JArr "json list"
  | JObj "(string \<times> json) list"

subsection \<open>Quoted strings\<close>

definition quote_char :: char where "quote_char = CHR 0x22"
definition backslash :: char where "backslash = CHR 0x5C"

lemmas special_chars = quote_char_def backslash_def

definition hex_digit :: "nat \<Rightarrow> char" where
  "hex_digit n = ''0123456789abcdef'' ! n"

definition hex_value :: "char \<Rightarrow> nat option" where
  "hex_value c =
     (let b = byte_at c
      in if 48 \<le> b \<and> b \<le> 57 then Some (b - 48)
         else if 97 \<le> b \<and> b \<le> 102 then Some (b - 87)
         else if 65 \<le> b \<and> b \<le> 70 then Some (b - 55)
         else None)"

text \<open>
  One rune of \<open>appendString\<close>, with the escapes that make the text safe in HTML; a byte that is
  not UTF-8 is written as the escape of U+FFFD.
\<close>

definition quote_byte :: "char \<Rightarrow> string" where
  "quote_byte c =
     (let b = byte_at c
      in if c = quote_char \<or> c = backslash then [backslash, c]
         else if b = 8 then backslash # ''b''
         else if b = 12 then backslash # ''f''
         else if b = 10 then backslash # ''n''
         else if b = 13 then backslash # ''r''
         else if b = 9 then backslash # ''t''
         else if b < 32 \<or> b = 38 \<or> b = 60 \<or> b = 62
         then backslash # ''u00'' @ [hex_digit (b div 16), hex_digit (b mod 16)]
         else [c])"

definition quote_rune :: "string option \<Rightarrow> string" where
  "quote_rune r =
     (case r of
        None \<Rightarrow> backslash # ''ufffd''
      | Some x \<Rightarrow>
          (case x of
             [c] \<Rightarrow> quote_byte c
           | _ \<Rightarrow>
               if x = utf8 [226, 128, 168] then backslash # ''u2028''
               else if x = utf8 [226, 128, 169] then backslash # ''u2029''
               else x))"

definition quote_body :: "string \<Rightarrow> string" where
  "quote_body s = concat (map quote_rune (runes s))"

definition quote :: "string \<Rightarrow> string" where
  "quote s = quote_char # quote_body s @ [quote_char]"

text \<open>\<open>utf8.EncodeRune\<close>: a surrogate is written as U+FFFD.\<close>

definition encode_rune :: "nat \<Rightarrow> string" where
  "encode_rune n =
     (if n < 128 then utf8 [n]
      else if n < 2048 then utf8 [192 + n div 64, 128 + n mod 64]
      else if 55296 \<le> n \<and> n < 57344 then rune_error
      else if n < 65536 then utf8 [224 + n div 4096, 128 + n div 64 mod 64, 128 + n mod 64]
      else utf8 [240 + n div 262144, 128 + n div 4096 mod 64, 128 + n div 64 mod 64, 128 + n mod 64])"

definition hex4 :: "string \<Rightarrow> (nat \<times> string) option" where
  "hex4 s =
     (case s of
        a # b # c # d # t \<Rightarrow>
          (case (hex_value a, hex_value b, hex_value c, hex_value d) of
             (Some w, Some x, Some y, Some z) \<Rightarrow> Some (4096 * w + 256 * x + 16 * y + z, t)
           | _ \<Rightarrow> None)
      | _ \<Rightarrow> None)"

text \<open>
  An escape after its backslash: the bytes it stands for and the rest. Two escapes that are the
  surrogates of one rune are read together; any other surrogate is U+FFFD.
\<close>

definition unescape_u :: "string \<Rightarrow> (string \<times> string) option" where
  "unescape_u s =
     (case hex4 s of None \<Rightarrow> None
      | Some (n, t) \<Rightarrow>
          if 55296 \<le> n \<and> n < 56320 \<and> take 2 t = [backslash, CHR ''u''] then
            (case hex4 (drop 2 t) of None \<Rightarrow> None
             | Some (m, t') \<Rightarrow>
                 if 56320 \<le> m \<and> m < 57344
                 then Some (encode_rune (65536 + 1024 * (n - 55296) + (m - 56320)), t')
                 else Some (rune_error, t))
          else Some (encode_rune n, t))"

definition unescape :: "string \<Rightarrow> (string \<times> string) option" where
  "unescape s =
     (case s of [] \<Rightarrow> None
      | c # t \<Rightarrow>
          if c = quote_char \<or> c = backslash \<or> c = CHR ''/'' then Some ([c], t)
          else if c = CHR ''b'' then Some (utf8 [8], t)
          else if c = CHR ''f'' then Some (utf8 [12], t)
          else if c = CHR ''n'' then Some (utf8 [10], t)
          else if c = CHR ''r'' then Some (utf8 [13], t)
          else if c = CHR ''t'' then Some (utf8 [9], t)
          else if c = CHR ''u'' then unescape_u t
          else None)"

lemma hex4_shorter: "hex4 s = Some (n, t) \<Longrightarrow> length t < length s"
  by (auto simp: hex4_def split: list.splits option.splits prod.splits)

lemma unescape_shorter: "unescape s = Some (r, t) \<Longrightarrow> length t < length s"
  by (cases s)
    (auto simp: unescape_def unescape_u_def split: if_splits option.splits prod.splits
      dest!: hex4_shorter)

definition prepend :: "string \<Rightarrow> (string \<times> string) option \<Rightarrow> (string \<times> string) option" where
  "prepend r x = map_option (\<lambda>(s, t). (r @ s, t)) x"

text \<open>
  A string after its opening quote: its value and what follows the closing quote. Control
  characters are not allowed.
\<close>

function unquote :: "string \<Rightarrow> (string \<times> string) option" where
  "unquote [] = None"
| "unquote (c # s) =
     (if c = quote_char then Some ([], s)
      else if c = backslash then
        (case unescape s of None \<Rightarrow> None | Some (r, t) \<Rightarrow> prepend r (unquote t))
      else if byte_at c < 32 then None
      else if rune_len (c # s) = 0 then prepend rune_error (unquote s)
      else prepend (take (rune_len (c # s)) (c # s)) (unquote (drop (rune_len (c # s)) (c # s))))"
  by pat_completeness auto
termination
  by (relation "measure length") (auto dest: unescape_shorter)

declare unquote.simps(2) [simp del]

lemma unquote_shorter: "unquote s = Some (x, t) \<Longrightarrow> length t < length s"
proof (induction s arbitrary: x rule: unquote.induct)
  case 1
  then show ?case by simp
next
  case (2 c s)
  show ?case
  proof (cases "c = quote_char \<or> (c \<noteq> backslash \<and> byte_at c < 32)")
    case True
    with 2 show ?thesis by (auto simp: unquote.simps(2) split: if_splits)
  next
    case False
    then have nq: "c \<noteq> quote_char" by simp
    show ?thesis
    proof (cases "c = backslash")
      case True
      with 2(4) nq obtain r u y where u: "unescape s = Some (r, u)" "unquote u = Some (y, t)"
        by (auto simp: unquote.simps(2) prepend_def split: option.splits)
      from 2(1) [OF nq True u(1) refl u(2)] unescape_shorter [OF u(1)] show ?thesis by simp
    next
      case bs: False
      with False have ctl: "\<not> byte_at c < 32" by simp
      show ?thesis
      proof (cases "rune_len (c # s) = 0")
        case True
        with 2(4) nq bs ctl obtain y where "unquote s = Some (y, t)"
          by (auto simp: unquote.simps(2) prepend_def)
        with 2(2) [OF nq bs ctl True] show ?thesis by fastforce
      next
        case n0: False
        with 2(4) nq bs ctl obtain y where "unquote (drop (rune_len (c # s)) (c # s)) = Some (y, t)"
          by (auto simp: unquote.simps(2) prepend_def)
        from 2(3) [OF nq bs ctl n0 this] show ?thesis by simp
      qed
    qed
  qed
qed

lemmas escape_defs = unescape_def unescape_u_def hex4_def hex_value_def encode_rune_def Let_def

lemma unquote_escape:
  "unescape (q @ u) = Some (r, u) \<Longrightarrow> unquote (backslash # q @ u) = prepend r (unquote u)"
  by (simp add: unquote.simps(2) special_chars)

lemma hex_value_digit:
  assumes "n < 16"
  shows "hex_value (hex_digit n) = Some n"
proof -
  have "list_all (\<lambda>n. hex_value (hex_digit n) = Some n) [0..<16]" by code_simp
  with assms show ?thesis by (simp add: list_all_iff)
qed

lemma hex_value_zero: "hex_value (CHR ''0'') = Some 0"
  by (simp add: hex_value_def)

lemma unescape_hex:
  assumes "byte_at c < 128"
  shows "unescape ((''u00'' @ [hex_digit (byte_at c div 16), hex_digit (byte_at c mod 16)]) @ u) = Some ([c], u)"
proof -
  from assms have "byte_at c div 16 < 16" by simp
  moreover have "16 * (byte_at c div 16) + byte_at c mod 16 = byte_at c" by simp
  ultimately show ?thesis
    using assms
    by (simp add: unescape_def unescape_u_def hex4_def hex_value_digit hex_value_zero encode_rune_def
        utf8_def special_chars)
qed

lemma char_by_byte: "byte_at c = n \<Longrightarrow> c = char_of n"
  by (metis char_of_char)

lemma char_codes:
  "char_of (8 :: nat) = CHR 0x08" "char_of (9 :: nat) = CHR 0x09" "char_of (10 :: nat) = CHR 0x0A"
  "char_of (12 :: nat) = CHR 0x0C" "char_of (13 :: nat) = CHR 0x0D"
  by code_simp+

lemma control_chars:
  "byte_at c = 8 \<Longrightarrow> c = CHR 0x08" "byte_at c = 9 \<Longrightarrow> c = CHR 0x09"
  "byte_at c = 10 \<Longrightarrow> c = CHR 0x0A" "byte_at c = 12 \<Longrightarrow> c = CHR 0x0C"
  "byte_at c = 13 \<Longrightarrow> c = CHR 0x0D"
  by (drule char_by_byte, simp add: char_codes)+

lemma unquote_quote_byte:
  assumes "byte_at c < 128"
  shows "unquote (quote_byte c @ u) = prepend [c] (unquote u)"
proof (cases "c = quote_char \<or> c = backslash \<or> byte_at c = 8 \<or> byte_at c = 12 \<or> byte_at c = 10
    \<or> byte_at c = 13 \<or> byte_at c = 9")
  case True
  then consider "c = CHR 0x22" | "c = CHR 0x5C" | "c = CHR 0x08" | "c = CHR 0x0C" | "c = CHR 0x0A"
    | "c = CHR 0x0D" | "c = CHR 0x09"
    using control_chars [of c] unfolding special_chars by argo
  then have "\<exists>q. quote_byte c = backslash # q \<and> unescape (q @ u) = Some ([c], u)"
    by cases (simp_all add: quote_byte_def special_chars unescape_def utf8_def char_codes)
  then obtain q where "quote_byte c = backslash # q" "unescape (q @ u) = Some ([c], u)" by blast
  then show ?thesis using unquote_escape [of q u] by simp
next
  case False
  show ?thesis
  proof (cases "byte_at c < 32 \<or> byte_at c = 38 \<or> byte_at c = 60 \<or> byte_at c = 62")
    case True
    with False have "quote_byte c = backslash # ''u00'' @ [hex_digit (byte_at c div 16), hex_digit (byte_at c mod 16)]"
      by (simp add: quote_byte_def Let_def)
    with unquote_escape [OF unescape_hex [OF assms, of u]] show ?thesis by simp
  next
    case plain: False
    with False have "quote_byte c = [c]" by (simp add: quote_byte_def Let_def)
    moreover have "rune_len (c # u) = 1"
      using rune_len_append [of "[c]" u] assms by (simp add: is_rune_single)
    ultimately show ?thesis using False plain by (simp add: unquote.simps(2))
  qed
qed

lemma unquote_quote_rune:
  assumes "rune_ok r"
  shows "unquote (quote_rune r @ u) = prepend (rune_value r) (unquote u)"
proof (cases r)
  case None
  have "unescape (''ufffd'' @ u) = Some (rune_error, u)"
    by (simp add: escape_defs special_chars rune_error_def utf8_def)
  from unquote_escape [of "''ufffd''", OF this] None show ?thesis by (simp add: quote_rune_def rune_value_def)
next
  case (Some x)
  with assms have x: "is_rune x" by (simp add: rune_ok_def)
  then obtain c q where xc: "x = c # q" by (cases x) (auto simp: is_rune_def)
  show ?thesis
  proof (cases "q = []")
    case True
    with x xc have "byte_at c < 128" by (simp add: is_rune_single)
    with unquote_quote_byte Some xc True show ?thesis by (simp add: quote_rune_def rune_value_def)
  next
    case False
    with x xc have c: "128 \<le> byte_at c" using is_rune_ascii_head [of c q] by force
    have u2028: "unescape (''u2028'' @ u) = Some (utf8 [226, 128, 168], u)"
      and u2029: "unescape (''u2029'' @ u) = Some (utf8 [226, 128, 169], u)"
      by (simp_all add: escape_defs special_chars utf8_def)
    have "unquote (x @ u) = prepend x (unquote u)"
      using rune_len_append [OF x, of u] xc c by (auto simp: unquote.simps(2) special_chars)
    with unquote_escape [of "''u2028''", OF u2028] unquote_escape [of "''u2029''", OF u2029] Some xc False
    show ?thesis
      by (cases q) (auto simp: quote_rune_def rune_value_def)
  qed
qed

lemma unquote_runes:
  "list_all rune_ok rs \<Longrightarrow>
     unquote (concat (map quote_rune rs) @ quote_char # t) = Some (concat (map rune_value rs), t)"
  by (induction rs) (simp_all add: unquote.simps(2) unquote_quote_rune prepend_def)

lemma unquote_quote_body: "unquote (quote_body s @ quote_char # t) = Some (coerce s, t)"
  unfolding quote_body_def coerce_def by (rule unquote_runes [OF runes_ok])

subsection \<open>Numbers\<close>

definition lex_frac :: "string \<Rightarrow> (string \<times> string) option" where
  "lex_frac s =
     (if take 1 s = ''.'' then
        (if takeWhile is_digit (tl s) = [] then None
         else Some (CHR ''.'' # takeWhile is_digit (tl s), dropWhile is_digit (tl s)))
      else Some ([], s))"

definition lex_exp :: "string \<Rightarrow> (string \<times> string) option" where
  "lex_exp s =
     (if take 1 s = ''e'' \<or> take 1 s = ''E'' then
        (let sg = (if take 1 (tl s) = ''+'' \<or> take 1 (tl s) = ''-'' then take 1 (tl s) else []);
             u = drop (length sg) (tl s)
         in if takeWhile is_digit u = [] then None
            else Some (take 1 s @ sg @ takeWhile is_digit u, dropWhile is_digit u))
      else Some ([], s))"

text \<open>
  A number: an optional sign, digits without a leading zero, an optional fraction and exponent. The
  literal \<open>-0\<close> is none of the integers.
\<close>

definition num_value :: "string \<Rightarrow> string \<Rightarrow> string \<Rightarrow> string \<Rightarrow> json" where
  "num_value sg ds fr ex =
     (if fr = [] \<and> ex = [] \<and> sg @ ds \<noteq> ''-0''
      then JNum (if sg = [] then int (digits_value ds) else - int (digits_value ds))
      else JFrac (sg @ ds @ fr @ ex))"

definition lex_unsigned :: "string \<Rightarrow> string \<Rightarrow> (json \<times> string) option" where
  "lex_unsigned sg s =
     (let ds = takeWhile is_digit s
      in if ds = [] \<or> (take 1 ds = ''0'' \<and> length ds > 1) then None
         else case lex_frac (dropWhile is_digit s) of None \<Rightarrow> None
              | Some (fr, s2) \<Rightarrow>
                  (case lex_exp s2 of None \<Rightarrow> None
                   | Some (ex, s3) \<Rightarrow> Some (num_value sg ds fr ex, s3)))"

definition lex_num :: "string \<Rightarrow> (json \<times> string) option" where
  "lex_num s = (if take 1 s = ''-'' then lex_unsigned ''-'' (tl s) else lex_unsigned [] s)"

lemma dec_no_leading_zero: "take 1 (dec n) = ''0'' \<longleftrightarrow> n = 0"
proof (induction n rule: dec.induct)
  case (1 n)
  have nz: "char_of (48 + n) = CHR ''0'' \<longleftrightarrow> n = 0" if "n < 10"
  proof
    assume "char_of (48 + n) = CHR ''0''"
    then have "byte_at (char_of (48 + n)) = byte_at (CHR ''0'')" by simp
    with that show "n = 0" by simp
  next
    have "char_of (48 :: nat) = CHR ''0''" by code_simp
    then show "char_of (48 + n) = CHR ''0''" if "n = 0" using that by simp
  qed
  show ?case
  proof (cases "n < 10")
    case True
    with nz show ?thesis by (simp add: dec.simps [of n])
  next
    case False
    with 1 dec_digits [of "n div 10"] show ?thesis by (cases "dec (n div 10)") (auto simp: dec.simps [of n])
  qed
qed

text \<open>What may follow a number: nothing that continues it.\<close>

definition num_end :: "string \<Rightarrow> bool" where
  "num_end u \<longleftrightarrow> (case u of [] \<Rightarrow> True | c # _ \<Rightarrow> \<not> is_digit c \<and> c \<notin> set ''.eE'')"

lemma digits_stop:
  "num_end u \<Longrightarrow> takeWhile is_digit (s @ u) = takeWhile is_digit s
     \<and> dropWhile is_digit (s @ u) = dropWhile is_digit s @ u"
  by (induction s) (auto simp: num_end_def split: list.splits)

lemma lex_frac_append:
  "num_end u \<Longrightarrow> lex_frac s = Some (x, r) \<Longrightarrow> lex_frac (s @ u) = Some (x, r @ u)"
  by (cases s) (auto simp: lex_frac_def digits_stop num_end_def split: if_splits list.splits)

lemma lex_exp_append:
  assumes "num_end u" and "lex_exp s = Some (x, r)"
  shows "lex_exp (s @ u) = Some (x, r @ u)"
proof (cases s)
  case Nil
  with assms show ?thesis by (auto simp: lex_exp_def num_end_def split: list.splits)
next
  case (Cons c t)
  with assms digits_stop [OF assms(1)] show ?thesis
    by (cases t) (auto simp: lex_exp_def Let_def split: if_splits)
qed

lemma lex_unsignedE:
  assumes "lex_unsigned sg s = Some (v, r)"
  obtains fr s2 ex where "takeWhile is_digit s \<noteq> []"
    and "take 1 (takeWhile is_digit s) = ''0'' \<Longrightarrow> length (takeWhile is_digit s) \<le> 1"
    and "lex_frac (dropWhile is_digit s) = Some (fr, s2)" and "lex_exp s2 = Some (ex, r)"
    and "v = num_value sg (takeWhile is_digit s) fr ex"
  using assms unfolding lex_unsigned_def Let_def
  by (simp split: if_splits option.splits prod.splits) (metis linorder_not_less)

lemma lex_unsignedI:
  assumes "takeWhile is_digit s \<noteq> []"
    and "take 1 (takeWhile is_digit s) = ''0'' \<Longrightarrow> length (takeWhile is_digit s) \<le> 1"
    and "lex_frac (dropWhile is_digit s) = Some (fr, s2)" and "lex_exp s2 = Some (ex, r)"
  shows "lex_unsigned sg s = Some (num_value sg (takeWhile is_digit s) fr ex, r)"
  using assms by (auto simp: lex_unsigned_def Let_def)

lemma lex_unsigned_append:
  assumes "num_end u" and "lex_unsigned sg s = Some (v, r)"
  shows "lex_unsigned sg (s @ u) = Some (v, r @ u)"
  using assms(2)
proof (rule lex_unsignedE)
  fix fr s2 ex
  note stop = digits_stop [OF assms(1), of s]
  assume *: "takeWhile is_digit s \<noteq> []" "lex_frac (dropWhile is_digit s) = Some (fr, s2)"
    "take 1 (takeWhile is_digit s) = ''0'' \<Longrightarrow> length (takeWhile is_digit s) \<le> 1"
    "lex_exp s2 = Some (ex, r)" "v = num_value sg (takeWhile is_digit s) fr ex"
  from lex_unsignedI [of "s @ u" fr "s2 @ u" ex "r @ u" sg] * stop
    lex_frac_append [OF assms(1) *(2)] lex_exp_append [OF assms(1) *(4)]
  show ?thesis by simp
qed

lemma lex_num_append:
  assumes "num_end u" and "lex_num s = Some (v, r)"
  shows "lex_num (s @ u) = Some (v, r @ u)"
proof -
  from assms(2) have "s \<noteq> []" by (auto simp: lex_num_def lex_unsigned_def)
  with assms lex_unsigned_append [OF assms(1), of "[]" s]
    lex_unsigned_append [OF assms(1), of "''-''" "tl s"] show ?thesis
    by (cases s) (auto simp: lex_num_def split: if_splits)
qed

lemma lex_unsigned_dec:
  "lex_unsigned sg (dec k) = Some (num_value sg (dec k) [] [], [])"
proof -
  note d = dec_digits [of k]
  have tw: "takeWhile is_digit (dec k) = dec k" "dropWhile is_digit (dec k) = []"
    using d by (auto simp: list_all_iff)
  have "length (dec k) \<le> 1" if "take 1 (dec k) = ''0''"
    using that dec_no_leading_zero [of k] by (simp add: dec.simps [of 0])
  moreover have "lex_frac [] = Some ([], [])" "lex_exp [] = Some ([], [])"
    by (simp_all add: lex_frac_def lex_exp_def)
  ultimately show ?thesis using lex_unsignedI [of "dec k" "[]" "[]" "[]" "[]" sg] d by (simp add: tw)
qed

lemma lex_num_int: "lex_num (dec_int n) = Some (JNum n, [])"
proof (cases "n < 0")
  case True
  then have "dec (nat (- n)) \<noteq> ''0''" using dec_no_leading_zero [of "nat (- n)"] by auto
  with True show ?thesis
    by (simp add: lex_num_def dec_int_def lex_unsigned_dec num_value_def dec_digits)
next
  case False
  have "take 1 (dec (nat n)) \<noteq> ''-''"
    using dec_digits [of "nat n"] by (cases "dec (nat n)") (auto simp: is_digit_def)
  with False show ?thesis
    by (auto simp: lex_num_def dec_int_def lex_unsigned_dec num_value_def dec_digits)
qed

lemma length_digits:
  "length (dropWhile is_digit x) + length (takeWhile is_digit x) = length x"
  by (induction x) auto

lemma lex_frac_shorter: "lex_frac s = Some (x, r) \<Longrightarrow> length r \<le> length s"
  using length_digits [of "tl s"] by (auto simp: lex_frac_def split: if_splits)

lemma lex_exp_shorter: "lex_exp s = Some (x, r) \<Longrightarrow> length r \<le> length s"
  using length_digits [of "tl s"] length_digits [of "tl (tl s)"]
  by (cases s; cases "tl s") (auto simp: lex_exp_def Let_def split: if_splits)

lemma lex_unsigned_shorter: "lex_unsigned sg s = Some (v, r) \<Longrightarrow> length r < length s"
proof (erule lex_unsignedE)
  fix fr s2 ex
  assume "takeWhile is_digit s \<noteq> []" "lex_frac (dropWhile is_digit s) = Some (fr, s2)" "lex_exp s2 = Some (ex, r)"
  with lex_frac_shorter lex_exp_shorter length_digits [of s] show "length r < length s"
    by (metis add_gr_0 add_less_cancel_left le_less_trans length_greater_0_conv less_add_same_cancel1 nle_le order_trans)
qed

lemma lex_num_shorter: "lex_num s = Some (v, r) \<Longrightarrow> length r < length s"
  by (cases s) (auto simp: lex_num_def split: if_splits dest: lex_unsigned_shorter)

subsection \<open>Tokens\<close>

datatype token =
    TLBrack | TRBrack | TLBrace | TRBrace | TColon | TComma | TStr string | TLit json

fun is_lit :: "token \<Rightarrow> bool" where
  "is_lit (TLit v) = True"
| "is_lit _ = False"

definition is_space :: "char \<Rightarrow> bool" where
  "is_space c \<longleftrightarrow> byte_at c = 32 \<or> byte_at c = 9 \<or> byte_at c = 10 \<or> byte_at c = 13"

definition punctuation :: "char \<Rightarrow> token option" where
  "punctuation c =
     (if c = CHR ''['' then Some TLBrack
      else if c = CHR '']'' then Some TRBrack
      else if c = CHR ''{'' then Some TLBrace
      else if c = CHR ''}'' then Some TRBrace
      else if c = CHR '':'' then Some TColon
      else if c = CHR '','' then Some TComma
      else None)"

definition lex_word :: "string \<Rightarrow> (token \<times> string) option" where
  "lex_word s =
     (if take 1 s = [quote_char] then map_option (\<lambda>(x, r). (TStr x, r)) (unquote (tl s))
      else if take 4 s = ''true'' then Some (TLit (JBool True), drop 4 s)
      else if take 5 s = ''false'' then Some (TLit (JBool False), drop 5 s)
      else if take 4 s = ''null'' then Some (TLit JNull, drop 4 s)
      else map_option (\<lambda>(v, r). (TLit v, r)) (lex_num s))"

lemma lex_word_shorter: "lex_word s = Some (t, r) \<Longrightarrow> length r < length s"
  by (cases s)
    (auto simp: lex_word_def split: if_splits dest: lex_num_shorter unquote_shorter)

function lex_json :: "string \<Rightarrow> token list option" where
  "lex_json [] = Some []"
| "lex_json (c # s) =
     (if is_space c then lex_json s
      else case punctuation c of Some t \<Rightarrow> map_option ((#) t) (lex_json s)
           | None \<Rightarrow>
               (case lex_word (c # s) of None \<Rightarrow> None
                | Some (t, r) \<Rightarrow> map_option ((#) t) (lex_json r)))"
  by pat_completeness auto
termination
  by (relation "measure length") (auto dest: lex_word_shorter)

declare lex_json.simps(2) [simp del]

fun lit_text :: "json \<Rightarrow> string" where
  "lit_text JNull = ''null''"
| "lit_text (JBool b) = (if b then ''true'' else ''false'')"
| "lit_text (JNum n) = dec_int n"
| "lit_text (JFrac l) = l"
| "lit_text _ = []"

fun token_text :: "token \<Rightarrow> string" where
  "token_text TLBrack = ''[''"
| "token_text TRBrack = '']''"
| "token_text TLBrace = ''{''"
| "token_text TRBrace = ''}''"
| "token_text TColon = '':''"
| "token_text TComma = '',''"
| "token_text (TStr s) = quote s"
| "token_text (TLit v) = lit_text v"

text \<open>The literals there are: a \<open>JFrac\<close> holds a number that is not an integer.\<close>

fun lit_ok :: "json \<Rightarrow> bool" where
  "lit_ok (JFrac l) \<longleftrightarrow> lex_num l = Some (JFrac l, [])"
| "lit_ok (JStr s) \<longleftrightarrow> False"
| "lit_ok (JArr xs) \<longleftrightarrow> False"
| "lit_ok (JObj kvs) \<longleftrightarrow> False"
| "lit_ok _ \<longleftrightarrow> True"

text \<open>Two literals must not stand side by side: the digits of the second would continue the first.\<close>

fun spaced :: "token list \<Rightarrow> bool" where
  "spaced [] \<longleftrightarrow> True"
| "spaced (t # ts) \<longleftrightarrow>
     (case t of TLit v \<Rightarrow> lit_ok v | _ \<Rightarrow> True)
     \<and> \<not> (is_lit t \<and> ts \<noteq> [] \<and> is_lit (hd ts)) \<and> spaced ts"

fun coerce_token :: "token \<Rightarrow> token" where
  "coerce_token (TStr s) = TStr (coerce s)"
| "coerce_token t = t"

lemma num_end_token: "\<not> is_lit t \<Longrightarrow> num_end (token_text t @ u)"
  by (cases t) (simp_all add: num_end_def is_digit_def quote_def special_chars)

lemma num_end_tokens: "ts = [] \<or> \<not> is_lit (hd ts) \<Longrightarrow> num_end (concat (map token_text ts))"
  by (cases ts) (simp_all add: num_end_token, simp add: num_end_def)

text \<open>The first character of a number is neither space nor punctuation nor the start of a word.\<close>

lemma lex_num_start:
  assumes "lex_num (c # s) = Some v"
  shows "is_digit c \<or> c = CHR ''-''"
  using assms by (auto simp: lex_num_def lex_unsigned_def Let_def split: if_splits)

lemma lex_number:
  assumes "num_end u" and "lex_num l = Some (v, [])"
  shows "lex_json (l @ u) = map_option ((#) (TLit v)) (lex_json u)"
proof -
  from assms(2) obtain c s where l: "l = c # s" by (cases l) (auto simp: lex_num_def lex_unsigned_def)
  from lex_num_start [of c s] assms(2) l have "is_digit c \<or> c = CHR ''-''" by auto
  then have c: "\<not> is_space c" "punctuation c = None" "c \<noteq> quote_char" "c \<notin> set ''tfn''"
    by (auto simp: is_digit_def is_space_def punctuation_def special_chars)
  with lex_num_append [OF assms] l have "lex_word (c # s @ u) = Some (TLit v, u)"
    by (simp add: lex_word_def)
  with c l show ?thesis by (simp add: lex_json.simps(2))
qed

lemma lex_literal:
  assumes "lit_ok v" and "num_end u"
  shows "lex_json (lit_text v @ u) = map_option ((#) (TLit v)) (lex_json u)"
  using assms lex_number [OF assms(2) lex_num_int] lex_number [OF assms(2)]
  by (cases v) (simp_all add: lex_json.simps(2) is_space_def punctuation_def lex_word_def special_chars)

lemma lex_quoted: "lex_json (quote s @ u) = map_option ((#) (TStr (coerce s))) (lex_json u)"
proof -
  have "lex_word (quote_char # quote_body s @ quote_char # u) = Some (TStr (coerce s), u)"
    by (simp add: lex_word_def unquote_quote_body)
  moreover have "\<not> is_space quote_char" "punctuation quote_char = None"
    by (simp_all add: special_chars is_space_def punctuation_def)
  ultimately show ?thesis by (simp add: quote_def lex_json.simps(2))
qed

lemma lex_tokens:
  "spaced ts \<Longrightarrow> lex_json (concat (map token_text ts)) = Some (map coerce_token ts)"
proof (induction ts)
  case Nil
  then show ?case by simp
next
  case (Cons t ts)
  then have IH: "lex_json (concat (map token_text ts)) = Some (map coerce_token ts)" by simp
  show ?case
  proof (cases t)
    case (TLit v)
    with Cons.prems have "num_end (concat (map token_text ts))" by (intro num_end_tokens) auto
    with TLit Cons.prems IH lex_literal show ?thesis by simp
  qed (simp_all add: IH lex_quoted lex_json.simps(2) is_space_def punctuation_def)
qed

subsection \<open>The scanner\<close>

text \<open>
  What is expected next, and the arrays and objects that are open, innermost first; an object keeps
  the key whose value is being read. At most 10000 may be open.
\<close>

datatype expect = WantValue | WantValueOrEnd | WantKey | WantKeyOrEnd | WantColon | Have json

datatype frame = FArr "json list" | FObj "(string \<times> json) list" string

type_synonym scanner = "expect \<times> frame list"

definition max_depth :: nat where "max_depth = 10000"

definition start_value :: "token \<Rightarrow> frame list \<Rightarrow> scanner option" where
  "start_value t fs =
     (case t of
        TLit v \<Rightarrow> Some (Have v, fs)
      | TStr s \<Rightarrow> Some (Have (JStr s), fs)
      | TLBrack \<Rightarrow> if length fs < max_depth then Some (WantValueOrEnd, FArr [] # fs) else None
      | TLBrace \<Rightarrow> if length fs < max_depth then Some (WantKeyOrEnd, FObj [] [] # fs) else None
      | _ \<Rightarrow> None)"

definition start_key :: "token \<Rightarrow> frame list \<Rightarrow> scanner option" where
  "start_key t fs =
     (case (t, fs) of (TStr k, FObj kvs k' # gs) \<Rightarrow> Some (WantColon, FObj kvs k # gs) | _ \<Rightarrow> None)"

fun end_value :: "token \<Rightarrow> json \<Rightarrow> frame list \<Rightarrow> scanner option" where
  "end_value TComma v (FArr xs # gs) = Some (WantValue, FArr (xs @ [v]) # gs)"
| "end_value TRBrack v (FArr xs # gs) = Some (Have (JArr (xs @ [v])), gs)"
| "end_value TComma v (FObj kvs k # gs) = Some (WantKey, FObj (kvs @ [(k, v)]) k # gs)"
| "end_value TRBrace v (FObj kvs k # gs) = Some (Have (JObj (kvs @ [(k, v)])), gs)"
| "end_value _ v fs = None"

fun scan_token :: "token \<Rightarrow> scanner \<Rightarrow> scanner option" where
  "scan_token t (WantValue, fs) = start_value t fs"
| "scan_token t (WantValueOrEnd, fs) =
     (case (t, fs) of (TRBrack, FArr xs # gs) \<Rightarrow> Some (Have (JArr xs), gs) | _ \<Rightarrow> start_value t fs)"
| "scan_token t (WantKey, fs) = start_key t fs"
| "scan_token t (WantKeyOrEnd, fs) =
     (case (t, fs) of (TRBrace, FObj kvs k # gs) \<Rightarrow> Some (Have (JObj kvs), gs) | _ \<Rightarrow> start_key t fs)"
| "scan_token t (WantColon, fs) = (if t = TColon then Some (WantValue, fs) else None)"
| "scan_token t (Have v, fs) = end_value t v fs"

fun scan :: "token list \<Rightarrow> scanner \<Rightarrow> scanner option" where
  "scan [] st = Some st"
| "scan (t # ts) st = (case scan_token t st of None \<Rightarrow> None | Some st1 \<Rightarrow> scan ts st1)"

text \<open>\<open>json.Unmarshal\<close> as far as the value; \<^const>\<open>None\<close> is a syntax error.\<close>

definition parse_tokens :: "token list \<Rightarrow> json option" where
  "parse_tokens ts = (case scan ts (WantValue, []) of Some (Have v, []) \<Rightarrow> Some v | _ \<Rightarrow> None)"

definition parse_json :: "string \<Rightarrow> json option" where
  "parse_json s = (case lex_json s of None \<Rightarrow> None | Some ts \<Rightarrow> parse_tokens ts)"

subsection \<open>Writing\<close>

fun commas :: "token list list \<Rightarrow> token list" where
  "commas [] = []"
| "commas [x] = x"
| "commas (x # y # xs) = x @ TComma # commas (y # xs)"

fun tokens :: "json \<Rightarrow> token list" where
  "tokens (JStr s) = [TStr s]"
| "tokens (JArr xs) = TLBrack # commas (map tokens xs) @ [TRBrack]"
| "tokens (JObj kvs) = TLBrace # commas (map (\<lambda>(k, v). TStr k # TColon # tokens v) kvs) @ [TRBrace]"
| "tokens v = [TLit v]"

definition print_json :: "json \<Rightarrow> string" where
  "print_json v = concat (map token_text (tokens v))"

fun coerce_json :: "json \<Rightarrow> json" where
  "coerce_json (JStr s) = JStr (coerce s)"
| "coerce_json (JArr xs) = JArr (map coerce_json xs)"
| "coerce_json (JObj kvs) = JObj (map (\<lambda>(k, v). (coerce k, coerce_json v)) kvs)"
| "coerce_json v = v"

fun json_depth :: "json \<Rightarrow> nat" where
  "json_depth (JArr xs) = Suc (foldr max (map json_depth xs) 0)"
| "json_depth (JObj kvs) = Suc (foldr max (map (\<lambda>(k, v). json_depth v) kvs) 0)"
| "json_depth v = 0"

text \<open>The literals in a value are ones that text has.\<close>

fun lits_ok :: "json \<Rightarrow> bool" where
  "lits_ok (JArr xs) \<longleftrightarrow> list_all lits_ok xs"
| "lits_ok (JObj kvs) \<longleftrightarrow> list_all (\<lambda>(k, v). lits_ok v) kvs"
| "lits_ok (JStr s) \<longleftrightarrow> True"
| "lits_ok v \<longleftrightarrow> lit_ok v"

lemma max_member: "n \<in> set ns \<Longrightarrow> n \<le> foldr max ns (0 :: nat)"
  by (induction ns) auto

lemma commas_Cons: "xs \<noteq> [] \<Longrightarrow> commas (x # xs) = x @ TComma # commas xs"
  by (cases xs) auto

lemma map_commas: "map f (commas xss) = commas (map (map f) xss)" if "f TComma = TComma"
  using that by (induction xss rule: commas.induct) auto

lemma tokens_coerce: "map coerce_token (tokens v) = tokens (coerce_json v)"
proof (induction v)
  case (JArr xs)
  then have "map (map coerce_token) (map tokens xs) = map tokens (map coerce_json xs)" by simp
  then show ?case by (simp add: map_commas del: map_map)
next
  case (JObj kvs)
  then have "map (map coerce_token) (map (\<lambda>(k, v). TStr k # TColon # tokens v) kvs)
      = map (\<lambda>(k, v). TStr k # TColon # tokens v) (map (\<lambda>(k, v). (coerce k, coerce_json v)) kvs)"
    by (auto simp: snds.simps)
  then show ?case by (simp add: map_commas del: map_map)
qed simp_all

lemma depth_coerce [simp]: "json_depth (coerce_json v) = json_depth v"
proof (induction v)
  case (JArr xs)
  then have "map json_depth (map coerce_json xs) = map json_depth xs" by simp
  then show ?case by (simp only: coerce_json.simps json_depth.simps)
next
  case (JObj kvs)
  then have "map (\<lambda>(k, v). json_depth v) (map (\<lambda>(k, v). (coerce k, coerce_json v)) kvs)
      = map (\<lambda>(k, v). json_depth v) kvs"
    by (auto simp: snds.simps)
  then show ?case by (simp only: coerce_json.simps json_depth.simps)
qed simp_all

subsection \<open>Reading what was written\<close>

definition open_end :: "token list \<Rightarrow> bool" where
  "open_end ts \<longleftrightarrow> ts = [] \<or> \<not> is_lit (hd ts)"

lemma spaced_commas:
  assumes "\<And>x ts. x \<in> set xss \<Longrightarrow> open_end ts \<Longrightarrow> spaced ts \<Longrightarrow> spaced (x @ ts)"
    and "open_end ts" and "spaced ts"
  shows "spaced (commas xss @ ts)"
  using assms by (induction xss rule: commas.induct) (simp_all add: open_end_def)

lemma spaced_tokens: "lits_ok v \<Longrightarrow> open_end ts \<Longrightarrow> spaced ts \<Longrightarrow> spaced (tokens v @ ts)"
proof (induction v arbitrary: ts)
  case (JArr xs)
  have "spaced (commas (map tokens xs) @ TRBrack # ts)"
  proof (rule spaced_commas)
    show "spaced (x @ us)" if "x \<in> set (map tokens xs)" "open_end us" "spaced us" for x us
      using that JArr.IH JArr.prems(1) by (auto simp: list_all_iff)
  qed (use JArr.prems in \<open>simp_all add: open_end_def\<close>)
  then show ?case by simp
next
  case (JObj kvs)
  have "spaced (commas (map (\<lambda>(k, v). TStr k # TColon # tokens v) kvs) @ TRBrace # ts)"
  proof (rule spaced_commas)
    show "spaced (x @ us)" if "x \<in> set (map (\<lambda>(k, v). TStr k # TColon # tokens v) kvs)"
      "open_end us" "spaced us" for x us
      using that JObj.IH JObj.prems(1) by (fastforce simp: list_all_iff snds.simps)
  qed (use JObj.prems in \<open>simp_all add: open_end_def\<close>)
  then show ?case by simp
qed (simp_all add: open_end_def)

text \<open>The first token of a value closes nothing.\<close>

lemma tokens_start:
  "\<exists>t us. tokens v = t # us \<and> (\<forall>fs. scan_token t (WantValueOrEnd, fs) = scan_token t (WantValue, fs))"
  by (cases v) simp_all

lemma scan_elements:
  assumes "\<And>v fs us. v \<in> set vs \<Longrightarrow> length fs \<le> n \<Longrightarrow> scan (tokens v @ us) (WantValue, fs) = scan us (Have v, fs)"
    and "vs \<noteq> []" and "length fs < n"
  shows "scan (commas (map tokens vs) @ TRBrack # us) (WantValue, FArr xs # fs) = scan us (Have (JArr (xs @ vs)), fs)"
  using assms
proof (induction vs arbitrary: xs)
  case (Cons v vs)
  then show ?case by (cases "vs = []") (simp_all add: commas_Cons)
qed simp

lemma scan_entries:
  assumes "\<And>k v fs us. (k, v) \<in> set kvs \<Longrightarrow> length fs \<le> n \<Longrightarrow>
      scan (tokens v @ us) (WantValue, fs) = scan us (Have v, fs)"
    and "kvs \<noteq> []" and "length fs < n"
  shows "scan (commas (map (\<lambda>(k, v). TStr k # TColon # tokens v) kvs) @ TRBrace # us) (WantKey, FObj xs k0 # fs)
    = scan us (Have (JObj (xs @ kvs)), fs)"
  using assms
proof (induction kvs arbitrary: xs k0)
  case (Cons e kvs)
  obtain k v where e: "e = (k, v)" by (cases e)
  have "scan (tokens v @ us) (WantValue, FObj xs k # fs) = scan us (Have v, FObj xs k # fs)" for us
    using Cons.prems(1) [of k v "FObj xs k # fs" us] Cons.prems(3) e by simp
  moreover have "scan (commas (map (\<lambda>(k, v). TStr k # TColon # tokens v) kvs) @ TRBrace # us)
      (WantKey, FObj (xs @ [(k, v)]) k # fs) = scan us (Have (JObj ((xs @ [(k, v)]) @ kvs)), fs)"
    if "kvs \<noteq> []"
    by (rule Cons.IH [OF _ that Cons.prems(3)], rule Cons.prems(1)) auto
  ultimately show ?case by (cases "kvs = []") (simp_all add: e commas_Cons start_key_def)
qed simp

lemma scan_tokens:
  "json_depth v + length fs \<le> max_depth \<Longrightarrow> scan (tokens v @ us) (WantValue, fs) = scan us (Have v, fs)"
proof (induction v arbitrary: fs us)
  case (JArr xs)
  then have fs: "length fs < max_depth" by simp
  have el: "scan (tokens v @ ws) (WantValue, gs) = scan ws (Have v, gs)"
    if "v \<in> set xs" "length gs \<le> Suc (length fs)" for v gs ws
    using that JArr.IH [OF that(1), of gs ws] JArr.prems max_member [of "json_depth v" "map json_depth xs"] by simp
  show ?case
  proof (cases "xs = []")
    case True
    with fs show ?thesis by (simp add: start_value_def)
  next
    case False
    have "scan (commas (map tokens xs) @ TRBrack # us) (WantValueOrEnd, FArr [] # fs)
        = scan (commas (map tokens xs) @ TRBrack # us) (WantValue, FArr [] # fs)"
    proof -
      obtain x ys where xs: "xs = x # ys" using False by (cases xs) auto
      from tokens_start [of x] obtain t ts where "tokens x = t # ts"
        "\<And>fs. scan_token t (WantValueOrEnd, fs) = scan_token t (WantValue, fs)" by blast
      then show ?thesis using xs by (cases ys) simp_all
    qed
    also have "\<dots> = scan us (Have (JArr xs), fs)"
      using scan_elements [OF el False, where fs = fs and us = us and xs = "[]"] by simp
    finally show ?thesis using fs by (simp add: start_value_def)
  qed
next
  case (JObj kvs)
  then have fs: "length fs < max_depth" by simp
  have el: "scan (tokens v @ ws) (WantValue, gs) = scan ws (Have v, gs)"
    if "(k, v) \<in> set kvs" "length gs \<le> Suc (length fs)" for k v gs ws
    using that JObj.IH [of "(k, v)" v gs ws] JObj.prems
      max_member [of "json_depth v" "map (\<lambda>(k, v). json_depth v) kvs"]
    by (force simp: snds.simps)
  show ?case
  proof (cases "kvs = []")
    case True
    with fs show ?thesis by (simp add: start_value_def)
  next
    case False
    let ?ts = "commas (map (\<lambda>(k, v). TStr k # TColon # tokens v) kvs) @ TRBrace # us"
    have "scan ?ts (WantKeyOrEnd, FObj [] [] # fs) = scan ?ts (WantKey, FObj [] [] # fs)"
    proof -
      obtain k x ys where "kvs = (k, x) # ys" using False by (cases kvs) auto
      then show ?thesis by (cases ys) simp_all
    qed
    also have "\<dots> = scan us (Have (JObj kvs), fs)"
      using scan_entries [OF el False, where fs = fs and us = us and xs = "[]" and ?k0.0 = "[]"] by simp
    finally show ?thesis using fs by (simp add: start_value_def)
  qed
qed (simp_all add: start_value_def)

theorem parse_print:
  assumes "lits_ok v" and "json_depth v \<le> max_depth"
  shows "parse_json (print_json v) = Some (coerce_json v)"
proof -
  have "lex_json (print_json v) = Some (tokens (coerce_json v))"
    unfolding print_json_def
    using lex_tokens [OF spaced_tokens [OF assms(1), of "[]"]] by (simp add: open_end_def tokens_coerce)
  moreover have "scan (tokens (coerce_json v)) (WantValue, []) = Some (Have (coerce_json v), [])"
    using scan_tokens [of "coerce_json v" "[]" "[]"] assms(2) by simp
  ultimately show ?thesis by (simp add: parse_json_def parse_tokens_def)
qed

text \<open>The values whose strings are all UTF-8 come back as they are.\<close>

fun strings_ok :: "json \<Rightarrow> bool" where
  "strings_ok (JStr s) \<longleftrightarrow> valid_utf8 s"
| "strings_ok (JArr xs) \<longleftrightarrow> list_all strings_ok xs"
| "strings_ok (JObj kvs) \<longleftrightarrow> list_all (\<lambda>(k, v). valid_utf8 k \<and> strings_ok v) kvs"
| "strings_ok _ \<longleftrightarrow> True"

lemma coerce_strings_ok: "strings_ok v \<Longrightarrow> coerce_json v = v"
proof (induction v)
  case (JArr xs)
  then show ?case by (simp add: list_all_iff map_idI)
next
  case (JObj kvs)
  then show ?case by (auto simp: list_all_iff snds.simps coerce_valid intro!: map_idI)
qed (simp_all add: coerce_valid)

definition json_ok :: "json \<Rightarrow> bool" where
  "json_ok v \<longleftrightarrow> lits_ok v \<and> strings_ok v \<and> json_depth v \<le> max_depth"

lemma parse_print_ok: "json_ok v \<Longrightarrow> parse_json (print_json v) = Some v"
  using parse_print [of v] coerce_strings_ok [of v] by (simp add: json_ok_def)

text \<open>No text leaves more than the permitted number of arrays and objects open.\<close>

lemma scan_depth:
  "scan ts (e, fs) = Some (e', fs') \<Longrightarrow> length fs \<le> max_depth \<Longrightarrow> length fs' \<le> max_depth"
proof (induction ts arbitrary: e fs)
  case (Cons t ts)
  then obtain e1 fs1 where st: "scan_token t (e, fs) = Some (e1, fs1)" "scan ts (e1, fs1) = Some (e', fs')"
    by (auto split: option.splits)
  have "length fs1 \<le> max_depth"
    using st(1) Cons.prems(2)
    by (cases e; cases t; cases fs; cases "hd fs")
      (auto simp: start_value_def start_key_def split: if_splits)
  with Cons.IH st(2) show ?case by blast
qed simp

subsection \<open>Indented text\<close>

text \<open>
  \<open>json.MarshalIndent\<close> with two spaces: a new line after an opening bracket that is not closed at
  once, after a comma, and before a closing bracket; \<open>need\<close> tells that an opening bracket was last.
\<close>

definition new_line :: "nat \<Rightarrow> string" where
  "new_line d = CHR 0x0A # concat (replicate d ''  '')"

fun indent :: "nat \<Rightarrow> bool \<Rightarrow> token list \<Rightarrow> string" where
  "indent d need [] = []"
| "indent d need (t # ts) =
     (if t = TRBrack \<or> t = TRBrace then
        (if need then token_text t @ indent d False ts
         else new_line (d - 1) @ token_text t @ indent (d - 1) False ts)
      else
        (let d1 = (if need then Suc d else d)
         in (if need then new_line d1 else []) @ token_text t
            @ (if t = TComma then new_line d1 else if t = TColon then '' '' else [])
            @ indent d1 (t = TLBrack \<or> t = TLBrace) ts))"

definition print_indented :: "json \<Rightarrow> string" where
  "print_indented v = indent 0 False (tokens v)"

lemma lex_spaces: "list_all is_space s \<Longrightarrow> lex_json (s @ u) = lex_json u"
  by (induction s) (simp_all add: lex_json.simps(2))

lemma is_space_new_line: "list_all is_space (new_line d)"
  by (simp add: new_line_def is_space_def list_all_iff)

lemma lex_new_line [simp]: "lex_json (new_line d @ u) = lex_json u"
  by (rule lex_spaces [OF is_space_new_line])

lemma lex_blank [simp]: "lex_json (CHR '' '' # u) = lex_json u"
  by (simp add: lex_json.simps(2) is_space_def)

lemma num_end_space: "is_space c \<Longrightarrow> num_end (c # u)"
  by (auto simp: is_space_def num_end_def is_digit_def)

lemma num_end_new_line [simp]: "num_end (new_line d @ u)"
  by (simp add: new_line_def num_end_space is_space_def)

lemma num_end_indent: "ts = [] \<or> \<not> is_lit (hd ts) \<Longrightarrow> num_end (indent d need ts)"
proof (cases ts)
  case Nil
  then show ?thesis by (simp add: num_end_def)
next
  case (Cons t us)
  moreover assume "ts = [] \<or> \<not> is_lit (hd ts)"
  ultimately show ?thesis
    using num_end_token [of TRBrack] num_end_token [of TRBrace] by (auto simp: Let_def num_end_token)
qed

lemma lex_token:
  "(case t of TLit v \<Rightarrow> lit_ok v \<and> num_end u | _ \<Rightarrow> True) \<Longrightarrow>
     lex_json (token_text t @ u) = map_option ((#) (coerce_token t)) (lex_json u)"
  by (cases t) (simp_all add: lex_literal lex_quoted lex_json.simps(2) is_space_def punctuation_def)

lemma lex_close:
  "lex_json (CHR '']'' # u) = map_option ((#) TRBrack) (lex_json u)"
  "lex_json (CHR ''}'' # u) = map_option ((#) TRBrace) (lex_json u)"
  using lex_token [of u TRBrack] lex_token [of u TRBrace] by simp_all

lemma lex_indent: "spaced ts \<Longrightarrow> lex_json (indent d need ts) = Some (map coerce_token ts)"
proof (induction ts arbitrary: d need)
  case Nil
  then show ?case by simp
next
  case (Cons t ts)
  then have IH: "lex_json (indent d need ts) = Some (map coerce_token ts)" for d need by simp
  show ?case
  proof (cases "is_lit t")
    case True
    then obtain v where v: "t = TLit v" by (cases t) auto
    with Cons.prems have "num_end (indent d need ts)" for d need by (intro num_end_indent) auto
    with v Cons.prems IH show ?thesis
      using lex_token [where t = t] by (simp add: Let_def)
  next
    case False
    then have "lex_json (token_text t @ u) = map_option ((#) (coerce_token t)) (lex_json u)" for u
      by (intro lex_token) (cases t, simp_all)
    with IH show ?thesis by (simp add: Let_def lex_close)
  qed
qed

theorem parse_print_indented:
  assumes "lits_ok v" and "json_depth v \<le> max_depth"
  shows "parse_json (print_indented v) = Some (coerce_json v)"
proof -
  have "spaced (tokens v)" using spaced_tokens [OF assms(1), of "[]"] by (simp add: open_end_def)
  then have "lex_json (print_indented v) = Some (tokens (coerce_json v))"
    by (simp add: print_indented_def lex_indent tokens_coerce)
  moreover have "scan (tokens (coerce_json v)) (WantValue, []) = Some (Have (coerce_json v), [])"
    using scan_tokens [of "coerce_json v" "[]" "[]"] assms(2) by simp
  ultimately show ?thesis by (simp add: parse_json_def parse_tokens_def)
qed

end
