(* ===== verification/Messages.thy ===== *)
theory Messages
  imports Errors JsonText
begin

text \<open>
  Messages (\<open>Message\<close> of \<open>types.go\<close>), with properties that are JSON values (theory JsonText).
\<close>

text \<open>
  A slice or map that Go distinguishes from nil is an option: \<open>None\<close> is nil.
\<close>

record message =
  m_topic :: string
  m_payload :: "payload option"
  m_qos :: byte
  m_retained :: bool
  m_duplicate :: bool
  m_id :: u16
  m_timestamp :: int
  m_properties :: "(string, json) gomap option"

definition payload_bytes :: "payload option \<Rightarrow> payload" where
  "payload_bytes p = (case p of None \<Rightarrow> [] | Some bs \<Rightarrow> bs)"

text \<open>
  A compiled \<open>regexp.Regexp\<close> is represented by the two methods the code calls:
  \<open>MatchString\<close> and \<open>ReplaceAllString\<close>.
\<close>

datatype regex = Regex (re_match: "string \<Rightarrow> bool") (re_replace: "string \<Rightarrow> string \<Rightarrow> string")

text \<open>How a Go call ends: with a result, with an error value, or by a panic.\<close>

datatype 'a outcome = Panic | Fail goerr | Done 'a

definition wrap_outcome :: "string \<Rightarrow> goerr \<Rightarrow> 'a outcome" where
  "wrap_outcome msg e = Fail (WrapErr (msg @ '': '' @ err_text e) e)"

lemma wrap_outcome_is_wrapError: "wrap_outcome msg e = Fail (the (wrapError (Some e) msg))"
  by (simp add: wrap_outcome_def wrapError_def)

end
