(* ===== verification/Encodings.thy ===== *)
theory Encodings
  imports Prelude
begin

text \<open>
  The texts of the two Go types that \<open>encoding/json\<close> writes as strings of their own: base64 for a
  byte slice (\<open>base64.StdEncoding\<close>) and RFC 3339 for a \<open>time.Time\<close>, each with the proof that
  reading it gives the value back.
\<close>

subsection \<open>Base64\<close>

definition b64_char :: "nat \<Rightarrow> char" where
  "b64_char n =
     (if n < 26 then char_of (n + 65)
      else if n < 52 then char_of (n + 71)
      else if n < 62 then char_of (n - 4)
      else if n = 62 then CHR ''+'' else CHR ''/'')"

definition b64_value :: "char \<Rightarrow> nat option" where
  "b64_value c =
     (let b = byte_at c
      in if 65 \<le> b \<and> b \<le> 90 then Some (b - 65)
         else if 97 \<le> b \<and> b \<le> 122 then Some (b - 71)
         else if 48 \<le> b \<and> b \<le> 57 then Some (b + 4)
         else if b = 43 then Some 62
         else if b = 47 then Some 63
         else None)"

fun b64_encode :: "string \<Rightarrow> string" where
  "b64_encode [] = []"
| "b64_encode [a] =
     [b64_char (byte_at a div 4), b64_char (byte_at a mod 4 * 16), CHR ''='', CHR ''='']"
| "b64_encode [a, b] =
     [b64_char (byte_at a div 4), b64_char (byte_at a mod 4 * 16 + byte_at b div 16),
      b64_char (byte_at b mod 16 * 4), CHR ''='']"
| "b64_encode (a # b # c # s) =
     b64_char (byte_at a div 4) # b64_char (byte_at a mod 4 * 16 + byte_at b div 16)
     # b64_char (byte_at b mod 16 * 4 + byte_at c div 64) # b64_char (byte_at c mod 64) # b64_encode s"

text \<open>Groups of four; only the last may be padded, and the bits left over are not looked at.\<close>

fun b64_groups :: "string \<Rightarrow> string option" where
  "b64_groups [] = Some []"
| "b64_groups (a # b # c # d # s) =
     (case (b64_value a, b64_value b) of
        (Some w, Some x) \<Rightarrow>
          if s = [] \<and> d = CHR ''='' \<and> c = CHR ''='' then Some [char_of (w * 4 + x div 16)]
          else
            (case b64_value c of None \<Rightarrow> None
             | Some y \<Rightarrow>
                 if s = [] \<and> d = CHR ''=''
                 then Some [char_of (w * 4 + x div 16), char_of (x mod 16 * 16 + y div 4)]
                 else
                   (case b64_value d of None \<Rightarrow> None
                    | Some z \<Rightarrow>
                        map_option ((@) [char_of (w * 4 + x div 16), char_of (x mod 16 * 16 + y div 4),
                                        char_of (y mod 4 * 64 + z)]) (b64_groups s)))
      | _ \<Rightarrow> None)"
| "b64_groups _ = None"

text \<open>Line breaks in the text are skipped.\<close>

definition b64_decode :: "string \<Rightarrow> string option" where
  "b64_decode s = b64_groups (filter (\<lambda>c. byte_at c \<noteq> 10 \<and> byte_at c \<noteq> 13) s)"

lemma b64_table:
  assumes "n < 64"
  shows "b64_value (b64_char n) = Some n" and "byte_at (b64_char n) \<in> {43..122}"
  using assms by (auto simp: b64_value_def b64_char_def Let_def)

lemma b64_value_pad: "b64_value (CHR ''='') = None"
  by (simp add: b64_value_def)

lemma b64_char_not_pad: "n < 64 \<Longrightarrow> b64_char n \<noteq> CHR ''=''"
  using b64_table(1) [of n] b64_value_pad by auto

lemma byte_parts:
  "byte_at b div 16 < 16" "byte_at b div 64 < 4" "byte_at b div 4 < 64"
  "byte_at b div 16 div 16 = 0" "byte_at b div 64 div 4 = 0"
  "byte_at b div 16 mod 16 = byte_at b div 16" "byte_at b div 64 mod 4 = byte_at b div 64"
proof -
  have "byte_at b < 256" by simp
  then show "byte_at b div 16 < 16" "byte_at b div 64 < 4" "byte_at b div 4 < 64" by linarith+
  then show "byte_at b div 16 div 16 = 0" "byte_at b div 64 div 4 = 0"
    "byte_at b div 16 mod 16 = byte_at b div 16" "byte_at b div 64 mod 4 = byte_at b div 64" by simp_all
qed

lemma sextet_bounds:
  "byte_at a mod 4 * 16 + byte_at b div 16 < 64" "byte_at a mod 4 * 16 < 64"
  "byte_at b mod 16 * 4 + byte_at c div 64 < 64" "byte_at b mod 16 * 4 < 64"
proof -
  have "byte_at a mod 4 < 4" "byte_at b mod 16 < 16" by simp_all
  with byte_parts(1) [of b] byte_parts(2) [of c]
  show "byte_at a mod 4 * 16 + byte_at b div 16 < 64" "byte_at a mod 4 * 16 < 64"
    "byte_at b mod 16 * 4 + byte_at c div 64 < 64" "byte_at b mod 16 * 4 < 64"
    by linarith+
qed

lemma b64_groups_encode: "b64_groups (b64_encode s) = Some s"
  by (induction s rule: b64_encode.induct)
    (simp_all add: b64_table(1) b64_char_not_pad b64_value_pad byte_parts sextet_bounds)

lemma b64_encode_chars: "c \<in> set (b64_encode s) \<Longrightarrow> byte_at c \<in> {43..122}"
  by (induction s rule: b64_encode.induct)
    (auto simp: byte_parts sextet_bounds simp del: atLeastAtMost_iff intro!: b64_table(2), simp_all)

lemma b64_roundtrip: "b64_decode (b64_encode s) = Some s"
proof -
  have "filter (\<lambda>c. byte_at c \<noteq> 10 \<and> byte_at c \<noteq> 13) (b64_encode s) = b64_encode s"
    by (rule filter_True) (auto dest: b64_encode_chars)
  then show ?thesis by (simp add: b64_decode_def b64_groups_encode)
qed

subsection \<open>The calendar\<close>

text \<open>
  Days are counted from 1970-01-01, which is day 719162 of the proleptic Gregorian calendar counted
  from 0001-01-01.
\<close>

definition leap_year :: "int \<Rightarrow> bool" where
  "leap_year y \<longleftrightarrow> y mod 4 = 0 \<and> (y mod 100 \<noteq> 0 \<or> y mod 400 = 0)"

definition month_lengths :: "int \<Rightarrow> int list" where
  "month_lengths y = [31, if leap_year y then 29 else 28, 31, 30, 31, 30, 31, 31, 30, 31, 30, 31]"

text \<open>The day of a date.\<close>

definition days_of_date :: "int \<Rightarrow> int \<Rightarrow> int \<Rightarrow> int" where
  "days_of_date y m d =
     (let p = y - 1
      in 365 * p + p div 4 - p div 100 + p div 400
         + sum_list (take (nat (m - 1)) (month_lengths y)) + (d - 1) - 719162)"

text \<open>The date of a day: the cycles of 400, 100, 4 and 1 years, then the month.\<close>

fun find_month :: "int list \<Rightarrow> int \<Rightarrow> int \<Rightarrow> int \<times> int" where
  "find_month [] d m = (m, d + 1)"
| "find_month (l # ls) d m = (if d < l then (m, d + 1) else find_month ls (d - l) (m + 1))"

definition year_of_day :: "int \<Rightarrow> int \<times> int" where
  "year_of_day z =
     (let n400 = z div 146097; r = z mod 146097;
          n100 = min 3 (r div 36524); r1 = r - 36524 * n100;
          n4 = r1 div 1461; r2 = r1 mod 1461;
          n1 = min 3 (r2 div 365)
      in (400 * n400 + 100 * n100 + 4 * n4 + n1 + 1, r2 - 365 * n1))"

definition date_of_days :: "int \<Rightarrow> int \<times> int \<times> int" where
  "date_of_days n =
     (case year_of_day (n + 719162) of (y, k) \<Rightarrow> (y, find_month (month_lengths y) k 1))"

lemma find_month_correct:
  assumes "find_month ls d m = (m', d')" and "0 \<le> d" and "d < sum_list ls"
  shows "m \<le> m' \<and> m' < m + int (length ls) \<and> sum_list (take (nat (m' - m)) ls) + (d' - 1) = d
    \<and> 1 \<le> d' \<and> d' \<le> ls ! nat (m' - m)"
  using assms
proof (induction ls d m rule: find_month.induct)
  case (2 l ls d m)
  show ?case
  proof (cases "d < l")
    case True
    with 2 show ?thesis by auto
  next
    case False
    with 2 have IH: "m + 1 \<le> m'" "m' < m + 1 + int (length ls)"
        "sum_list (take (nat (m' - (m + 1))) ls) + (d' - 1) = d - l" "1 \<le> d'" "d' \<le> ls ! nat (m' - (m + 1))"
      by auto
    from IH(1) have "nat (m' - m) = Suc (nat (m' - (m + 1)))" by simp
    with IH show ?thesis by simp
  qed
qed simp

text \<open>The last cycle of \<open>m + 1\<close> may be one day longer than the others.\<close>

lemma short_cycle:
  fixes r :: int
  assumes "0 \<le> r" and "r < c" and "c = (m + 1) * b + 1" and "0 \<le> m" and "0 < b"
  shows "0 \<le> min m (r div b)" and "min m (r div b) \<le> m" and "0 \<le> r - b * min m (r div b)"
    and "r - b * min m (r div b) \<le> b" and "min m (r div b) < m \<Longrightarrow> r - b * min m (r div b) < b"
proof -
  show "0 \<le> min m (r div b)" "min m (r div b) \<le> m"
    using assms by (simp_all add: pos_imp_zdiv_nonneg_iff)
  have lt: "r - b * (r div b) < b" "0 \<le> r - b * (r div b)"
    using assms(5) by (simp_all add: minus_mult_div_eq_mod)
  have "b * (r div b) \<le> r" using lt(2) by simp
  then have bm: "b * m \<le> r" if "m \<le> r div b"
    using that assms(5) by (meson mult_le_cancel_left_pos order_trans)
  have top: "r - b * m \<le> b" using assms(2,3) by (simp add: algebra_simps)
  show "0 \<le> r - b * min m (r div b)" using lt(2) bm by (cases "m \<le> r div b") (simp_all add: min_def)
  show "r - b * min m (r div b) \<le> b" using lt(1) top by (cases "m \<le> r div b") (simp_all add: min_def)
  show "r - b * min m (r div b) < b" if "min m (r div b) < m"
    using that lt(1) by (cases "m \<le> r div b") (simp_all add: min_def)
qed

text \<open>The cycles of a day number, with what bounds them.\<close>

lemma year_of_dayE:
  assumes "year_of_day z = (y, k)"
  obtains n400 n100 n4 n1 where "y - 1 = 400 * n400 + 100 * n100 + 4 * n4 + n1"
    and "z = 146097 * n400 + 36524 * n100 + 1461 * n4 + 365 * n1 + k"
    and "0 \<le> n100" "n100 \<le> 3" "0 \<le> n4" "n4 \<le> 24" "0 \<le> n1" "n1 \<le> 3" "0 \<le> k"
    and "k \<le> 365" and "k = 365 \<Longrightarrow> n1 = 3 \<and> (n4 = 24 \<longrightarrow> n100 = 3)"
proof -
  define n400 where "n400 = z div 146097"
  define r where "r = z mod 146097"
  define n100 where "n100 = min 3 (r div 36524)"
  define r1 where "r1 = r - 36524 * n100"
  define n4 where "n4 = r1 div 1461"
  define r2 where "r2 = r1 mod 1461"
  define n1 where "n1 = min 3 (r2 div 365)"
  note defs = n400_def r_def n100_def r1_def n4_def r2_def n1_def
  have yk: "y = 400 * n400 + 100 * n100 + 4 * n4 + n1 + 1" "k = r2 - 365 * n1"
    using assms unfolding year_of_day_def Let_def defs prod.inject by blast+
  have z: "z = 146097 * n400 + r" and r: "0 \<le> r" "r < 146097" by (simp_all add: n400_def r_def)
  have "(146097 :: int) = (3 + 1) * 36524 + 1" "0 \<le> (3 :: int)" "0 < (36524 :: int)" by simp_all
  from short_cycle [OF r this, folded n100_def, folded r1_def]
  have r1: "0 \<le> n100" "n100 \<le> 3" "0 \<le> r1" "r1 \<le> 36524" "n100 < 3 \<Longrightarrow> r1 < 36524" by blast+
  have r2: "r1 = 1461 * n4 + r2" "0 \<le> r2" "r2 < 1461" by (simp_all add: n4_def r2_def)
  have n4: "0 \<le> n4" "n4 \<le> 24" using r1(3) r1(4) r2 by linarith+
  have "(1461 :: int) = (3 + 1) * 365 + 1" "0 \<le> (3 :: int)" "0 < (365 :: int)" by simp_all
  from short_cycle [OF r2(2,3) this, folded n1_def, folded yk(2)]
  have n1: "0 \<le> n1" "n1 \<le> 3" "0 \<le> k" "k \<le> 365" and less: "n1 < 3 \<Longrightarrow> k < 365" by blast+
  have k365: "n1 = 3 \<and> r2 = 1460" if "k = 365" using that less n1(2) yk(2) by (cases "n1 < 3") auto
  have "n100 = 3" if "k = 365" "n4 = 24"
    using that k365 r1(2,4,5) r2(1) by (cases "n100 < 3") auto
  show ?thesis
  proof (rule that [of n400 n100 n4 n1])
    show "y - 1 = 400 * n400 + 100 * n100 + 4 * n4 + n1" using yk(1) by simp
    show "z = 146097 * n400 + 36524 * n100 + 1461 * n4 + 365 * n1 + k"
      using z r1_def r2(1) yk(2) by linarith
    show "n1 = 3 \<and> (n4 = 24 \<longrightarrow> n100 = 3)" if "k = 365"
      using k365 [OF that] \<open>k = 365 \<Longrightarrow> n4 = 24 \<Longrightarrow> n100 = 3\<close> [OF that] by blast
  qed (fact r1(1) r1(2) n4 n1)+
qed

lemma year_of_day_correct:
  assumes "year_of_day z = (y, k)"
  shows "365 * (y - 1) + (y - 1) div 4 - (y - 1) div 100 + (y - 1) div 400 + k = z
    \<and> 0 \<le> k \<and> k < (if leap_year y then 366 else 365)"
  using assms
proof (rule year_of_dayE)
  fix n400 n100 n4 n1 :: int
  assume y: "y - 1 = 400 * n400 + 100 * n100 + 4 * n4 + n1"
    and z: "z = 146097 * n400 + 36524 * n100 + 1461 * n4 + 365 * n1 + k"
    and b: "0 \<le> n100" "n100 \<le> 3" "0 \<le> n4" "n4 \<le> 24" "0 \<le> n1" "n1 \<le> 3" "0 \<le> k"
      "k \<le> 365" "k = 365 \<Longrightarrow> n1 = 3 \<and> (n4 = 24 \<longrightarrow> n100 = 3)"
  have d4: "(y - 1) div 4 = 100 * n400 + 25 * n100 + n4"
    and d100: "(y - 1) div 100 = 4 * n400 + n100" and d400: "(y - 1) div 400 = n400"
    using y b(1-6)
    by (auto intro: int_div_pos_eq [where r = n1] int_div_pos_eq [where r = "4 * n4 + n1"]
        int_div_pos_eq [where r = "100 * n100 + 4 * n4 + n1"])
  have "leap_year y" if "k = 365"
  proof -
    from b(9) that have n: "n1 = 3" "n4 = 24 \<Longrightarrow> n100 = 3" by auto
    from y n(1) have y': "y = 4 * (100 * n400 + 25 * n100 + (n4 + 1))" by simp
    have "y mod 100 \<noteq> 0 \<or> y mod 400 = 0"
    proof (cases "n4 = 24")
      case True
      with n(2) y' have "y = 400 * (n400 + 1)" by simp
      then show ?thesis by simp
    next
      case False
      with b(3,4) have "0 < 4 * (n4 + 1)" "4 * (n4 + 1) < 100" by simp_all
      moreover have "y mod 100 = 4 * (n4 + 1) mod 100"
      proof -
        have "y = 4 * (n4 + 1) + 100 * (4 * n400 + n100)" using y' by simp
        then show ?thesis by (simp only: mod_mult_self2)
      qed
      ultimately show ?thesis by simp
    qed
    with y' show ?thesis by (simp add: leap_year_def)
  qed
  moreover have "k < 365" if "k \<noteq> 365" using that b(8) by simp
  ultimately have "k < (if leap_year y then 366 else 365)" by (cases "k = 365") auto
  moreover have "365 * (y - 1) + (y - 1) div 4 - (y - 1) div 100 + (y - 1) div 400 + k = z"
    unfolding d4 d100 d400 unfolding y z by (simp add: algebra_simps)
  ultimately show ?thesis using b(7) by simp
qed

lemma sum_month_lengths: "sum_list (month_lengths y) = (if leap_year y then 366 else 365)"
  by (simp add: month_lengths_def)

lemma date_roundtrip:
  assumes "date_of_days n = (y, m, d)"
  shows "days_of_date y m d = n \<and> 1 \<le> m \<and> m \<le> 12 \<and> 1 \<le> d \<and> d \<le> month_lengths y ! nat (m - 1)"
proof -
  obtain k where k: "year_of_day (n + 719162) = (y, k)" "find_month (month_lengths y) k 1 = (m, d)"
    using assms by (auto simp: date_of_days_def split: prod.splits)
  note y = year_of_day_correct [OF k(1)]
  have len: "length (month_lengths y) = 12" by (simp add: month_lengths_def)
  have "0 \<le> k" "k < sum_list (month_lengths y)" using y by (simp_all add: sum_month_lengths)
  from find_month_correct [OF k(2) this] len
  have m: "1 \<le> m \<and> m \<le> 12 \<and> 1 \<le> d \<and> d \<le> month_lengths y ! nat (m - 1)"
    and s: "sum_list (take (nat (m - 1)) (month_lengths y)) + (d - 1) = k" by simp_all
  have "days_of_date y m d = n" using y s unfolding days_of_date_def Let_def by linarith
  with m show ?thesis by blast
qed

subsection \<open>RFC 3339\<close>

text \<open>\<open>k\<close> decimal digits.\<close>

fun pad :: "nat \<Rightarrow> nat \<Rightarrow> string" where
  "pad 0 n = []"
| "pad (Suc k) n = pad k (n div 10) @ [char_of (48 + n mod 10)]"

text \<open>The nanoseconds: no fraction for none, and no zeros at the end.\<close>

definition trim_zeros :: "string \<Rightarrow> string" where
  "trim_zeros s = rev (dropWhile (\<lambda>c. c = CHR ''0'') (rev s))"

definition fraction_text :: "nat \<Rightarrow> string" where
  "fraction_text n = (if n = 0 then [] else CHR ''.'' # trim_zeros (pad 9 n))"

text \<open>
  \<open>Time.MarshalJSON\<close> of an instant, in nanoseconds since 1970, as seen in UTC: a time in another
  zone differs in how the same instant is written.
\<close>

definition time_text :: "int \<Rightarrow> string" where
  "time_text t =
     (let n = t mod 1000000000; sec = t div 1000000000; s = nat (sec mod 86400)
      in case date_of_days (sec div 86400) of (y, m, d) \<Rightarrow>
           pad 4 (nat y) @ ''-'' @ pad 2 (nat m) @ ''-'' @ pad 2 (nat d) @ ''T''
           @ pad 2 (s div 3600) @ '':'' @ pad 2 (s div 60 mod 60) @ '':'' @ pad 2 (s mod 60)
           @ fraction_text (nat n) @ ''Z'')"

text \<open>A field of \<open>k\<close> digits within bounds, one character, and the rest.\<close>

definition field :: "nat \<Rightarrow> int \<Rightarrow> int \<Rightarrow> string \<Rightarrow> (int \<times> string) option" where
  "field k lo hi s =
     (let ds = take k s; v = int (digits_value ds)
      in if length ds = k \<and> list_all is_digit ds \<and> lo \<le> v \<and> v \<le> hi then Some (v, drop k s) else None)"

definition eat :: "char \<Rightarrow> string \<Rightarrow> string option" where
  "eat c s = (if take 1 s = [c] then Some (drop 1 s) else None)"

definition fraction :: "string \<Rightarrow> int \<times> string" where
  "fraction s =
     (let ds = takeWhile is_digit (drop 1 s)
      in if take 1 s = ''.'' \<and> ds \<noteq> []
         then (int (digits_value (take 9 (ds @ replicate 9 (CHR ''0'')))), dropWhile is_digit (drop 1 s))
         else (0, s))"

text \<open>The offset of the zone in seconds, at the end of the text.\<close>

definition zone :: "string \<Rightarrow> int option" where
  "zone s =
     (if s = ''Z'' then Some 0
      else if take 1 s = ''+'' \<or> take 1 s = ''-'' then
        Option.bind (field 2 0 23 (drop 1 s)) (\<lambda>(h, s1).
        Option.bind (eat (CHR '':'') s1) (\<lambda>s2.
        Option.bind (field 2 0 59 s2) (\<lambda>(m, s3).
          if s3 \<noteq> [] then None
          else Some (if take 1 s = ''-'' then - (3600 * h + 60 * m) else 3600 * h + 60 * m))))
      else None)"

text \<open>\<open>Time.UnmarshalJSON\<close> on the text between the quotes.\<close>

definition parse_time :: "string \<Rightarrow> int option" where
  "parse_time s =
     Option.bind (field 4 0 9999 s) (\<lambda>(y, s).
     Option.bind (eat (CHR ''-'') s) (\<lambda>s.
     Option.bind (field 2 1 12 s) (\<lambda>(m, s).
     Option.bind (eat (CHR ''-'') s) (\<lambda>s.
     Option.bind (field 2 1 (month_lengths y ! nat (m - 1)) s) (\<lambda>(d, s).
     Option.bind (eat (CHR ''T'') s) (\<lambda>s.
     Option.bind (field 2 0 23 s) (\<lambda>(h, s).
     Option.bind (eat (CHR '':'') s) (\<lambda>s.
     Option.bind (field 2 0 59 s) (\<lambda>(mi, s).
     Option.bind (eat (CHR '':'') s) (\<lambda>s.
     Option.bind (field 2 0 59 s) (\<lambda>(sec, s).
     (case fraction s of (n, s) \<Rightarrow>
     Option.bind (zone s) (\<lambda>z.
       Some (1000000000 * (86400 * days_of_date y m d + 3600 * h + 60 * mi + sec - z) + n))))))))))))))"

lemma length_pad [simp]: "length (pad k n) = k"
  by (induction k arbitrary: n) auto

lemma pad_digits: "list_all is_digit (pad k n)"
  by (induction k arbitrary: n) (auto simp: is_digit_def)

lemma pad_value: "n < 10 ^ k \<Longrightarrow> digits_value (pad k n) = n"
proof (induction k arbitrary: n)
  case 0
  then show ?case by (simp add: digits_value_def)
next
  case (Suc k)
  then have "n div 10 < 10 ^ k" by (simp add: less_mult_imp_div_less mult.commute)
  with Suc show ?case by (simp add: digits_value_snoc)
qed

lemma field_pad:
  "n < 10 ^ k \<Longrightarrow> lo \<le> int n \<Longrightarrow> int n \<le> hi \<Longrightarrow> field k lo hi (pad k n @ u) = Some (int n, u)"
  by (simp add: field_def Let_def pad_digits pad_value)

lemma eat_Cons [simp]: "eat c (c # s) = Some s"
  by (simp add: eat_def)

lemma trim_zeros_fill: "trim_zeros s @ replicate (length s - length (trim_zeros s)) (CHR ''0'') = s"
proof -
  let ?z = "\<lambda>c. c = CHR ''0''"
  have "takeWhile ?z (rev s) = replicate (length (takeWhile ?z (rev s))) (CHR ''0'')"
    by (rule replicate_eqI) (auto dest: set_takeWhileD)
  moreover have "s = rev (dropWhile ?z (rev s)) @ rev (takeWhile ?z (rev s))"
    by (metis rev_append rev_rev_ident takeWhile_dropWhile_id)
  moreover have "length s = length (dropWhile ?z (rev s)) + length (takeWhile ?z (rev s))"
    by (metis add.commute length_append length_rev takeWhile_dropWhile_id)
  ultimately show ?thesis unfolding trim_zeros_def
    by (metis add_diff_cancel_left' length_rev rev_replicate)
qed

lemma trim_zeros_length: "length (trim_zeros s) \<le> length s"
  using length_dropWhile_le [of _ "rev s"] by (simp add: trim_zeros_def)

lemma zeros_value: "digits_value (replicate k (CHR ''0'')) = 0"
  by (induction k) (simp_all add: digits_value_def)

lemma fraction_roundtrip:
  assumes "n < 10 ^ 9" and "\<not> is_digit c" and "c \<noteq> CHR ''.''"
  shows "fraction (fraction_text n @ c # u) = (int n, c # u)"
proof (cases "n = 0")
  case True
  with assms show ?thesis by (simp add: fraction_def fraction_text_def Let_def)
next
  case False
  let ?s = "trim_zeros (pad 9 n)"
  have fill: "take 9 (?s @ replicate 9 (CHR ''0'')) = pad 9 n"
  proof -
    have "take 9 (?s @ replicate 9 (CHR ''0'')) = ?s @ replicate (9 - length ?s) (CHR ''0'')"
      using trim_zeros_length [of "pad 9 n"] by (simp add: min_def)
    with trim_zeros_fill [of "pad 9 n"] show ?thesis by simp
  qed
  have "?s \<noteq> []"
  proof
    assume "?s = []"
    with fill have "pad 9 n = replicate 9 (CHR ''0'')" by simp
    then have "digits_value (pad 9 n) = digits_value (replicate 9 (CHR ''0''))" by simp
    with pad_value [OF assms(1)] False show False by (simp add: zeros_value del: pad.simps)
  qed
  moreover have "list_all is_digit ?s"
    using pad_digits [of 9 n] set_dropWhileD by (fastforce simp: list_all_iff trim_zeros_def)
  then have "takeWhile is_digit (?s @ c # u) = ?s" "dropWhile is_digit (?s @ c # u) = c # u"
    using assms(2) by (auto simp: list_all_iff)
  ultimately show ?thesis
    using fill pad_value [OF assms(1)] False by (simp add: fraction_def fraction_text_def Let_def)
qed

lemma year_range:
  assumes "year_of_day z = (y, k)" and "- 366 \<le> z" and "z < 3652059"
  shows "0 \<le> y \<and> y \<le> 9999"
  using assms(1)
proof (rule year_of_dayE)
  fix n400 n100 n4 n1 :: int
  assume y: "y - 1 = 400 * n400 + 100 * n100 + 4 * n4 + n1"
    and z: "z = 146097 * n400 + 36524 * n100 + 1461 * n4 + 365 * n1 + k"
    and b: "0 \<le> n100" "n100 \<le> 3" "0 \<le> n4" "n4 \<le> 24" "0 \<le> n1" "n1 \<le> 3" "0 \<le> k" "k \<le> 365"
    and k: "k = 365 \<Longrightarrow> n1 = 3 \<and> (n4 = 24 \<longrightarrow> n100 = 3)"
  have lo: "- 1 \<le> n400" and hi: "n400 \<le> 24" using z b assms(2,3) by linarith+
  have "0 \<le> y"
  proof (cases "n400 = - 1")
    case True
    with z b assms(2) have "n100 = 3" "n4 = 24" by linarith+
    moreover have "n1 = 3"
    proof (rule ccontr)
      assume "n1 \<noteq> 3"
      with k have "k \<noteq> 365" by blast
      with b \<open>n1 \<noteq> 3\<close> have "k \<le> 364" "n1 \<le> 2" by linarith+
      with True z b assms(2) show False by linarith
    qed
    ultimately show ?thesis using y True by simp
  next
    case False
    with lo y b show ?thesis by linarith
  qed
  moreover have "y \<le> 9999"
  proof (rule ccontr)
    assume "\<not> y \<le> 9999"
    with y b hi have "n400 = 24" "n100 = 3" "n4 = 24" "n1 = 3" by linarith+
    with z b assms(3) show False by linarith
  qed
  ultimately show ?thesis by simp
qed

lemma month_length_bound: "month_lengths y ! nat (m - 1) \<le> 31" if "1 \<le> m" "m \<le> 12"
proof -
  from that have "nat (m - 1) < length (month_lengths y)" by (simp add: month_lengths_def)
  then have "month_lengths y ! nat (m - 1) \<in> set (month_lengths y)" by (rule nth_mem)
  then show ?thesis by (auto simp: month_lengths_def split: if_splits)
qed

lemma clock_parts:
  fixes s :: nat
  assumes "s < 86400"
  shows "s div 3600 \<le> 23" "s div 60 mod 60 \<le> 59" "s mod 60 \<le> 59"
    and "3600 * (s div 3600) + 60 * (s div 60 mod 60) + s mod 60 = s"
proof -
  show "s div 3600 \<le> 23" "s div 60 mod 60 \<le> 59" "s mod 60 \<le> 59" using assms by simp_all
  have "s div 3600 = s div 60 div 60" by (simp add: div_mult2_eq)
  moreover have "60 * (s div 60 div 60) + s div 60 mod 60 = s div 60" by (rule mult_div_mod_eq)
  moreover have "60 * (s div 60) + s mod 60 = s" by (rule mult_div_mod_eq)
  ultimately show "3600 * (s div 3600) + 60 * (s div 60 mod 60) + s mod 60 = s" by linarith
qed

theorem time_roundtrip:
  assumes "- (62167219200 * 1000000000) \<le> t" and "t < 253402300800 * 1000000000"
  shows "parse_time (time_text t) = Some t"
proof -
  define sec where "sec = t div 1000000000"
  define n where "n = nat (t mod 1000000000)"
  define s where "s = nat (sec mod 86400)"
  obtain y m d where date: "date_of_days (sec div 86400) = (y, m, d)" by (rule prod_cases3)
  note dt = date_roundtrip [OF date]
  have t: "t = 1000000000 * sec + int n" and n: "n < 10 ^ 9" by (simp_all add: sec_def n_def)
  have "int n < 1000000000" by (simp add: n_def)
  have sec: "sec = 86400 * (sec div 86400) + int s" and s: "s < 86400" by (simp_all add: s_def)
  have "- 62167219200 \<le> sec" "sec < 253402300800" using assms t \<open>int n < 1000000000\<close> by linarith+
  then have "- 719528 \<le> sec div 86400" "sec div 86400 < 2932897" using sec s by linarith+
  moreover obtain k where "year_of_day (sec div 86400 + 719162) = (y, k)"
    using date by (auto simp: date_of_days_def split: prod.splits)
  ultimately have y: "0 \<le> y" "y \<le> 9999" using year_range [of "sec div 86400 + 719162" y k] by simp_all
  have f4: "field 4 0 9999 (pad 4 (nat y) @ u) = Some (y, u)" for u
    using y field_pad [of "nat y" 4 0 9999 u] by simp
  have fm: "field 2 1 12 (pad 2 (nat m) @ u) = Some (m, u)" for u
    using dt field_pad [of "nat m" 2 1 12 u] by simp
  have fd: "field 2 1 (month_lengths y ! nat (m - 1)) (pad 2 (nat d) @ u) = Some (d, u)" for u
    using dt month_length_bound [of m y] field_pad [of "nat d" 2 1 "month_lengths y ! nat (m - 1)" u] by simp
  note c = clock_parts [OF s]
  have fc: "field 2 0 23 (pad 2 (s div 3600) @ u) = Some (int (s div 3600), u)"
    "field 2 0 59 (pad 2 (s div 60 mod 60) @ u) = Some (int (s div 60 mod 60), u)"
    "field 2 0 59 (pad 2 (s mod 60) @ u) = Some (int (s mod 60), u)" for u
    using c(1,2,3) by (auto intro!: field_pad simp del: pad.simps)
  have fr: "fraction (fraction_text n @ ''Z'') = (int n, ''Z'')"
    using fraction_roundtrip [OF n, of "CHR ''Z''" "[]"] by (simp add: is_digit_def)
  have shown: "time_text t = pad 4 (nat y) @ ''-'' @ pad 2 (nat m) @ ''-'' @ pad 2 (nat d) @ ''T''
      @ pad 2 (s div 3600) @ '':'' @ pad 2 (s div 60 mod 60) @ '':'' @ pad 2 (s mod 60)
      @ fraction_text n @ ''Z''"
    unfolding time_text_def Let_def sec_def [symmetric] s_def [symmetric] n_def [symmetric] date by simp
  have "parse_time (time_text t)
      = Some (1000000000 * (86400 * days_of_date y m d + 3600 * int (s div 3600)
          + 60 * int (s div 60 mod 60) + int (s mod 60) - 0) + int n)"
    unfolding shown parse_time_def by (simp only: f4 fm fd fc fr append_Cons append_Nil eat_Cons
        Option.bind.bind_lunit prod.case) (simp add: zone_def)
  moreover have "86400 * days_of_date y m d + 3600 * int (s div 3600) + 60 * int (s div 60 mod 60)
      + int (s mod 60) = sec"
    using dt c(4) sec by linarith
  ultimately show ?thesis using t by simp
qed

lemma time_text_ascii: "list_all (\<lambda>c. byte_at c < 128) (time_text t)"
proof -
  have pad: "byte_at c < 128" if "c \<in> set (pad k n)" for c k n
    using that pad_digits [of k n] by (auto simp: list_all_iff is_digit_def)
  have trim: "byte_at c < 128" if "c \<in> set (trim_zeros (pad 9 n))" for c n
    using that pad [of c 9 n] set_dropWhileD by (fastforce simp: trim_zeros_def)
  show ?thesis
    by (auto simp: list_all_iff time_text_def Let_def fraction_text_def dest!: pad trim split: prod.splits
        simp del: pad.simps)
qed

end
