(* ===== verification/Codec.thy ===== *)
theory Codec
  imports Messages Encodings Floats
begin

text \<open>
  The JSON form of a session state (\<open>SessionState\<close>, \<open>TopicSubscription\<close> and
  \<open>Message\<close> of \<open>types.go\<close> with their struct tags), as \<open>encoding/json\<close> writes and
  reads it: a struct becomes an object with a field for each member, a byte slice its base64 text, a
  time its RFC 3339 text, a map an object with its keys in order; theory JsonText has the text of the
  resulting value. The main fact is that reading the text of a state gives the state back.
\<close>

subsection \<open>The data\<close>

record topic_subscription =
  ts_topic :: string
  ts_qos :: byte

record session_state =
  st_topics :: "topic_subscription list option"
  st_messages :: "message option list option"
  st_sequence :: u64
  st_connected :: int
  st_disconnected :: int
  st_qos_messages :: "(u16, message option) gomap option"
  st_retained :: "(string, message option) gomap option"
  st_client :: string
  st_expiry :: int
  st_version :: int

text \<open>The zero \<open>time.Time\<close>, in nanoseconds since 1970.\<close>

definition zero_time :: int where "zero_time = - (62135596800 * second)"

definition IsZero :: "int \<Rightarrow> bool" where "IsZero t \<longleftrightarrow> t = zero_time"

subsection \<open>Results with errors\<close>

definition bindE :: "'e + 'a \<Rightarrow> ('a \<Rightarrow> 'e + 'b) \<Rightarrow> 'e + 'b" where
  "bindE r f = (case r of Inl e \<Rightarrow> Inl e | Inr x \<Rightarrow> f x)"

lemma bindE_simps [simp]: "bindE (Inl e) f = Inl e" "bindE (Inr x) f = f x"
  by (simp_all add: bindE_def)

fun traverse :: "('a \<Rightarrow> 'e + 'b) \<Rightarrow> 'a list \<Rightarrow> 'e + 'b list" where
  "traverse f [] = Inr []"
| "traverse f (x # xs) = bindE (f x) (\<lambda>y. bindE (traverse f xs) (\<lambda>ys. Inr (y # ys)))"

lemma bindE_Inr: "bindE r f = Inr y \<longleftrightarrow> (\<exists>x. r = Inr x \<and> f x = Inr y)"
  by (cases r) simp_all

lemma traverse_Inr:
  "traverse f xs = Inr ys \<Longrightarrow> (\<And>x y. x \<in> set xs \<Longrightarrow> f x = Inr y \<Longrightarrow> g y = Inr x) \<Longrightarrow>
     traverse g ys = Inr xs"
proof (induction xs arbitrary: ys)
  case Nil
  then show ?case by simp
next
  case (Cons x xs)
  from Cons.prems(1) obtain y zs where y: "f x = Inr y" "traverse f xs = Inr zs" "ys = y # zs"
    by (auto simp: bindE_Inr)
  from Cons.prems(2) [OF _ y(1)] have "g y = Inr x" by simp
  moreover have "traverse g zs = Inr xs" by (rule Cons.IH [OF y(2)]) (simp add: Cons.prems(2))
  ultimately show ?case by (simp add: y(3))
qed

subsection \<open>Values of any type\<close>

text \<open>
  A value in an \<open>interface{}\<close> is written with the entries of its maps in order. Read into one, a
  number becomes a \<open>float64\<close> (a literal that is not an integer is kept for the float it denotes), and
  of a repeated key the last entry counts.
\<close>

fun sort_value :: "json \<Rightarrow> json" where
  "sort_value (JArr xs) = JArr (map sort_value xs)"
| "sort_value (JObj kvs) = JObj (sort_keys (map (\<lambda>(k, v). (k, sort_value v)) kvs))"
| "sort_value v = v"

definition float_int :: "int \<Rightarrow> int option" where
  "float_int n = (case round53 n 0 of Fin m e \<Rightarrow> Some (m * 2 ^ nat e) | _ \<Rightarrow> None)"

definition to_map :: "('k \<times> 'v) list \<Rightarrow> ('k, 'v) gomap" where
  "to_map kvs = fold (\<lambda>(k, v) m. mput k v m) kvs []"

fun any_value :: "json \<Rightarrow> json option" where
  "any_value (JNum n) = map_option JNum (float_int n)"
| "any_value (JArr xs) = map_option JArr (those (map any_value xs))"
| "any_value (JObj kvs) =
     map_option (\<lambda>es. JObj (to_map es)) (those (map (\<lambda>(k, v). map_option (Pair k) (any_value v)) kvs))"
| "any_value v = Some v"

text \<open>The values that are written and read without a change.\<close>

fun value_ok :: "json \<Rightarrow> bool" where
  "value_ok (JNum n) \<longleftrightarrow> \<bar>n\<bar> < 2 ^ 53"
| "value_ok (JStr s) \<longleftrightarrow> valid_utf8 s"
| "value_ok (JArr xs) \<longleftrightarrow> list_all value_ok xs"
| "value_ok (JObj kvs) \<longleftrightarrow> wf_map kvs \<and> list_all (\<lambda>(k, v). valid_utf8 k \<and> value_ok v) kvs"
| "value_ok v \<longleftrightarrow> lit_ok v"

fun in_order :: "json \<Rightarrow> bool" where
  "in_order (JArr xs) \<longleftrightarrow> list_all in_order xs"
| "in_order (JObj kvs) \<longleftrightarrow> sorted_map kvs \<and> list_all (\<lambda>(k, v). in_order v) kvs"
| "in_order v \<longleftrightarrow> True"

subsection \<open>Writing a state\<close>

text \<open>\<open>Time.MarshalJSON\<close> refuses a year outside [0,9999].\<close>

definition time_ok :: "int \<Rightarrow> bool" where
  "time_ok t \<longleftrightarrow> - (62167219200 * second) \<le> t \<and> t < 253402300800 * second"

definition enc_time :: "int \<Rightarrow> goerr + json" where
  "enc_time t =
     (if time_ok t then Inr (JStr (time_text t))
      else Inl (NewErr ''Time.MarshalJSON: year outside of range [0,9999]''))"

definition enc_message :: "message \<Rightarrow> goerr + json" where
  "enc_message m =
     bindE (enc_time (m_timestamp m)) (\<lambda>t.
       Inr (JObj
         ([(''topic'', JStr (m_topic m)),
           (''payload'', case m_payload m of None \<Rightarrow> JNull | Some p \<Rightarrow> JStr (b64_encode p)),
           (''qos'', JNum (uint (m_qos m))),
           (''retained'', JBool (m_retained m)),
           (''duplicate'', JBool (m_duplicate m)),
           (''message_id'', JNum (uint (m_id m))),
           (''timestamp'', t)]
          @ (case m_properties m of None \<Rightarrow> []
             | Some ps \<Rightarrow> if ps = [] then [] else [(''properties'', sort_value (JObj ps))]))))"

definition enc_pointer :: "('a \<Rightarrow> goerr + json) \<Rightarrow> 'a option \<Rightarrow> goerr + json" where
  "enc_pointer f p = (case p of None \<Rightarrow> Inr JNull | Some x \<Rightarrow> f x)"

definition enc_slice :: "('a \<Rightarrow> goerr + json) \<Rightarrow> 'a list option \<Rightarrow> goerr + json" where
  "enc_slice f xs =
     (case xs of None \<Rightarrow> Inr JNull | Some ys \<Rightarrow> bindE (traverse f ys) (\<lambda>js. Inr (JArr js)))"

definition enc_map ::
  "('k \<Rightarrow> string) \<Rightarrow> ('a \<Rightarrow> goerr + json) \<Rightarrow> ('k, 'a) gomap option \<Rightarrow> goerr + json" where
  "enc_map key f m =
     (case m of None \<Rightarrow> Inr JNull
      | Some kvs \<Rightarrow>
          bindE (traverse (\<lambda>(k, v). bindE (f v) (\<lambda>j. Inr (key k, j))) kvs) (\<lambda>js. Inr (JObj (sort_keys js))))"

definition enc_subscription :: "topic_subscription \<Rightarrow> goerr + json" where
  "enc_subscription s = Inr (JObj [(''topic'', JStr (ts_topic s)), (''qos'', JNum (uint (ts_qos s)))])"

definition u16_key :: "u16 \<Rightarrow> string" where
  "u16_key k = dec (unat k)"

definition enc_state :: "session_state \<Rightarrow> goerr + json" where
  "enc_state st =
     bindE (enc_slice enc_subscription (st_topics st)) (\<lambda>jt.
     bindE (enc_slice (enc_pointer enc_message) (st_messages st)) (\<lambda>jm.
     bindE (enc_time (st_connected st)) (\<lambda>jc.
     bindE (enc_time (st_disconnected st)) (\<lambda>jd.
     bindE (enc_map u16_key (enc_pointer enc_message) (st_qos_messages st)) (\<lambda>jq.
     bindE (enc_map id (enc_pointer enc_message) (st_retained st)) (\<lambda>jr.
     bindE (enc_time (st_expiry st)) (\<lambda>je.
       Inr (JObj
         [(''topics'', jt), (''messages'', jm), (''last_sequence'', JNum (uint (st_sequence st))),
          (''last_connected'', jc), (''last_disconnected'', jd), (''qos_messages'', jq),
          (''retained_messages'', jr), (''client_id'', JStr (st_client st)),
          (''session_expiry'', je), (''version'', JNum (st_version st))]))))))))"

subsection \<open>Reading\<close>

text \<open>
  A field is found by its name without regard to case, the last one winning; a missing field and
  \<open>null\<close> leave the zero value; a value of another kind is an error.
\<close>

definition lower :: "string \<Rightarrow> string" where
  "lower s = map (\<lambda>c. if of_char c \<ge> (65::nat) \<and> of_char c \<le> (90::nat) then char_of (of_char c + (32::nat)) else c) s"

definition jfield :: "string \<Rightarrow> (string \<times> json) list \<Rightarrow> json option" where
  "jfield name kvs = map_option snd (List.find (\<lambda>p. lower (fst p) = name) (rev kvs))"

definition json_type_error :: goerr where
  "json_type_error = NewErr ''json: cannot unmarshal value into Go struct field''"

definition dec_field :: "string \<Rightarrow> (string \<times> json) list \<Rightarrow> 'a \<Rightarrow> (json \<Rightarrow> goerr + 'a) \<Rightarrow> goerr + 'a" where
  "dec_field name kvs zero f =
     (case jfield name kvs of None \<Rightarrow> Inr zero | Some j \<Rightarrow> if j = JNull then Inr zero else f j)"

definition dec_string :: "json \<Rightarrow> goerr + string" where
  "dec_string j = (case j of JStr s \<Rightarrow> Inr s | _ \<Rightarrow> Inl json_type_error)"

definition dec_bool :: "json \<Rightarrow> goerr + bool" where
  "dec_bool j = (case j of JBool b \<Rightarrow> Inr b | _ \<Rightarrow> Inl json_type_error)"

definition dec_bytes :: "json \<Rightarrow> goerr + payload option" where
  "dec_bytes j = (case j of
        JStr s \<Rightarrow>
          (case b64_decode s of None \<Rightarrow> Inl (NewErr ''illegal base64 data'') | Some b \<Rightarrow> Inr (Some b))
      | _ \<Rightarrow> Inl json_type_error)"

definition dec_time :: "json \<Rightarrow> goerr + int" where
  "dec_time j = (case j of
        JStr s \<Rightarrow> (case parse_time s of None \<Rightarrow> Inl (NewErr ''parsing time'') | Some t \<Rightarrow> Inr t)
      | _ \<Rightarrow> Inl (NewErr ''Time.UnmarshalJSON: input is not a JSON string''))"

definition dec_num :: "int \<Rightarrow> int \<Rightarrow> json \<Rightarrow> goerr + int" where
  "dec_num lo hi j =
     (case j of JNum n \<Rightarrow> if lo \<le> n \<and> n < hi then Inr n else Inl json_type_error
      | _ \<Rightarrow> Inl json_type_error)"

definition dec_word :: "json \<Rightarrow> goerr + 'a::len word" where
  "dec_word j = bindE (dec_num 0 (2 ^ LENGTH('a)) j) (\<lambda>n. Inr (word_of_int n))"

definition dec_properties :: "json \<Rightarrow> goerr + (string, json) gomap option" where
  "dec_properties j = (case any_value j of
        Some (JObj ps) \<Rightarrow> Inr (Some ps)
      | _ \<Rightarrow> Inl json_type_error)"

definition dec_message :: "json \<Rightarrow> goerr + message" where
  "dec_message j =
     (case j of
        JObj kvs \<Rightarrow>
          bindE (dec_field ''topic'' kvs [] dec_string) (\<lambda>tpc.
          bindE (dec_field ''payload'' kvs None dec_bytes) (\<lambda>p.
          bindE (dec_field ''qos'' kvs 0 dec_word) (\<lambda>q.
          bindE (dec_field ''retained'' kvs False dec_bool) (\<lambda>r.
          bindE (dec_field ''duplicate'' kvs False dec_bool) (\<lambda>d.
          bindE (dec_field ''message_id'' kvs 0 dec_word) (\<lambda>i.
          bindE (dec_field ''timestamp'' kvs zero_time dec_time) (\<lambda>t.
          bindE (dec_field ''properties'' kvs None dec_properties) (\<lambda>ps.
            Inr \<lparr>m_topic = tpc, m_payload = p, m_qos = q, m_retained = r, m_duplicate = d, m_id = i,
                 m_timestamp = t, m_properties = ps\<rparr>))))))))
      | _ \<Rightarrow> Inl json_type_error)"

definition dec_pointer :: "(json \<Rightarrow> goerr + 'a) \<Rightarrow> json \<Rightarrow> goerr + 'a option" where
  "dec_pointer f j = (if j = JNull then Inr None else bindE (f j) (\<lambda>x. Inr (Some x)))"

definition dec_slice :: "(json \<Rightarrow> goerr + 'a) \<Rightarrow> json \<Rightarrow> goerr + 'a list option" where
  "dec_slice f j =
     (case j of JArr js \<Rightarrow> bindE (traverse f js) (\<lambda>xs. Inr (Some xs)) | _ \<Rightarrow> Inl json_type_error)"

definition dec_map ::
  "(string \<Rightarrow> goerr + 'k) \<Rightarrow> (json \<Rightarrow> goerr + 'a) \<Rightarrow> json \<Rightarrow> goerr + ('k, 'a) gomap option" where
  "dec_map key f j =
     (case j of
        JObj kvs \<Rightarrow>
          bindE (traverse (\<lambda>(k, v). bindE (key k) (\<lambda>k'. bindE (f v) (\<lambda>x. Inr (k', x)))) kvs)
            (\<lambda>xs. Inr (Some (to_map xs)))
      | _ \<Rightarrow> Inl json_type_error)"

definition dec_subscription :: "json \<Rightarrow> goerr + topic_subscription" where
  "dec_subscription j =
     (case j of
        JObj kvs \<Rightarrow>
          bindE (dec_field ''topic'' kvs [] dec_string) (\<lambda>tpc.
          bindE (dec_field ''qos'' kvs 0 dec_word) (\<lambda>q. Inr \<lparr>ts_topic = tpc, ts_qos = q\<rparr>))
      | JNull \<Rightarrow> Inr \<lparr>ts_topic = [], ts_qos = 0\<rparr>
      | _ \<Rightarrow> Inl json_type_error)"

text \<open>\<open>strconv.ParseUint\<close> of a map key.\<close>

definition undec :: "string \<Rightarrow> nat option" where
  "undec s =
     (if s = [] \<or> \<not> list_all is_digit s then None
      else Some (digits_value s))"

definition dec_u16_key :: "string \<Rightarrow> goerr + u16" where
  "dec_u16_key s =
     (case undec s of None \<Rightarrow> Inl json_type_error
      | Some n \<Rightarrow> if n < 2 ^ 16 then Inr (of_nat n) else Inl json_type_error)"

definition dec_state :: "json \<Rightarrow> goerr + session_state" where
  "dec_state j =
     (case j of
        JObj kvs \<Rightarrow>
          bindE (dec_field ''topics'' kvs None (dec_slice dec_subscription)) (\<lambda>tps.
          bindE (dec_field ''messages'' kvs None (dec_slice (dec_pointer dec_message))) (\<lambda>ms.
          bindE (dec_field ''last_sequence'' kvs 0 dec_word) (\<lambda>sq.
          bindE (dec_field ''last_connected'' kvs zero_time dec_time) (\<lambda>lc.
          bindE (dec_field ''last_disconnected'' kvs zero_time dec_time) (\<lambda>ld.
          bindE (dec_field ''qos_messages'' kvs None (dec_map dec_u16_key (dec_pointer dec_message))) (\<lambda>qm.
          bindE (dec_field ''retained_messages'' kvs None (dec_map Inr (dec_pointer dec_message))) (\<lambda>rm.
          bindE (dec_field ''client_id'' kvs [] dec_string) (\<lambda>c.
          bindE (dec_field ''session_expiry'' kvs zero_time dec_time) (\<lambda>ex.
          bindE (dec_field ''version'' kvs 0 (dec_num (- (2 ^ 63)) (2 ^ 63))) (\<lambda>v.
            Inr \<lparr>st_topics = tps, st_messages = ms, st_sequence = sq, st_connected = lc,
                 st_disconnected = ld, st_qos_messages = qm, st_retained = rm, st_client = c,
                 st_expiry = ex, st_version = v\<rparr>))))))))))
      | JNull \<Rightarrow> Inr \<lparr>st_topics = None, st_messages = None, st_sequence = 0, st_connected = zero_time,
                 st_disconnected = zero_time, st_qos_messages = None, st_retained = None, st_client = [],
                 st_expiry = zero_time, st_version = 0\<rparr>
      | _ \<Rightarrow> Inl json_type_error)"

subsection \<open>Payloads\<close>

text \<open>
  \<open>PayloadString\<close> and \<open>PayloadJSON\<close> of a message (\<open>route.go\<close>): \<open>into\<close> is the reading of a value into
  the type of the variable the caller passes.
\<close>

definition json_syntax_error :: goerr where
  "json_syntax_error = NewErr ''invalid character''"

definition PayloadString :: "message \<Rightarrow> string" where
  "PayloadString m = payload_bytes (m_payload m)"

definition PayloadJSON :: "(json \<Rightarrow> goerr + 'a) \<Rightarrow> message \<Rightarrow> goerr + 'a" where
  "PayloadJSON into m =
     (case parse_json (payload_bytes (m_payload m)) of
        None \<Rightarrow> Inl json_syntax_error
      | Some j \<Rightarrow> into j)"

subsection \<open>Reading undoes writing\<close>

lemma lower_names [simp]:
  "lower ''topic'' = ''topic''" "lower ''payload'' = ''payload''" "lower ''qos'' = ''qos''"
  "lower ''retained'' = ''retained''" "lower ''duplicate'' = ''duplicate''"
  "lower ''message_id'' = ''message_id''" "lower ''timestamp'' = ''timestamp''"
  "lower ''properties'' = ''properties''" "lower ''topics'' = ''topics''"
  "lower ''messages'' = ''messages''" "lower ''last_sequence'' = ''last_sequence''"
  "lower ''last_connected'' = ''last_connected''"
  "lower ''last_disconnected'' = ''last_disconnected''" "lower ''qos_messages'' = ''qos_messages''"
  "lower ''retained_messages'' = ''retained_messages''" "lower ''client_id'' = ''client_id''"
  "lower ''session_expiry'' = ''session_expiry''" "lower ''version'' = ''version''"
  by (code_simp)+

lemma to_map_wf: "wf_map kvs \<Longrightarrow> to_map kvs = kvs"
proof (induction kvs rule: rev_induct)
  case Nil
  then show ?case by (simp add: to_map_def)
next
  case (snoc p kvs)
  obtain k v where p: "p = (k, v)" by (cases p)
  from snoc have "to_map kvs = kvs" "k \<notin> set (mkeys kvs)" by (auto simp: p)
  then show ?case by (simp add: to_map_def p mput_new mget_None_iff)
qed

lemma those_map_id: "(\<And>x. x \<in> set xs \<Longrightarrow> f x = Some x) \<Longrightarrow> those (map f xs) = Some xs"
  by (induction xs) simp_all

lemma float_int_exact: "\<bar>n\<bar> < 2 ^ 53 \<Longrightarrow> float_int n = Some n"
  by (simp add: float_int_def round53_exact)

lemma any_value_ok: "value_ok v \<Longrightarrow> any_value v = Some v"
proof (induction v)
  case (JArr xs)
  then have "those (map any_value xs) = Some xs" by (intro those_map_id) (simp add: list_all_iff)
  then show ?case by simp
next
  case (JObj kvs)
  then have "those (map (\<lambda>(k, v). map_option (Pair k) (any_value v)) kvs) = Some kvs"
    by (intro those_map_id) (auto simp: list_all_iff snds.simps)
  with JObj.prems show ?case by (simp add: to_map_wf)
qed (simp_all add: float_int_exact)

lemma sort_value_in_order: "in_order v \<Longrightarrow> sort_value v = v"
proof (induction v)
  case (JArr xs)
  then show ?case by (simp add: list_all_iff map_idI)
next
  case (JObj kvs)
  then have "map (\<lambda>(k, v). (k, sort_value v)) kvs = kvs"
    by (intro map_idI) (auto simp: list_all_iff snds.simps)
  with JObj.prems show ?case by (simp add: sort_keys_sorted)
qed simp_all

lemma value_ok_text: "value_ok v \<Longrightarrow> lits_ok v \<and> strings_ok v"
  by (induction v) (auto simp: list_all_iff snds.simps)

text \<open>What can be written and read below \<open>n\<close> levels.\<close>

definition json_fit :: "nat \<Rightarrow> json \<Rightarrow> bool" where
  "json_fit n v \<longleftrightarrow> lits_ok v \<and> strings_ok v \<and> json_depth v \<le> n"

lemma max_below: "foldr max ns 0 \<le> (m :: nat) \<longleftrightarrow> list_all (\<lambda>n. n \<le> m) ns"
  by (induction ns) auto

lemma json_fit_simps [simp]:
  "json_fit n JNull" "json_fit n (JBool b)" "json_fit n (JNum i)"
  "json_fit n (JStr s) \<longleftrightarrow> valid_utf8 s"
  "json_fit (Suc n) (JArr xs) \<longleftrightarrow> list_all (json_fit n) xs"
  "json_fit (Suc n) (JObj kvs) \<longleftrightarrow> list_all (\<lambda>(k, v). valid_utf8 k \<and> json_fit n v) kvs"
  by (auto simp: json_fit_def max_below list_all_iff)

text \<open>The depth left for a property map, three levels below the state.\<close>

definition inner_depth :: nat where "inner_depth = 9997"

lemma json_ok_fit: "json_ok v \<longleftrightarrow> json_fit (Suc (Suc (Suc inner_depth))) v"
  by (simp add: json_ok_def json_fit_def max_depth_def inner_depth_def)

lemma value_fit: "value_ok v \<Longrightarrow> json_depth v \<le> n \<Longrightarrow> json_fit n v"
  using value_ok_text [of v] by (simp add: json_fit_def)

lemma undec_dec: "undec (dec n) = Some n"
  using dec_digits [of n] by (simp add: undec_def)

lemma dec_u16_key_roundtrip: "dec_u16_key (u16_key k) = Inr k"
  using unsigned_less [of k] by (simp add: dec_u16_key_def u16_key_def undec_dec)

lemma dec_word_roundtrip: "dec_word (JNum (uint w)) = Inr w"
  by (simp add: dec_word_def dec_num_def)

lemma enc_time_Inr: "enc_time t = Inr j \<longleftrightarrow> time_ok t \<and> j = JStr (time_text t)"
  by (auto simp: enc_time_def)

lemma dec_time_text: "time_ok t \<Longrightarrow> dec_time (JStr (time_text t)) = Inr t"
  by (simp add: dec_time_def time_roundtrip time_ok_def second_def)

lemmas dec_field_defs = dec_field_def jfield_def

text \<open>
  What the encoding cannot carry: strings that are not UTF-8, an empty but non-nil property map (it
  is omitted), integers beyond a \<open>float64\<close> in the properties, and properties nested deeper than the
  reader allows. The keys of a Go map are distinct, and its \<open>int\<close>s fit; the list that stands for a map
  is the one in the order of the keys.
\<close>

definition message_ok :: "message \<Rightarrow> bool" where
  "message_ok m \<longleftrightarrow>
     valid_utf8 (m_topic m)
     \<and> (case m_properties m of None \<Rightarrow> True
        | Some ps \<Rightarrow> ps \<noteq> [] \<and> value_ok (JObj ps) \<and> in_order (JObj ps) \<and> json_depth (JObj ps) \<le> inner_depth)"

definition opt_ok :: "('a \<Rightarrow> bool) \<Rightarrow> 'a option \<Rightarrow> bool" where
  "opt_ok P x \<longleftrightarrow> (case x of None \<Rightarrow> True | Some y \<Rightarrow> P y)"

definition messages_ok :: "('k \<Rightarrow> string) \<Rightarrow> ('k, message option) gomap \<Rightarrow> bool" where
  "messages_ok key m \<longleftrightarrow>
     wf_map m \<and> sorted_wrt string_le (map key (mkeys m)) \<and> list_all (\<lambda>(k, v). opt_ok message_ok v) m"

definition state_ok :: "session_state \<Rightarrow> bool" where
  "state_ok st \<longleftrightarrow>
     opt_ok (list_all (\<lambda>s. valid_utf8 (ts_topic s))) (st_topics st)
     \<and> opt_ok (list_all (opt_ok message_ok)) (st_messages st)
     \<and> opt_ok (messages_ok u16_key) (st_qos_messages st)
     \<and> opt_ok (\<lambda>m. messages_ok id m \<and> list_all valid_utf8 (mkeys m)) (st_retained st)
     \<and> valid_utf8 (st_client st) \<and> fits_i64 (st_version st)"

lemma message_roundtrip:
  assumes "enc_message m = Inr j" and "message_ok m"
  shows "dec_message j = Inr m \<and> j \<noteq> JNull"
proof -
  from assms(1) have t: "time_ok (m_timestamp m)"
    by (auto simp: enc_message_def bindE_Inr enc_time_Inr)
  then have enc: "enc_time (m_timestamp m) = Inr (JStr (time_text (m_timestamp m)))"
    by (simp add: enc_time_Inr)
  have props: "sort_value (JObj ps) = JObj ps" "any_value (JObj ps) = Some (JObj ps)"
    if "m_properties m = Some ps" for ps
    using assms(2) that sort_value_in_order [of "JObj ps"] any_value_ok [of "JObj ps"]
    unfolding message_ok_def by auto
  show ?thesis
    using assms(1) [symmetric] assms(2)
    by (cases "m_payload m"; cases "m_properties m")
      (simp_all add: enc_message_def enc dec_message_def dec_field_defs dec_string_def dec_bytes_def
        b64_roundtrip dec_word_roundtrip dec_bool_def dec_time_text [OF t] dec_properties_def
        message_ok_def props del: sort_value.simps any_value.simps)
qed

lemma pointer_roundtrip:
  assumes "enc_pointer enc_message p = Inr j" and "opt_ok message_ok p"
  shows "dec_pointer dec_message j = Inr p"
  using assms message_roundtrip
  by (cases p) (auto simp: enc_pointer_def dec_pointer_def opt_ok_def)

text \<open>A field that holds the encoded value decodes to the value.\<close>

definition dec_nullable :: "'a \<Rightarrow> (json \<Rightarrow> goerr + 'a) \<Rightarrow> json \<Rightarrow> goerr + 'a" where
  "dec_nullable zero f j = (if j = JNull then Inr zero else f j)"

lemma dec_field_found: "jfield name kvs = Some j \<Longrightarrow> dec_field name kvs zero f = dec_nullable zero f j"
  by (simp add: dec_field_def dec_nullable_def)

lemma slice_roundtrip:
  assumes "enc_slice f xs = Inr j"
    and "\<And>ys x y. xs = Some ys \<Longrightarrow> x \<in> set ys \<Longrightarrow> f x = Inr y \<Longrightarrow> g y = Inr x"
  shows "dec_nullable None (dec_slice g) j = Inr xs"
proof (cases xs)
  case None
  with assms(1) show ?thesis by (simp add: enc_slice_def dec_nullable_def)
next
  case (Some ys)
  with assms(1) obtain js where js: "traverse f ys = Inr js" "j = JArr js"
    by (auto simp: enc_slice_def bindE_Inr)
  have "traverse g js = Inr ys" by (rule traverse_Inr [OF js(1) assms(2)]) (auto simp: Some)
  with js Some show ?thesis by (simp add: dec_nullable_def dec_slice_def)
qed

lemma traverse_entries:
  "traverse (\<lambda>(k, v). bindE (f v) (\<lambda>j. Inr (key k, j))) kvs = Inr js \<Longrightarrow> mkeys js = map key (mkeys kvs)"
  by (induction kvs arbitrary: js) (auto simp: bindE_Inr)

lemma enc_map_sorted:
  assumes "enc_map key f (Some kvs) = Inr j" and "sorted_wrt string_le (map key (mkeys kvs))"
  obtains js where "traverse (\<lambda>(k, v). bindE (f v) (\<lambda>j. Inr (key k, j))) kvs = Inr js" and "j = JObj js"
proof -
  from assms(1) obtain js where js: "traverse (\<lambda>(k, v). bindE (f v) (\<lambda>j. Inr (key k, j))) kvs = Inr js"
      "j = JObj (sort_keys js)"
    by (auto simp: enc_map_def bindE_Inr)
  with traverse_entries [OF js(1)] assms(2) that show ?thesis
    by (simp add: sort_keys_sorted sorted_map_def)
qed

lemma map_roundtrip:
  assumes "enc_map key f m = Inr j"
    and "\<And>k. kf (key k) = Inr k"
    and "opt_ok (\<lambda>m. wf_map m \<and> sorted_wrt string_le (map key (mkeys m)) \<and> list_all (\<lambda>(k, v). P v) m) m"
    and "\<And>v y. P v \<Longrightarrow> f v = Inr y \<Longrightarrow> g y = Inr v"
  shows "dec_nullable None (dec_map kf g) j = Inr m"
proof (cases m)
  case None
  with assms(1) show ?thesis by (simp add: enc_map_def dec_nullable_def)
next
  case (Some kvs)
  let ?enc = "\<lambda>(k, v). bindE (f v) (\<lambda>j. Inr (key k, j))"
  let ?dec = "\<lambda>(k, v). bindE (kf k) (\<lambda>k'. bindE (g v) (\<lambda>x. Inr (k', x)))"
  from assms(1,3) Some obtain js where js: "traverse ?enc kvs = Inr js" "j = JObj js"
    by (auto simp: opt_ok_def elim: enc_map_sorted)
  have "?dec y = Inr x" if "x \<in> set kvs" "?enc x = Inr y" for x y
  proof -
    obtain k v where x: "x = (k, v)" by (cases x) simp
    with that assms(2,3,4) Some show ?thesis by (auto simp: bindE_Inr opt_ok_def list_all_iff)
  qed
  then have "traverse ?dec js = Inr kvs" by (rule traverse_Inr [OF js(1)])
  moreover have "to_map kvs = kvs" using assms(3) Some by (simp add: opt_ok_def to_map_wf)
  ultimately show ?thesis using js(2) Some by (simp add: dec_nullable_def dec_map_def)
qed

lemma subscription_roundtrip: "enc_subscription s = Inr y \<Longrightarrow> dec_subscription y = Inr s"
  by (cases s) (auto simp: enc_subscription_def dec_subscription_def dec_field_defs dec_string_def
      dec_word_roundtrip)

lemma enc_stateE:
  assumes "enc_state st = Inr j"
  obtains jt jm jq jr where
      "enc_slice enc_subscription (st_topics st) = Inr jt"
      "enc_slice (enc_pointer enc_message) (st_messages st) = Inr jm"
      "enc_map u16_key (enc_pointer enc_message) (st_qos_messages st) = Inr jq"
      "enc_map id (enc_pointer enc_message) (st_retained st) = Inr jr"
      "time_ok (st_connected st)" "time_ok (st_disconnected st)" "time_ok (st_expiry st)"
      "j = JObj
         [(''topics'', jt), (''messages'', jm), (''last_sequence'', JNum (uint (st_sequence st))),
          (''last_connected'', JStr (time_text (st_connected st))),
          (''last_disconnected'', JStr (time_text (st_disconnected st))), (''qos_messages'', jq),
          (''retained_messages'', jr), (''client_id'', JStr (st_client st)),
          (''session_expiry'', JStr (time_text (st_expiry st))), (''version'', JNum (st_version st))]"
  using assms by (auto simp: enc_state_def bindE_Inr enc_time_Inr)

lemma state_roundtrip:
  assumes enc: "enc_state st = Inr j" and ok: "state_ok st"
  shows "dec_state j = Inr st"
  using enc
proof (rule enc_stateE)
  fix jt jm jq jr
  assume parts:
      "enc_slice enc_subscription (st_topics st) = Inr jt"
      "enc_slice (enc_pointer enc_message) (st_messages st) = Inr jm"
      "enc_map u16_key (enc_pointer enc_message) (st_qos_messages st) = Inr jq"
      "enc_map id (enc_pointer enc_message) (st_retained st) = Inr jr"
    and times: "time_ok (st_connected st)" "time_ok (st_disconnected st)" "time_ok (st_expiry st)"
    and j: "j = JObj
         [(''topics'', jt), (''messages'', jm), (''last_sequence'', JNum (uint (st_sequence st))),
          (''last_connected'', JStr (time_text (st_connected st))),
          (''last_disconnected'', JStr (time_text (st_disconnected st))), (''qos_messages'', jq),
          (''retained_messages'', jr), (''client_id'', JStr (st_client st)),
          (''session_expiry'', JStr (time_text (st_expiry st))), (''version'', JNum (st_version st))]"
  have tps: "dec_nullable None (dec_slice dec_subscription) jt = Inr (st_topics st)"
    using parts(1) by (rule slice_roundtrip) (rule subscription_roundtrip)
  have ms: "dec_nullable None (dec_slice (dec_pointer dec_message)) jm = Inr (st_messages st)"
    using parts(2)
  proof (rule slice_roundtrip)
    fix ys x y assume "st_messages st = Some ys" "x \<in> set ys" "enc_pointer enc_message x = Inr y"
    with ok show "dec_pointer dec_message y = Inr x"
      by (intro pointer_roundtrip) (auto simp: state_ok_def opt_ok_def list_all_iff)
  qed
  have tables: "opt_ok (messages_ok u16_key) (st_qos_messages st)" "opt_ok (messages_ok id) (st_retained st)"
    using ok by (auto simp: state_ok_def opt_ok_def split: option.splits)
  have qm: "dec_nullable None (dec_map dec_u16_key (dec_pointer dec_message)) jq = Inr (st_qos_messages st)"
    using parts(3) dec_u16_key_roundtrip tables(1) [unfolded messages_ok_def]
    by (rule map_roundtrip) (rule pointer_roundtrip)
  have rm: "dec_nullable None (dec_map Inr (dec_pointer dec_message)) jr = Inr (st_retained st)"
    using parts(4) _ tables(2) [unfolded messages_ok_def]
    by (rule map_roundtrip) (simp, rule pointer_roundtrip)
  have "fits_i64 (st_version st)" using ok by (simp add: state_ok_def)
  then show ?thesis
    by (simp add: j dec_state_def dec_field_found jfield_def tps ms qm rm)
      (simp add: dec_nullable_def dec_word_roundtrip dec_time_text times dec_string_def dec_num_def fits_i64_def)
qed

subsection \<open>The text of a state\<close>

lemma valid_digits: "list_all is_digit s \<Longrightarrow> valid_utf8 s"
  by (rule valid_ascii) (auto simp: list_all_iff is_digit_def)

lemma valid_dec_int [simp]: "valid_utf8 (dec_int n)"
  using dec_digits by (simp add: dec_int_def valid_digits)

lemma valid_b64 [simp]: "valid_utf8 (b64_encode s)"
  using b64_encode_chars by (intro valid_ascii) (fastforce simp: list_all_iff)

lemma valid_u16_key [simp]: "valid_utf8 (u16_key k)"
  using dec_digits by (simp add: u16_key_def valid_digits)

lemma valid_time [simp]: "valid_utf8 (time_text t)"
  by (rule valid_ascii) (rule time_text_ascii)

lemma message_fit:
  assumes "enc_message m = Inr j" and "message_ok m"
  shows "json_fit (Suc inner_depth) j"
proof -
  from assms(1) have t: "time_ok (m_timestamp m)" by (auto simp: enc_message_def bindE_Inr enc_time_Inr)
  have "json_fit inner_depth (sort_value (JObj ps))" if "m_properties m = Some ps" for ps
    using assms(2) that value_fit [of "JObj ps" inner_depth] sort_value_in_order [of "JObj ps"]
    unfolding message_ok_def by auto
  with assms t show ?thesis
    by (auto simp: enc_message_def enc_time_Inr bindE_Inr message_ok_def split: option.splits
        simp del: sort_value.simps)
qed

lemma pointer_fit:
  "enc_pointer enc_message p = Inr j \<Longrightarrow> opt_ok message_ok p \<Longrightarrow> json_fit (Suc inner_depth) j"
  by (cases p) (auto simp: enc_pointer_def opt_ok_def message_fit)

lemma traverse_all:
  "traverse f xs = Inr ys \<Longrightarrow> (\<And>x y. x \<in> set xs \<Longrightarrow> f x = Inr y \<Longrightarrow> P y) \<Longrightarrow> list_all P ys"
proof (induction xs arbitrary: ys)
  case Nil
  then show ?case by simp
next
  case (Cons x xs)
  from Cons.prems(1) obtain y zs where y: "f x = Inr y" "traverse f xs = Inr zs" "ys = y # zs"
    by (auto simp: bindE_Inr)
  have "P y" by (rule Cons.prems(2) [OF _ y(1)]) simp
  moreover have "list_all P zs" by (rule Cons.IH [OF y(2)], rule Cons.prems(2)) auto
  ultimately show ?case by (simp add: y(3))
qed

lemma table_fit:
  assumes "enc_map key (enc_pointer enc_message) m = Inr j" and "opt_ok (messages_ok key) m"
    and "opt_ok (\<lambda>m. list_all valid_utf8 (map key (mkeys m))) m"
  shows "json_fit (Suc (Suc inner_depth)) j"
proof (cases m)
  case None
  with assms(1) show ?thesis by (simp add: enc_map_def)
next
  case (Some kvs)
  with assms(1,2) obtain js where js: "j = JObj js"
    "traverse (\<lambda>(k, v). bindE (enc_pointer enc_message v) (\<lambda>j. Inr (key k, j))) kvs = Inr js"
    by (auto simp: opt_ok_def messages_ok_def elim: enc_map_sorted)
  have "list_all (\<lambda>(k, v). valid_utf8 k \<and> json_fit (Suc inner_depth) v) js"
    using js(2)
  proof (rule traverse_all)
    fix x y
    assume x: "x \<in> set kvs" and y: "(\<lambda>(k, v). bindE (enc_pointer enc_message v) (\<lambda>j. Inr (key k, j))) x = Inr y"
    from y obtain i where "enc_pointer enc_message (snd x) = Inr i" "y = (key (fst x), i)"
      by (auto simp: bindE_Inr split: prod.splits)
    with x assms(2,3) Some pointer_fit [of "snd x" i] show "case y of (k, v) \<Rightarrow> valid_utf8 k \<and> json_fit (Suc inner_depth) v"
      by (auto simp: opt_ok_def messages_ok_def list_all_iff)
  qed
  with js(1) show ?thesis by simp
qed

lemma slice_fit:
  assumes "enc_slice f xs = Inr j" and "\<And>ys x y. xs = Some ys \<Longrightarrow> x \<in> set ys \<Longrightarrow> f x = Inr y \<Longrightarrow> json_fit n y"
  shows "json_fit (Suc n) j"
proof (cases xs)
  case None
  with assms(1) show ?thesis by (simp add: enc_slice_def)
next
  case (Some ys)
  with assms(1) obtain js where "traverse f ys = Inr js" "j = JArr js" by (auto simp: enc_slice_def bindE_Inr)
  then show ?thesis using traverse_all [of f ys js "json_fit n"] assms(2) [OF Some] by simp
qed

lemma state_fit:
  assumes enc: "enc_state st = Inr j" and ok: "state_ok st"
  shows "json_ok j"
  using enc
proof (rule enc_stateE)
  fix jt jm jq jr
  assume parts:
      "enc_slice enc_subscription (st_topics st) = Inr jt"
      "enc_slice (enc_pointer enc_message) (st_messages st) = Inr jm"
      "enc_map u16_key (enc_pointer enc_message) (st_qos_messages st) = Inr jq"
      "enc_map id (enc_pointer enc_message) (st_retained st) = Inr jr"
    and j: "j = JObj
         [(''topics'', jt), (''messages'', jm), (''last_sequence'', JNum (uint (st_sequence st))),
          (''last_connected'', JStr (time_text (st_connected st))),
          (''last_disconnected'', JStr (time_text (st_disconnected st))), (''qos_messages'', jq),
          (''retained_messages'', jr), (''client_id'', JStr (st_client st)),
          (''session_expiry'', JStr (time_text (st_expiry st))), (''version'', JNum (st_version st))]"
  have sub: "json_fit (Suc inner_depth) y" if "enc_subscription s = Inr y" "valid_utf8 (ts_topic s)" for s y
    using that by (auto simp: enc_subscription_def)
  have "json_fit (Suc (Suc inner_depth)) jt"
    using parts(1) by (rule slice_fit) (use ok in \<open>auto simp: state_ok_def opt_ok_def list_all_iff intro: sub\<close>)
  moreover have "json_fit (Suc (Suc inner_depth)) jm"
    using parts(2) by (rule slice_fit)
      (use ok in \<open>auto simp: state_ok_def opt_ok_def list_all_iff intro: pointer_fit\<close>)
  moreover have "json_fit (Suc (Suc inner_depth)) jq"
    by (rule table_fit [OF parts(3)]) (use ok in \<open>auto simp: state_ok_def opt_ok_def list_all_iff split: option.splits\<close>)
  moreover have "json_fit (Suc (Suc inner_depth)) jr"
    by (rule table_fit [OF parts(4)]) (use ok in \<open>auto simp: state_ok_def opt_ok_def list_all_iff split: option.splits\<close>)
  moreover have "valid_utf8 (st_client st)" using ok by (simp add: state_ok_def)
  ultimately show ?thesis by (simp add: json_ok_fit j)
qed

lemma lits_coerce: "lits_ok (coerce_json v) \<longleftrightarrow> lits_ok v"
  by (induction v) (auto simp: list_all_iff snds.simps)

lemma enc_state_text: "enc_state st = Inr j \<Longrightarrow> print_json j \<noteq> []"
  by (erule enc_stateE) (simp add: print_json_def)

lemma enc_state_not_null: "enc_state st = Inr j \<Longrightarrow> j \<noteq> JNull"
  by (auto simp: enc_state_def bindE_Inr)

text \<open>The times of a state and of the messages in it that JSON can carry.\<close>

definition state_times_ok :: "session_state \<Rightarrow> bool" where
  "state_times_ok st \<longleftrightarrow>
     time_ok (st_connected st) \<and> time_ok (st_disconnected st) \<and> time_ok (st_expiry st)
     \<and> opt_ok (list_all (opt_ok (\<lambda>m. time_ok (m_timestamp m)))) (st_messages st)
     \<and> opt_ok (list_all (\<lambda>(k, v). opt_ok (\<lambda>m. time_ok (m_timestamp m)) v)) (st_qos_messages st)
     \<and> opt_ok (list_all (\<lambda>(k, v). opt_ok (\<lambda>m. time_ok (m_timestamp m)) v)) (st_retained st)"

lemma traverse_total: "(\<And>x. x \<in> set xs \<Longrightarrow> \<exists>y. f x = Inr y) \<Longrightarrow> \<exists>ys. traverse f xs = Inr ys"
  by (induction xs) (fastforce simp: bindE_Inr)+

lemma enc_pointer_total:
  "opt_ok (\<lambda>m. time_ok (m_timestamp m)) p \<Longrightarrow> \<exists>j. enc_pointer enc_message p = Inr j"
  by (cases p) (auto simp: enc_pointer_def enc_message_def enc_time_def opt_ok_def)

lemma enc_slice_total:
  "opt_ok (list_all P) xs \<Longrightarrow> (\<And>x. P x \<Longrightarrow> \<exists>j. f x = Inr j) \<Longrightarrow> \<exists>j. enc_slice f xs = Inr j"
  using traverse_total [of "the xs" f]
  by (cases xs) (auto simp: enc_slice_def opt_ok_def list_all_iff bindE_Inr)

lemma enc_map_total:
  assumes "opt_ok (list_all (\<lambda>(k, v). P v)) m" and "\<And>v. P v \<Longrightarrow> \<exists>j. f v = Inr j"
  shows "\<exists>j. enc_map key f m = Inr j"
proof (cases m)
  case None
  then show ?thesis by (simp add: enc_map_def)
next
  case (Some kvs)
  have "\<exists>ys. traverse (\<lambda>(k, v). bindE (f v) (\<lambda>j. Inr (key k, j))) kvs = Inr ys"
    using assms Some by (intro traverse_total) (fastforce simp: bindE_Inr opt_ok_def list_all_iff)
  with Some show ?thesis by (auto simp: enc_map_def bindE_Inr)
qed

lemma enc_state_total:
  assumes "state_times_ok st"
  shows "\<exists>j. enc_state st = Inr j"
proof -
  have "\<exists>j. enc_slice enc_subscription (st_topics st) = Inr j"
    by (rule enc_slice_total [where P = "\<lambda>_. True"])
       (auto simp: opt_ok_def list_all_iff enc_subscription_def split: option.split)
  moreover have "\<exists>j. enc_slice (enc_pointer enc_message) (st_messages st) = Inr j"
    by (rule enc_slice_total [OF _ enc_pointer_total]) (use assms in \<open>simp_all add: state_times_ok_def\<close>)
  moreover have "\<exists>j. enc_map u16_key (enc_pointer enc_message) (st_qos_messages st) = Inr j"
    by (rule enc_map_total [OF _ enc_pointer_total]) (use assms in \<open>simp_all add: state_times_ok_def\<close>)
  moreover have "\<exists>j. enc_map id (enc_pointer enc_message) (st_retained st) = Inr j"
    by (rule enc_map_total [OF _ enc_pointer_total]) (use assms in \<open>simp_all add: state_times_ok_def\<close>)
  ultimately show ?thesis
    using assms by (auto simp: enc_state_def bindE_Inr enc_time_def state_times_ok_def)
qed

subsection \<open>Properties\<close>

text \<open>
  C22. Every session state whose strings are UTF-8 and whose times JSON can carry is written, and
  reading the text that was written gives the state back: subscriptions, pending messages with their
  payloads and properties, the message tables keyed by identifier and by topic, sequence number,
  times, client identifier and version.
\<close>

theorem SessionState_json_roundtrip:
  assumes "state_ok st" and "state_times_ok st"
  shows "\<exists>j. enc_state st = Inr j \<and> parse_json (print_json j) = Some j \<and> dec_state j = Inr st"
  using enc_state_total [OF assms(2)] state_roundtrip [OF _ assms(1)] state_fit [OF _ assms(1)] parse_print_ok
  by blast

text \<open>A state with a subscription, a pending message and a retained one.\<close>

definition sample_state :: session_state where
  "sample_state =
     \<lparr>st_topics = Some [\<lparr>ts_topic = ''a/b'', ts_qos = 1\<rparr>], st_messages = Some [None],
      st_sequence = 5, st_connected = 10, st_disconnected = zero_time,
      st_qos_messages = Some [(300, None)],
      st_retained = Some [(''r'', Some \<lparr>m_topic = ''r'', m_payload = Some ''x'', m_qos = 2,
        m_retained = True, m_duplicate = False, m_id = 9, m_timestamp = 77, m_properties = None\<rparr>)],
      st_client = ''c'', st_expiry = 20, st_version = 1\<rparr>"

lemma sample_state_ok: "state_ok sample_state" "state_times_ok sample_state"
  by (simp_all add: sample_state_def state_ok_def state_times_ok_def opt_ok_def message_ok_def messages_ok_def
      fits_i64_def time_ok_def zero_time_def second_def)

theorem SessionState_json_roundtrip_witness:
  "\<exists>j. enc_state sample_state = Inr j \<and> parse_json (print_json j) = Some j \<and> dec_state j = Inr sample_state"
  by (rule SessionState_json_roundtrip) (rule sample_state_ok)+

end
