(* ===== verification/Stores.thy ===== *)
theory Stores
  imports Codec
begin

text \<open>
  Session stores (\<open>store.go\<close>, \<open>store_redis.go\<close>, \<open>mock_redis_client.go\<close>): the
  in-memory, file and Redis implementations of the interface \<open>SessionStore\<close>. The interface is
  the locale \<open>session_store\<close>; each store interprets it, and is a map from session names to
  states by the one proof in the locale.
\<close>

text \<open>
  \<open>json.Marshal\<close> and \<open>json.Unmarshal\<close> of a \<open>*SessionState\<close>: the text is the bytes a file or a Redis
  key holds. The wording of the library's syntax errors is not kept.
\<close>

definition marshal_state :: "session_state option \<Rightarrow> goerr + payload" where
  "marshal_state st = bindE (enc_pointer enc_state st) (\<lambda>j. Inr (print_json j))"

definition unmarshal_state :: "payload \<Rightarrow> goerr + session_state" where
  "unmarshal_state d =
     (case parse_json d of None \<Rightarrow> Inl json_syntax_error | Some j \<Rightarrow> dec_state j)"

text \<open>\<open>wrapError\<close> of an error that is there.\<close>

abbreviation wrap_msg :: "string \<Rightarrow> goerr \<Rightarrow> goerr" where
  "wrap_msg msg e \<equiv> the (wrapError (Some e) msg)"

subsection \<open>The memory store\<close>

type_synonym memory_store = "(string, session_state option) gomap"

definition NewMemoryStore :: memory_store where
  "NewMemoryStore = []"

definition MemoryStore_SaveState ::
  "string \<Rightarrow> session_state option \<Rightarrow> memory_store \<Rightarrow> goerr option \<times> memory_store" where
  "MemoryStore_SaveState n st s = (None, mput n st s)"

definition MemoryStore_LoadState :: "string \<Rightarrow> memory_store \<Rightarrow> goerr + session_state option" where
  "MemoryStore_LoadState n s = (case mget s n of None \<Rightarrow> Inr None | Some st \<Rightarrow> Inr st)"

definition MemoryStore_DeleteState :: "string \<Rightarrow> memory_store \<Rightarrow> goerr option \<times> memory_store" where
  "MemoryStore_DeleteState n s = (None, mdel n s)"

subsection \<open>Paths and files\<close>

text \<open>\<open>filepath.Clean\<close> and \<open>filepath.Join\<close>: the components on a stack, top first.\<close>

definition clean_step :: "bool \<Rightarrow> string list \<Rightarrow> string \<Rightarrow> string list" where
  "clean_step rooted stack c =
     (if c = [] \<or> c = ''.'' then stack
      else if c = ''..'' then
        (case stack of [] \<Rightarrow> if rooted then [] else [''..'']
         | x # xs \<Rightarrow> if x = ''..'' then ''..'' # stack else xs)
      else c # stack)"

definition path_stack :: "string \<Rightarrow> string list" where
  "path_stack p = foldl (clean_step (take 1 p = ''/'')) [] (split_on (CHR ''/'') p)"

definition path_Clean :: "string \<Rightarrow> string" where
  "path_Clean p =
     (let body = join_with ''/'' (rev (path_stack p))
      in if take 1 p = ''/'' then ''/'' @ body else if body = [] then ''.'' else body)"

definition path_Join :: "string list \<Rightarrow> string" where
  "path_Join elems =
     (let xs = filter (\<lambda>e. e \<noteq> []) elems in if xs = [] then [] else path_Clean (join_with ''/'' xs))"

text \<open>
  Files by cleaned path. A system call may fail with an error of the operating system; a failed
  write may leave the file unchanged or with other contents.
\<close>

type_synonym files = "(string, payload) gomap"

datatype fault = NoFault | Fault goerr "payload option"

definition os_WriteFile :: "fault \<Rightarrow> string \<Rightarrow> payload \<Rightarrow> files \<Rightarrow> goerr option \<times> files" where
  "os_WriteFile ft path d fs =
     (case ft of NoFault \<Rightarrow> (None, mput path d fs)
      | Fault e left \<Rightarrow> (Some e, case left of None \<Rightarrow> fs | Some d' \<Rightarrow> mput path d' fs))"

datatype 'a os_result = OsOk 'a | OsNotExist | OsError goerr

definition os_ReadFile :: "fault \<Rightarrow> string \<Rightarrow> files \<Rightarrow> payload os_result" where
  "os_ReadFile ft path fs =
     (case mget fs path of None \<Rightarrow> OsNotExist
      | Some d \<Rightarrow> (case ft of NoFault \<Rightarrow> OsOk d | Fault e _ \<Rightarrow> OsError e))"

definition os_Remove :: "fault \<Rightarrow> string \<Rightarrow> files \<Rightarrow> unit os_result \<times> files" where
  "os_Remove ft path fs =
     (case mget fs path of None \<Rightarrow> (OsNotExist, fs)
      | Some _ \<Rightarrow> (case ft of NoFault \<Rightarrow> (OsOk (), mdel path fs) | Fault e _ \<Rightarrow> (OsError e, fs)))"

subsection \<open>The file store\<close>

definition state_file :: "string \<Rightarrow> string \<Rightarrow> string" where
  "state_file dir n = path_Join [dir, n @ ''.json'']"

definition NewFileStore :: "goerr option \<Rightarrow> string \<Rightarrow> goerr + string" where
  "NewFileStore mkdir directory =
     (case mkdir of
        Some e \<Rightarrow> Inl (WrapErr (''failed to create directory: '' @ err_text e) e)
      | None \<Rightarrow> Inr directory)"

definition FileStore_SaveState ::
  "fault \<Rightarrow> string \<Rightarrow> string \<Rightarrow> session_state option \<Rightarrow> files \<Rightarrow> goerr option \<times> files" where
  "FileStore_SaveState ft dir n st fs =
     (case marshal_state st of
        Inl e \<Rightarrow> (Some (wrap_msg ''failed to marshal session state'' e), fs)
      | Inr d \<Rightarrow>
          (case os_WriteFile ft (state_file dir n) d fs of
             (Some e, fs') \<Rightarrow> (Some (wrap_msg ''failed to write session state'' e), fs')
           | (None, fs') \<Rightarrow> (None, fs')))"

definition FileStore_LoadState ::
  "fault \<Rightarrow> string \<Rightarrow> string \<Rightarrow> files \<Rightarrow> goerr + session_state option" where
  "FileStore_LoadState ft dir n fs =
     (case os_ReadFile ft (state_file dir n) fs of
        OsNotExist \<Rightarrow> Inr None
      | OsError e \<Rightarrow> Inl (wrap_msg ''failed to read session state'' e)
      | OsOk d \<Rightarrow>
          (case unmarshal_state d of
             Inl e \<Rightarrow> Inl (wrap_msg ''failed to unmarshal session state'' e)
           | Inr st \<Rightarrow> Inr (Some st)))"

definition FileStore_DeleteState :: "fault \<Rightarrow> string \<Rightarrow> string \<Rightarrow> files \<Rightarrow> goerr option \<times> files" where
  "FileStore_DeleteState ft dir n fs =
     (case os_Remove ft (state_file dir n) fs of
        (OsNotExist, fs') \<Rightarrow> (None, fs')
      | (OsError e, fs') \<Rightarrow> (Some (wrap_msg ''failed to delete session state'' e), fs')
      | (OsOk _, fs') \<Rightarrow> (None, fs'))"

subsection \<open>The Redis store\<close>

text \<open>The interface \<open>RedisClient\<close>, over the state of the client and its server.\<close>

record 'c redis_client =
  rd_Set :: "string \<Rightarrow> payload \<Rightarrow> int \<Rightarrow> 'c \<Rightarrow> goerr option \<times> 'c"
  rd_Get :: "string \<Rightarrow> 'c \<Rightarrow> goerr + payload"
  rd_Del :: "string list \<Rightarrow> 'c \<Rightarrow> goerr option \<times> 'c"
  rd_Close :: "'c \<Rightarrow> goerr option"

record redis_store =
  rs_prefix :: string
  rs_ttl :: int

definition NewRedisStore :: "(string \<times> int) option \<Rightarrow> redis_store" where
  "NewRedisStore opts =
     (let day = 24 * 3600 * second;
          opts1 = (case opts of None \<Rightarrow> (''mqttx:session:'', day) | Some x \<Rightarrow> x);
          prefix = (if fst opts1 = [] then ''mqttx:session:'' else fst opts1);
          ttl = (if snd opts1 \<le> 0 then day else snd opts1)
      in \<lparr>rs_prefix = prefix, rs_ttl = ttl\<rparr>)"

definition RedisStore_SaveState ::
  "'c redis_client \<Rightarrow> redis_store \<Rightarrow> string \<Rightarrow> session_state option \<Rightarrow> 'c \<Rightarrow> goerr option \<times> 'c" where
  "RedisStore_SaveState cl rs n st c =
     (case st of None \<Rightarrow> (Some (NewErr ''state cannot be nil''), c)
      | Some _ \<Rightarrow>
          (case marshal_state st of
             Inl e \<Rightarrow> (Some (wrap_msg ''failed to marshal session state'' e), c)
           | Inr d \<Rightarrow>
               (case rd_Set cl (rs_prefix rs @ n) d (rs_ttl rs) c of
                  (Some e, c') \<Rightarrow> (Some (wrap_msg ''failed to save session state to redis'' e), c')
                | (None, c') \<Rightarrow> (None, c'))))"

definition RedisStore_LoadState ::
  "'c redis_client \<Rightarrow> redis_store \<Rightarrow> string \<Rightarrow> 'c \<Rightarrow> goerr + session_state option" where
  "RedisStore_LoadState cl rs n c =
     (case rd_Get cl (rs_prefix rs @ n) c of
        Inl e \<Rightarrow>
          if err_text e = ''redis: nil'' \<or> err_text e = ''key not found'' then Inr None
          else Inl (wrap_msg ''failed to get session state from redis'' e)
      | Inr d \<Rightarrow>
          if d = [] then Inr None
          else (case unmarshal_state d of
                  Inl e \<Rightarrow> Inl (wrap_msg ''failed to unmarshal session state'' e)
                | Inr st \<Rightarrow> Inr (Some st)))"

definition RedisStore_DeleteState ::
  "'c redis_client \<Rightarrow> redis_store \<Rightarrow> string \<Rightarrow> 'c \<Rightarrow> goerr option \<times> 'c" where
  "RedisStore_DeleteState cl rs n c =
     (case rd_Del cl [rs_prefix rs @ n] c of
        (Some e, c') \<Rightarrow> (Some (wrap_msg ''failed to delete session state from redis'' e), c')
      | (None, c') \<Rightarrow> (None, c'))"

definition RedisStore_Close :: "'c redis_client \<Rightarrow> 'c \<Rightarrow> goerr option" where
  "RedisStore_Close cl c = rd_Close cl c"

text \<open>The client of the repository's own: a map and three injectable errors.\<close>

record mock_redis =
  mk_data :: "(string, payload) gomap"
  mk_get_error :: "goerr option"
  mk_set_error :: "goerr option"
  mk_del_error :: "goerr option"

definition NewMockRedisClient :: mock_redis where
  "NewMockRedisClient =
     \<lparr>mk_data = [], mk_get_error = None, mk_set_error = None, mk_del_error = None\<rparr>"

definition mock_Set :: "string \<Rightarrow> payload \<Rightarrow> int \<Rightarrow> mock_redis \<Rightarrow> goerr option \<times> mock_redis" where
  "mock_Set key v expiration m =
     (case mk_set_error m of Some e \<Rightarrow> (Some e, m)
      | None \<Rightarrow> (None, m\<lparr>mk_data := mput key v (mk_data m)\<rparr>))"

definition mock_Get :: "string \<Rightarrow> mock_redis \<Rightarrow> goerr + payload" where
  "mock_Get key m =
     (case mk_get_error m of Some e \<Rightarrow> Inl e
      | None \<Rightarrow> (case mget (mk_data m) key of None \<Rightarrow> Inl (NewErr ''redis: nil'') | Some v \<Rightarrow> Inr v))"

definition mock_Del :: "string list \<Rightarrow> mock_redis \<Rightarrow> goerr option \<times> mock_redis" where
  "mock_Del keys m =
     (case mk_del_error m of Some e \<Rightarrow> (Some e, m)
      | None \<Rightarrow> (None, m\<lparr>mk_data := fold mdel keys (mk_data m)\<rparr>))"

definition mock_WithGetError :: "goerr option \<Rightarrow> mock_redis \<Rightarrow> mock_redis" where
  "mock_WithGetError err m = m\<lparr>mk_get_error := err\<rparr>"

definition mock_WithSetError :: "goerr option \<Rightarrow> mock_redis \<Rightarrow> mock_redis" where
  "mock_WithSetError err m = m\<lparr>mk_set_error := err\<rparr>"

definition mock_WithDelError :: "goerr option \<Rightarrow> mock_redis \<Rightarrow> mock_redis" where
  "mock_WithDelError err m = m\<lparr>mk_del_error := err\<rparr>"

definition mock_Close :: "mock_redis \<Rightarrow> goerr option" where
  "mock_Close m = None"

definition mock_Ping :: "mock_redis \<Rightarrow> goerr option" where
  "mock_Ping m = None"

definition mock_client :: "mock_redis redis_client" where
  "mock_client = \<lparr>rd_Set = mock_Set, rd_Get = mock_Get, rd_Del = mock_Del, rd_Close = mock_Close\<rparr>"

subsection \<open>The interface\<close>

datatype store_op = OpSave string session_state | OpDelete string

definition store_step ::
  "(string \<Rightarrow> session_state option \<Rightarrow> 's \<Rightarrow> goerr option \<times> 's) \<Rightarrow>
   (string \<Rightarrow> 's \<Rightarrow> goerr option \<times> 's) \<Rightarrow> 's \<Rightarrow> store_op \<Rightarrow> 's" where
  "store_step save del s x =
     (case x of OpSave n st \<Rightarrow> snd (save n (Some st) s) | OpDelete n \<Rightarrow> snd (del n s))"

text \<open>The specification: the states by session name.\<close>

definition spec_step :: "(string \<Rightarrow> session_state option) \<Rightarrow> store_op \<Rightarrow> (string \<Rightarrow> session_state option)" where
  "spec_step m x = (case x of OpSave n st \<Rightarrow> m(n \<mapsto> st) | OpDelete n \<Rightarrow> m(n := None))"

definition op_ok :: "(string \<Rightarrow> bool) \<Rightarrow> (session_state \<Rightarrow> bool) \<Rightarrow> store_op \<Rightarrow> bool" where
  "op_ok name_ok storable x =
     (case x of OpSave n st \<Rightarrow> name_ok n \<and> storable st | OpDelete n \<Rightarrow> name_ok n)"

locale session_store =
  fixes save :: "string \<Rightarrow> session_state option \<Rightarrow> 's \<Rightarrow> goerr option \<times> 's"
    and load :: "string \<Rightarrow> 's \<Rightarrow> goerr + session_state option"
    and del :: "string \<Rightarrow> 's \<Rightarrow> goerr option \<times> 's"
    and name_ok :: "string \<Rightarrow> bool"
    and storable :: "session_state \<Rightarrow> bool"
    and healthy :: "'s \<Rightarrow> bool"
  assumes save_succeeds: "healthy s \<Longrightarrow> storable st \<Longrightarrow> fst (save n (Some st) s) = None"
    and save_healthy: "healthy s \<Longrightarrow> healthy (snd (save n (Some st) s))"
    and load_save: "healthy s \<Longrightarrow> storable st \<Longrightarrow> name_ok n \<Longrightarrow> name_ok n' \<Longrightarrow>
      load n' (snd (save n (Some st) s)) = (if n' = n then Inr (Some st) else load n' s)"
    and del_succeeds: "healthy s \<Longrightarrow> fst (del n s) = None"
    and del_healthy: "healthy s \<Longrightarrow> healthy (snd (del n s))"
    and load_del: "healthy s \<Longrightarrow> name_ok n \<Longrightarrow> name_ok n' \<Longrightarrow>
      load n' (snd (del n s)) = (if n' = n then Inr None else load n' s)"
begin

lemma step_healthy: "healthy s \<Longrightarrow> healthy (store_step save del s x)"
  by (cases x) (simp_all add: store_step_def save_healthy del_healthy)

lemma step_refines:
  assumes "healthy s" and "op_ok name_ok storable x" and "name_ok n"
    and "load n s = Inr (m n)"
  shows "load n (store_step save del s x) = Inr (spec_step m x n)"
  using assms
  by (cases x) (simp_all add: store_step_def spec_step_def op_ok_def load_save load_del)

lemma run_refines:
  "healthy s \<Longrightarrow> list_all (op_ok name_ok storable) ops \<Longrightarrow> name_ok n \<Longrightarrow>
     load n s = Inr (m n) \<Longrightarrow>
     load n (foldl (store_step save del) s ops) = Inr (foldl spec_step m ops n)"
proof (induction ops arbitrary: s m)
  case Nil
  then show ?case by simp
next
  case (Cons x ops)
  then have "load n (store_step save del s x) = Inr (spec_step m x n)" by (simp add: step_refines)
  with Cons show ?case by (simp add: step_healthy)
qed

lemma load_after_save:
  "healthy s \<Longrightarrow> storable st \<Longrightarrow> name_ok n \<Longrightarrow> load n (snd (save n (Some st) s)) = Inr (Some st)"
  by (simp add: load_save)

lemma load_after_delete: "healthy s \<Longrightarrow> name_ok n \<Longrightarrow> load n (snd (del n s)) = Inr None"
  by (simp add: load_del)

end

subsection \<open>The memory store is a session store\<close>

interpretation mstore: session_store MemoryStore_SaveState MemoryStore_LoadState MemoryStore_DeleteState
    "\<lambda>_. True" "\<lambda>_. True" "\<lambda>_. True"
  by unfold_locales
    (auto simp: MemoryStore_SaveState_def MemoryStore_LoadState_def MemoryStore_DeleteState_def)

subsection \<open>The file store is a session store\<close>

definition plain_name :: "string \<Rightarrow> bool" where
  "plain_name n \<longleftrightarrow> CHR ''/'' \<notin> set n"

definition json_storable :: "session_state \<Rightarrow> bool" where
  "json_storable st \<longleftrightarrow> state_ok st \<and> state_times_ok st"

lemma json_name_step: "clean_step r stack (n @ ''.json'') = (n @ ''.json'') # stack"
proof -
  have "length (n @ ''.json'') \<ge> 5" by simp
  then have "n @ ''.json'' \<noteq> []" "n @ ''.json'' \<noteq> ''.''" "n @ ''.json'' \<noteq> ''..''"
    by (auto simp del: length_append)
  then show ?thesis by (simp add: clean_step_def)
qed

text \<open>A plain name only decides the last component of its file.\<close>

lemma state_file_last:
  "\<exists>pre. \<forall>n. plain_name n \<longrightarrow> state_file dir n = pre @ n @ ''.json''"
proof (cases "dir = []")
  case True
  have "state_file dir n = n @ ''.json''" if "plain_name n" for n
  proof -
    from that have no: "CHR ''/'' \<notin> set (n @ ''.json'')" by (simp add: plain_name_def)
    have nr: "take 1 (n @ ''.json'') \<noteq> ''/''"
    proof
      assume "take 1 (n @ ''.json'') = ''/''"
      then have "CHR ''/'' \<in> set (take 1 (n @ ''.json''))" by simp
      with no show False using in_set_takeD by fast
    qed
    have "path_stack (n @ ''.json'') = [n @ ''.json'']"
      unfolding path_stack_def split_on_plain [OF no] by (simp add: json_name_step)
    with True nr show ?thesis by (simp add: state_file_def path_Join_def path_Clean_def)
  qed
  then show ?thesis by (intro exI [of _ "[]"]) simp
next
  case False
  define r where "r = (take 1 dir = ''/'')"
  define st0 where "st0 = foldl (clean_step r) [] (split_on (CHR ''/'') dir)"
  define pre where "pre = (if r then ''/'' else []) @ (if st0 = [] then [] else join_with ''/'' (rev st0) @ ''/'')"
  have "state_file dir n = pre @ n @ ''.json''" if "plain_name n" for n
  proof -
    from that have no: "CHR ''/'' \<notin> set (n @ ''.json'')" by (simp add: plain_name_def)
    let ?p = "dir @ CHR ''/'' # n @ ''.json''"
    have root: "take 1 ?p = take 1 dir" using False by (cases dir) simp_all
    have "split_on (CHR ''/'') ?p = split_on (CHR ''/'') dir @ [n @ ''.json'']"
      unfolding split_on_append split_on_plain [OF no] by simp
    then have stack: "path_stack ?p = (n @ ''.json'') # st0"
      unfolding path_stack_def root by (simp add: st0_def r_def json_name_step)
    have "join_with ''/'' (rev (path_stack ?p))
        = (if st0 = [] then [] else join_with ''/'' (rev st0) @ ''/'') @ n @ ''.json''"
      by (simp add: stack join_with_snoc)
    with root have "path_Clean ?p = pre @ n @ ''.json''"
      unfolding path_Clean_def by (simp add: pre_def r_def)
    with False show ?thesis by (simp add: state_file_def path_Join_def)
  qed
  then show ?thesis by blast
qed

lemma state_file_inj:
  "plain_name n \<Longrightarrow> plain_name n' \<Longrightarrow> state_file dir n = state_file dir n' \<longleftrightarrow> n = n'"
  using state_file_last [of dir] by auto

lemma marshal_unmarshal:
  assumes "json_storable st"
  obtains d where "marshal_state (Some st) = Inr d" and "unmarshal_state d = Inr st" and "d \<noteq> []"
proof -
  from assms enc_state_total obtain j where j: "enc_state st = Inr j" by (auto simp: json_storable_def)
  with assms have "json_ok j" "dec_state j = Inr st"
    by (auto simp: json_storable_def state_fit state_roundtrip)
  with j that [of "print_json j"] show ?thesis
    by (simp add: marshal_state_def enc_pointer_def unmarshal_state_def parse_print_ok enc_state_text)
qed

lemma FileStore_save:
  assumes "json_storable st"
  obtains d where "unmarshal_state d = Inr st"
    and "FileStore_SaveState NoFault dir n (Some st) fs = (None, mput (state_file dir n) d fs)"
proof -
  obtain d where d: "marshal_state (Some st) = Inr d" "unmarshal_state d = Inr st"
    by (rule marshal_unmarshal [OF assms])
  show ?thesis by (rule that [OF d(2)]) (simp add: FileStore_SaveState_def os_WriteFile_def d(1))
qed

lemma FileStore_delete:
  "FileStore_DeleteState NoFault dir n fs = (None, mdel (state_file dir n) fs)"
  by (simp add: FileStore_DeleteState_def os_Remove_def split: option.split)

interpretation fstore: session_store "FileStore_SaveState NoFault dir" "FileStore_LoadState NoFault dir"
    "FileStore_DeleteState NoFault dir" plain_name json_storable "\<lambda>_. True" for dir
proof unfold_locales
  fix s :: files and n n' st
  show "fst (FileStore_SaveState NoFault dir n (Some st) s) = None" if "json_storable st"
    by (rule FileStore_save [OF that, of dir n s]) simp
  show "FileStore_LoadState NoFault dir n' (snd (FileStore_SaveState NoFault dir n (Some st) s)) =
      (if n' = n then Inr (Some st) else FileStore_LoadState NoFault dir n' s)"
    if st: "json_storable st" and names: "plain_name n" "plain_name n'"
  proof -
    obtain d where "unmarshal_state d = Inr st"
      "FileStore_SaveState NoFault dir n (Some st) s = (None, mput (state_file dir n) d s)"
      by (rule FileStore_save [OF st])
    with state_file_inj [OF names, of dir] show ?thesis
      by (auto simp: FileStore_LoadState_def os_ReadFile_def)
  qed
  show "FileStore_LoadState NoFault dir n' (snd (FileStore_DeleteState NoFault dir n s)) =
      (if n' = n then Inr None else FileStore_LoadState NoFault dir n' s)"
    if names: "plain_name n" "plain_name n'"
    using state_file_inj [OF names, of dir]
    by (auto simp: FileStore_delete FileStore_LoadState_def os_ReadFile_def)
qed (simp_all add: FileStore_delete)

subsection \<open>The Redis store is a session store\<close>

text \<open>
  What the store expects of a \<open>RedisClient\<close> that is up: \<open>held\<close> is what the server holds under each key
  (no key runs out meanwhile).
\<close>

locale redis_contract =
  fixes cl :: "'c redis_client" and up :: "'c \<Rightarrow> bool" and held :: "'c \<Rightarrow> string \<Rightarrow> payload option"
  assumes set_ok: "up c \<Longrightarrow> fst (rd_Set cl k d t c) = None"
    and set_up: "up c \<Longrightarrow> up (snd (rd_Set cl k d t c))"
    and set_holds: "up c \<Longrightarrow> held (snd (rd_Set cl k d t c)) = (held c)(k \<mapsto> d)"
    and get_found: "up c \<Longrightarrow> held c k = Some d \<Longrightarrow> rd_Get cl k c = Inr d"
    and get_missing: "up c \<Longrightarrow> held c k = None \<Longrightarrow> \<exists>e. rd_Get cl k c = Inl e \<and> err_text e = ''redis: nil''"
    and del_ok: "up c \<Longrightarrow> fst (rd_Del cl ks c) = None"
    and del_up: "up c \<Longrightarrow> up (snd (rd_Del cl ks c))"
    and del_holds: "up c \<Longrightarrow> held (snd (rd_Del cl ks c)) = (\<lambda>k. if k \<in> set ks then None else held c k)"
begin

lemma SaveState_run:
  "up c \<Longrightarrow> marshal_state (Some st) = Inr d \<Longrightarrow>
     RedisStore_SaveState cl rs n (Some st) c = (None, snd (rd_Set cl (rs_prefix rs @ n) d (rs_ttl rs) c))"
  using set_ok [of c "rs_prefix rs @ n" d "rs_ttl rs"]
  by (cases "rd_Set cl (rs_prefix rs @ n) d (rs_ttl rs) c") (simp add: RedisStore_SaveState_def)

lemma SaveState_up: "up c \<Longrightarrow> up (snd (RedisStore_SaveState cl rs n st c))"
  using set_up [of c "rs_prefix rs @ n" _ "rs_ttl rs"]
  by (auto simp: RedisStore_SaveState_def split: option.split sum.split prod.split) (metis snd_conv)+

lemma DeleteState_run:
  "up c \<Longrightarrow> RedisStore_DeleteState cl rs n c = (None, snd (rd_Del cl [rs_prefix rs @ n] c))"
  using del_ok [of c "[rs_prefix rs @ n]"]
  by (cases "rd_Del cl [rs_prefix rs @ n] c") (simp add: RedisStore_DeleteState_def)

lemma LoadState_run:
  "up c \<Longrightarrow> RedisStore_LoadState cl rs n c =
     (case held c (rs_prefix rs @ n) of None \<Rightarrow> Inr None
      | Some d \<Rightarrow> if d = [] then Inr None
           else map_sum (wrap_msg ''failed to unmarshal session state'') Some (unmarshal_state d))"
  using get_found [of c "rs_prefix rs @ n"] get_missing [of c "rs_prefix rs @ n"]
  by (cases "held c (rs_prefix rs @ n)") (auto simp: RedisStore_LoadState_def split: sum.split)

text \<open>Only keys with the prefix of the store are written.\<close>

lemma step_elsewhere:
  assumes "up c" and "\<And>n. k \<noteq> rs_prefix rs @ n"
  shows "held (store_step (RedisStore_SaveState cl rs) (RedisStore_DeleteState cl rs) c x) k = held c k"
proof (cases x)
  case (OpSave n st)
  show ?thesis
  proof (cases "marshal_state (Some st)")
    case (Inl e)
    with OpSave show ?thesis by (simp add: store_step_def RedisStore_SaveState_def)
  next
    case (Inr d)
    with OpSave assms show ?thesis by (simp add: store_step_def SaveState_run set_holds)
  qed
next
  case (OpDelete n)
  with assms show ?thesis by (simp add: store_step_def DeleteState_run del_holds)
qed

end

text \<open>The store over any such client is a session store.\<close>

sublocale redis_contract \<subseteq> over: session_store "RedisStore_SaveState cl rs"
    "RedisStore_LoadState cl rs" "RedisStore_DeleteState cl rs" "\<lambda>_. True" json_storable up for rs
proof unfold_locales
  fix s n n' st
  assume h: "up s"
  show "up (snd (RedisStore_DeleteState cl rs n s))" using h by (simp add: DeleteState_run del_up)
  show "fst (RedisStore_DeleteState cl rs n s) = None" using h by (simp add: DeleteState_run)
  show "RedisStore_LoadState cl rs n' (snd (RedisStore_DeleteState cl rs n s)) =
      (if n' = n then Inr None else RedisStore_LoadState cl rs n' s)"
    using h by (simp add: DeleteState_run LoadState_run del_up del_holds)
  show "up (snd (RedisStore_SaveState cl rs n (Some st) s))" using h by (rule SaveState_up)
  assume "json_storable st"
  then obtain d where j: "marshal_state (Some st) = Inr d" "unmarshal_state d = Inr st" "d \<noteq> []"
    by (rule marshal_unmarshal)
  show "fst (RedisStore_SaveState cl rs n (Some st) s) = None" using h j by (simp add: SaveState_run)
  show "RedisStore_LoadState cl rs n' (snd (RedisStore_SaveState cl rs n (Some st) s)) =
      (if n' = n then Inr (Some st) else RedisStore_LoadState cl rs n' s)"
    using h j by (simp add: SaveState_run LoadState_run set_up set_holds)
qed

context redis_contract
begin

lemma run_is_map:
  "up c \<Longrightarrow> list_all (op_ok (\<lambda>_. True) json_storable) ops \<Longrightarrow> RedisStore_LoadState cl rs n c = Inr (m n) \<Longrightarrow>
     RedisStore_LoadState cl rs n (foldl (store_step (RedisStore_SaveState cl rs) (RedisStore_DeleteState cl rs)) c ops)
       = Inr (foldl spec_step m ops n)"
  by (rule over.run_refines) simp_all

lemma save_then_load:
  "up c \<Longrightarrow> json_storable st \<Longrightarrow> fst (RedisStore_SaveState cl rs n (Some st) c) = None
     \<and> RedisStore_LoadState cl rs n (snd (RedisStore_SaveState cl rs n (Some st) c)) = Inr (Some st)"
  by (simp add: over.save_succeeds over.load_after_save)

lemma delete_then_load:
  "up c \<Longrightarrow> RedisStore_LoadState cl rs n (snd (RedisStore_DeleteState cl rs n c)) = Inr None"
  by (simp add: over.load_after_delete)

lemma run_elsewhere:
  assumes "up c" and "\<And>n. k \<noteq> rs_prefix rs @ n"
  shows "held (foldl (store_step (RedisStore_SaveState cl rs) (RedisStore_DeleteState cl rs)) c ops) k = held c k"
  using assms(1)
proof (induction ops arbitrary: c)
  case (Cons x ops)
  then show ?case by (simp add: over.step_healthy step_elsewhere [OF _ assms(2)])
qed simp

end

text \<open>A client that is up, of which nothing else is known.\<close>

definition client_up :: "'c redis_client \<Rightarrow> 'c \<Rightarrow> bool" where
  "client_up cl c \<longleftrightarrow> (\<exists>up held. redis_contract cl up held \<and> up c)"

lemma client_upI: "redis_contract cl up held \<Longrightarrow> up c \<Longrightarrow> client_up cl c"
  by (auto simp: client_up_def)

lemma client_upE:
  assumes "client_up cl c"
  obtains up held where "redis_contract cl up held" and "up c"
  using assms by (auto simp: client_up_def)

lemma client_up_save: "client_up cl c \<Longrightarrow> client_up cl (snd (RedisStore_SaveState cl rs n st c))"
  by (erule client_upE, rule client_upI, assumption, rule redis_contract.SaveState_up)

lemma client_save_then_load:
  assumes "client_up cl c" and "json_storable st"
  shows "fst (RedisStore_SaveState cl rs n (Some st) c) = None"
    and "RedisStore_LoadState cl rs n (snd (RedisStore_SaveState cl rs n (Some st) c)) = Inr (Some st)"
proof -
  from assms(1) obtain up held where c: "redis_contract cl up held" "up c" by (rule client_upE)
  note run = redis_contract.save_then_load [OF c assms(2), of rs n]
  show "fst (RedisStore_SaveState cl rs n (Some st) c) = None" by (rule conjunct1 [OF run])
  show "RedisStore_LoadState cl rs n (snd (RedisStore_SaveState cl rs n (Some st) c)) = Inr (Some st)"
    by (rule conjunct2 [OF run])
qed

lemma client_delete_then_load:
  "client_up cl c \<Longrightarrow> RedisStore_LoadState cl rs n (snd (RedisStore_DeleteState cl rs n c)) = Inr None"
  by (erule client_upE, rule redis_contract.delete_then_load)

text \<open>The mock client, as long as no error is injected.\<close>

definition mock_healthy :: "mock_redis \<Rightarrow> bool" where
  "mock_healthy m \<longleftrightarrow> mk_get_error m = None \<and> mk_set_error m = None \<and> mk_del_error m = None"

lemma mock_ops [simp]:
  "rd_Set mock_client = mock_Set" "rd_Get mock_client = mock_Get" "rd_Del mock_client = mock_Del"
  by (simp_all add: mock_client_def)

lemma mget_mdel_all: "mget (fold mdel ks m) = (\<lambda>k. if k \<in> set ks then None else mget m k)"
  by (induction ks arbitrary: m) (auto simp: fun_eq_iff)

interpretation rmock: redis_contract mock_client mock_healthy "\<lambda>m. mget (mk_data m)"
  by unfold_locales
    (auto simp: mock_healthy_def mock_Set_def mock_Get_def mock_Del_def mget_mdel_all)

subsection \<open>Properties\<close>

text \<open>
  C13. The file store is a map: after any sequence of saves and deletes under names without a slash
  on an empty directory, with no I/O error, loading a name gives the state last saved under it, or
  nothing after a delete and for a name never saved.
\<close>

theorem FileStore_is_a_map:
  assumes "list_all (op_ok plain_name json_storable) ops" and "plain_name n"
  shows "FileStore_LoadState NoFault dir n
      (foldl (store_step (FileStore_SaveState NoFault dir) (FileStore_DeleteState NoFault dir)) [] ops)
    = Inr (foldl spec_step (\<lambda>_. None) ops n)"
  using assms by (intro fstore.run_refines) (simp_all add: FileStore_LoadState_def os_ReadFile_def)

theorem FileStore_is_a_map_witness:
  "FileStore_LoadState NoFault ''d'' ''s''
      (foldl (store_step (FileStore_SaveState NoFault ''d'') (FileStore_DeleteState NoFault ''d'')) []
        [OpSave ''s'' sample_state, OpSave ''t'' sample_state, OpDelete ''t''])
    = Inr (Some sample_state)"
proof -
  let ?ops = "[OpSave ''s'' sample_state, OpSave ''t'' sample_state, OpDelete ''t'']"
  have "list_all (op_ok plain_name json_storable) ?ops" and "plain_name ''s''"
    by (simp_all add: op_ok_def plain_name_def json_storable_def sample_state_ok)
  moreover have "foldl spec_step (\<lambda>_. None) ?ops ''s'' = Some sample_state"
    by (simp add: spec_step_def)
  ultimately show ?thesis by (metis FileStore_is_a_map)
qed

text \<open>
  The Redis store over the repository's mock client is a map for every session name, whatever
  the key prefix, as long as no error is injected.
\<close>

theorem RedisStore_is_a_map:
  assumes "list_all (op_ok (\<lambda>_. True) json_storable) ops"
  shows "RedisStore_LoadState mock_client rs n
      (foldl (store_step (RedisStore_SaveState mock_client rs) (RedisStore_DeleteState mock_client rs))
        NewMockRedisClient ops)
    = Inr (foldl spec_step (\<lambda>_. None) ops n)"
  using assms
  by (intro rmock.over.run_refines)
    (simp_all add: mock_healthy_def NewMockRedisClient_def RedisStore_LoadState_def mock_Get_def)

theorem RedisStore_is_a_map_witness:
  "RedisStore_LoadState mock_client (NewRedisStore None) ''s''
      (foldl (store_step (RedisStore_SaveState mock_client (NewRedisStore None))
                (RedisStore_DeleteState mock_client (NewRedisStore None)))
        NewMockRedisClient [OpSave ''s'' sample_state, OpDelete ''t''])
    = Inr (Some sample_state)"
proof -
  let ?ops = "[OpSave ''s'' sample_state, OpDelete ''t'']"
  have "list_all (op_ok (\<lambda>_. True) json_storable) ?ops"
    by (simp add: op_ok_def json_storable_def sample_state_ok)
  moreover have "foldl spec_step (\<lambda>_. None) ?ops ''s'' = Some sample_state"
    by (simp add: spec_step_def)
  ultimately show ?thesis by (metis RedisStore_is_a_map)
qed

text \<open>
  A session name is used in the file's path as it is: with a slash and dots in it, the
  name of one session denotes the file of another, so that saving one overwrites the other, and a
  file outside the store's directory.
\<close>

theorem FileStore_names_escape:
  "snd (FileStore_SaveState NoFault ''data'' ''x/../a'' st fs) = snd (FileStore_SaveState NoFault ''data'' ''a'' st fs)
   \<and> state_file ''var/data'' ''../../etc/passwd'' = ''etc/passwd.json''"
proof -
  have "state_file ''data'' ''x/../a'' = state_file ''data'' ''a''"
    and "state_file ''var/data'' ''../../etc/passwd'' = ''etc/passwd.json''"
    by (simp_all add: state_file_def path_Join_def path_Clean_def path_stack_def clean_step_def)
  then show ?thesis by (simp add: FileStore_SaveState_def split: sum.split)
qed

text \<open>
  A topic that is not UTF-8 does not survive being stored: the state that is read back has U+FFFD in
  place of every byte that is no part of a rune, so that a restored session subscribes to another
  topic, and two such topics can become one.
\<close>

definition coerce_topic :: "topic_subscription \<Rightarrow> topic_subscription" where
  "coerce_topic s = s\<lparr>ts_topic := coerce (ts_topic s)\<rparr>"

lemma subscriptions_json:
  "traverse enc_subscription ts
     = Inr (map (\<lambda>s. JObj [(''topic'', JStr (ts_topic s)), (''qos'', JNum (uint (ts_qos s)))]) ts)"
  by (induction ts) (simp_all add: enc_subscription_def)

lemma topics_json:
  "enc_slice enc_subscription (Some ts)
     = Inr (JArr (map (\<lambda>s. JObj [(''topic'', JStr (ts_topic s)), (''qos'', JNum (uint (ts_qos s)))]) ts))"
  by (simp add: enc_slice_def subscriptions_json)

theorem invalid_topics_replaced:
  assumes "json_storable (st\<lparr>st_topics := None\<rparr>)"
  shows "\<exists>d. marshal_state (Some (st\<lparr>st_topics := Some ts\<rparr>)) = Inr d
    \<and> unmarshal_state d = Inr (st\<lparr>st_topics := Some (map coerce_topic ts)\<rparr>)"
proof -
  let ?st = "st\<lparr>st_topics := Some ts\<rparr>" and ?st' = "st\<lparr>st_topics := Some (map coerce_topic ts)\<rparr>"
  have ok: "state_ok ?st'" and times: "state_times_ok ?st'" "state_times_ok ?st"
    using assms by (auto simp: json_storable_def state_ok_def state_times_ok_def opt_ok_def list_all_iff coerce_topic_def)
  obtain j where j: "enc_state ?st = Inr j" using enc_state_total [OF times(2)] by blast
  obtain j' where j': "enc_state ?st' = Inr j'" using enc_state_total [OF times(1)] by blast
  have fit: "json_ok j'" by (rule state_fit [OF j' ok])
  have "coerce_json j = coerce_json j'"
    using j j'
    by (elim enc_stateE) (auto simp: topics_json coerce_topic_def)
  then have cj: "coerce_json j = j'" using fit by (simp add: json_ok_def coerce_strings_ok)
  have "lits_ok j" "json_depth j \<le> max_depth"
    using fit lits_coerce [of j] depth_coerce [of j] by (simp_all add: json_ok_def cj)
  then have "parse_json (print_json j) = Some j'" using parse_print cj by simp
  then show ?thesis
    using j state_roundtrip [OF j' ok] by (simp add: marshal_state_def enc_pointer_def unmarshal_state_def)
qed

theorem invalid_topics_replaced_witness:
  "\<exists>d. marshal_state (Some (sample_state\<lparr>st_topics := Some [\<lparr>ts_topic = utf8 [97, 255], ts_qos = 1\<rparr>]\<rparr>)) = Inr d
    \<and> unmarshal_state d = Inr (sample_state\<lparr>st_topics := Some [\<lparr>ts_topic = utf8 [97, 239, 191, 189], ts_qos = 1\<rparr>]\<rparr>)"
proof -
  have "json_storable (sample_state\<lparr>st_topics := None\<rparr>)"
    using sample_state_ok by (simp add: json_storable_def state_ok_def state_times_ok_def opt_ok_def)
  moreover have "coerce (utf8 [97, 255]) = utf8 [97, 239, 191, 189]"
    by (simp add: utf8_def coerce_def runes.simps(2) rune_len.simps(2) rune_value_def rune_error_def)
  ultimately show ?thesis
    using invalid_topics_replaced [of sample_state "[\<lparr>ts_topic = utf8 [97, 255], ts_qos = 1\<rparr>]"]
    by (simp add: coerce_topic_def)
qed

end
