(* ===== verification/Sessions.thy ===== *)
theory Sessions
  imports Config Recovery Stores
begin

text \<open>
  A session (\<open>session.go\<close>, \<open>Session\<close> and \<open>HandlerRegistry\<close> of \<open>types.go\<close>): the
  state machine around one MQTT client, with its handlers, counters, persistent state and
  reconnect back-off.

  The operations work on a session and the \<open>hub\<close>, the part of the manager and of the outside
  that sessions share: the event manager, the manager's counters, the error recovery table, the
  file system and the Redis server. The MQTT client is third-party code: what a call to it answers
  is an argument of the operation, and the calls made are kept in \<open>se_calls\<close>. Logging is left
  out.
\<close>

subsection \<open>State\<close>

definition stateDisconnected :: u32 where "stateDisconnected = 0"
definition stateConnecting :: u32 where "stateConnecting = 1"
definition stateConnected :: u32 where "stateConnected = 2"
definition stateReconnecting :: u32 where "stateReconnecting = 3"
definition stateClosed :: u32 where "stateClosed = 4"

lemmas state_defs =
  stateDisconnected_def stateConnecting_def stateConnected_def stateReconnecting_def stateClosed_def

definition StatusToString :: "u32 \<Rightarrow> string" where
  "StatusToString status =
     (if status = stateDisconnected then ''disconnected''
      else if status = stateConnecting then ''connecting''
      else if status = stateConnected then ''connected''
      else if status = stateReconnecting then ''reconnecting''
      else if status = stateClosed then ''closed''
      else ''unknown'')"

text \<open>The connect and connection-lost functions: the default, a user's function, or nil.\<close>

datatype hook = DefaultHook | UserHook nat | NilHook

record handler_registry =
  hr_connect :: hook
  hr_lost :: hook
  hr_handlers :: "(string, handler) gomap"

text \<open>What \<open>init\<close> configures the MQTT client with.\<close>

record client_options =
  co_brokers :: "string list"
  co_client_id :: string
  co_username :: string
  co_password :: string
  co_keep_alive :: int
  co_clean :: bool
  co_auto_reconnect :: bool
  co_connect_timeout :: int
  co_max_reconnect :: int
  co_write_timeout :: int
  co_chan_depth :: "u64 option"
  co_tls :: bool

datatype client_call =
    CConnect
  | CPublish string byte bool payload
  | CSubscribe string byte handler
  | CUnsubscribe "string list"
  | CDisconnect nat

datatype sstore = MemStore memory_store | FilStore string | RedStore redis_store

record session =
  se_name :: string
  se_client :: "client_options option"
  se_status :: u32
  se_opts :: options
  se_handlers :: handler_registry
  se_metrics :: session_metrics
  se_store :: sstore
  se_sequence :: u64
  se_reconnects :: u32
  se_next :: int
  se_calls :: "client_call list"
  se_hooks :: "(hook \<times> goerr option) list"

record 'c hub =
  hb_events :: event_manager
  hb_metrics :: metrics
  hb_recovery :: recovery
  hb_files :: files
  hb_redis :: 'c

type_synonym ('c, 'a) world = "session \<times> ('c, 'a) hub_scheme"

text \<open>
  What an operation reads from outside: the clock, the fault (if any) of its file operations, the
  Redis client, and the implementation's result of a float conversion out of range.
\<close>

record 'c env =
  en_now :: int
  en_fault :: fault
  en_redis :: "'c redis_client"
  en_overflow :: int

text \<open>
  One attempt of a retry loop: the answer of the client's token, and what other goroutines did
  during the sleep before the attempt (not used by the first attempt).
\<close>

record ('c, 'w) attempt =
  at_gap :: "'w \<Rightarrow> 'w"
  at_error :: "goerr option"
  at_env :: "'c env"

text \<open>How a call that can panic ends.\<close>

datatype ret = Returned "goerr option" | Panicked

subsection \<open>The handler registry\<close>

definition newHandlerRegistry :: handler_registry where
  "newHandlerRegistry = \<lparr>hr_connect = DefaultHook, hr_lost = DefaultHook, hr_handlers = []\<rparr>"

definition SetConnectHandler :: "hook \<Rightarrow> handler_registry \<Rightarrow> handler_registry" where
  "SetConnectHandler f h = h\<lparr>hr_connect := f\<rparr>"

definition SetConnectLostHandler :: "hook \<Rightarrow> handler_registry \<Rightarrow> handler_registry" where
  "SetConnectLostHandler f h = h\<lparr>hr_lost := f\<rparr>"

definition AddMessageHandler :: "string \<Rightarrow> handler \<Rightarrow> handler_registry \<Rightarrow> handler_registry" where
  "AddMessageHandler tpc f h = h\<lparr>hr_handlers := mput tpc f (hr_handlers h)\<rparr>"

definition RemoveMessageHandler :: "string \<Rightarrow> handler_registry \<Rightarrow> handler_registry" where
  "RemoveMessageHandler tpc h = h\<lparr>hr_handlers := mdel tpc (hr_handlers h)\<rparr>"

definition GetMessageHandler :: "handler_registry \<Rightarrow> string \<Rightarrow> handler option" where
  "GetMessageHandler h tpc = mget (hr_handlers h) tpc"

definition GetAllTopics :: "handler_registry \<Rightarrow> string list" where
  "GetAllTopics h = mkeys (hr_handlers h)"

definition ClearMessageHandlers :: "handler_registry \<Rightarrow> handler_registry" where
  "ClearMessageHandlers h = h\<lparr>hr_handlers := []\<rparr>"

definition CountMessageHandlers :: "handler_registry \<Rightarrow> nat" where
  "CountMessageHandlers h = length (hr_handlers h)"

interpretation registry: keyed_store GetMessageHandler AddMessageHandler RemoveMessageHandler
  by unfold_locales
    (auto simp: GetMessageHandler_def AddMessageHandler_def RemoveMessageHandler_def fun_eq_iff)

subsection \<open>Small operations\<close>

definition emit_hub :: "event \<Rightarrow> ('c, 'a) hub_scheme \<Rightarrow> ('c, 'a) hub_scheme" where
  "emit_hub e h = h\<lparr>hb_events := emit e (hb_events h)\<rparr>"

definition setState :: "int \<Rightarrow> u32 \<Rightarrow> ('c, 'a) world \<Rightarrow> ('c, 'a) world" where
  "setState now st w =
     (case w of (s, h) \<Rightarrow>
        let oldState = se_status s; s' = s\<lparr>se_status := st\<rparr>
        in if oldState \<noteq> st
           then (s', emit_hub
                   \<lparr>ev_type = EventStateChanged, ev_session = se_name s,
                    ev_data = MapData [(''old_state'', FU32 oldState), (''new_state'', FU32 st)],
                    ev_time = now\<rparr> h)
           else (s', h))"

definition on_session :: "(session \<Rightarrow> session) \<Rightarrow> ('c, 'a) world \<Rightarrow> ('c, 'a) world" where
  "on_session f w = (f (fst w), snd w)"

definition record_call :: "client_call \<Rightarrow> session \<Rightarrow> session" where
  "record_call c s = s\<lparr>se_calls := se_calls s @ [c]\<rparr>"

definition session_error :: "int \<Rightarrow> session \<Rightarrow> session" where
  "session_error now s = s\<lparr>se_metrics := sm_recordError now (se_metrics s)\<rparr>"

definition IsConnected :: "session \<Rightarrow> bool" where
  "IsConnected s \<longleftrightarrow> se_status s = stateConnected"

definition sprops :: "session \<Rightarrow> connect_props" where
  "sprops s = props_of (se_opts s)"

text \<open>\<open>Manager.RegisterError\<close>, which a session calls when its connection is lost.\<close>

definition hub_RegisterError ::
  "string \<Rightarrow> goerr option \<Rightarrow> category \<Rightarrow> int \<Rightarrow> ('c, 'a) hub_scheme \<Rightarrow> ('c, 'a) hub_scheme" where
  "hub_RegisterError name err cat now h =
     (let h1 = (if err \<noteq> None then h\<lparr>hb_metrics := metrics_recordError now (hb_metrics h)\<rparr> else h)
      in h1\<lparr>hb_recovery := snd (RegisterError name err cat now (hb_recovery h1))\<rparr>)"

subsection \<open>The store of a session\<close>

definition store_SaveState ::
  "'c env \<Rightarrow> session_state option \<Rightarrow> ('c, 'a) world \<Rightarrow> goerr option \<times> ('c, 'a) world" where
  "store_SaveState en st w =
     (case w of (s, h) \<Rightarrow>
        (case se_store s of
           MemStore m \<Rightarrow>
             (case MemoryStore_SaveState (se_name s) st m of
                (r, m') \<Rightarrow> (r, (s\<lparr>se_store := MemStore m'\<rparr>, h)))
         | FilStore dir \<Rightarrow>
             (case FileStore_SaveState (en_fault en) dir (se_name s) st (hb_files h) of
                (r, fs) \<Rightarrow> (r, (s, h\<lparr>hb_files := fs\<rparr>)))
         | RedStore rs \<Rightarrow>
             (case RedisStore_SaveState (en_redis en) rs (se_name s) st (hb_redis h) of
                (r, c) \<Rightarrow> (r, (s, h\<lparr>hb_redis := c\<rparr>)))))"

definition store_LoadState :: "'c env \<Rightarrow> ('c, 'a) world \<Rightarrow> goerr + session_state option" where
  "store_LoadState en w =
     (case w of (s, h) \<Rightarrow>
        (case se_store s of
           MemStore m \<Rightarrow> MemoryStore_LoadState (se_name s) m
         | FilStore dir \<Rightarrow> FileStore_LoadState (en_fault en) dir (se_name s) (hb_files h)
         | RedStore rs \<Rightarrow> RedisStore_LoadState (en_redis en) rs (se_name s) (hb_redis h)))"

definition store_DeleteState :: "'c env \<Rightarrow> ('c, 'a) world \<Rightarrow> goerr option \<times> ('c, 'a) world" where
  "store_DeleteState en w =
     (case w of (s, h) \<Rightarrow>
        (case se_store s of
           MemStore m \<Rightarrow>
             (case MemoryStore_DeleteState (se_name s) m of
                (r, m') \<Rightarrow> (r, (s\<lparr>se_store := MemStore m'\<rparr>, h)))
         | FilStore dir \<Rightarrow>
             (case FileStore_DeleteState (en_fault en) dir (se_name s) (hb_files h) of
                (r, fs) \<Rightarrow> (r, (s, h\<lparr>hb_files := fs\<rparr>)))
         | RedStore rs \<Rightarrow>
             (case RedisStore_DeleteState (en_redis en) rs (se_name s) (hb_redis h) of
                (r, c) \<Rightarrow> (r, (s, h\<lparr>hb_redis := c\<rparr>)))))"

subsection \<open>Saving\<close>

definition session_expiry :: "int \<Rightarrow> session \<Rightarrow> int" where
  "session_expiry now s =
     (if cp_persistent (sprops s)
      then (case op_storage (se_opts s) of
              Some so \<Rightarrow>
                (case so_redis so of
                   Some r \<Rightarrow>
                     if so_type so = StoreTypeRedis then now + i64 (ro_ttl r * second)
                     else now + 24 * 3600 * second
                 | None \<Rightarrow> now + 24 * 3600 * second)
            | None \<Rightarrow> now + 24 * 3600 * second)
      else zero_time)"

definition collect_state :: "int \<Rightarrow> session \<Rightarrow> session_state" where
  "collect_state now s =
     \<lparr>st_topics = Some (map (\<lambda>t. \<lparr>ts_topic = t, ts_qos = 0\<rparr>) (mkeys (hr_handlers (se_handlers s)))),
      st_messages = Some [], st_sequence = se_sequence s, st_connected = now,
      st_disconnected = zero_time, st_qos_messages = Some [], st_retained = Some [],
      st_client = op_client_id (se_opts s), st_expiry = session_expiry now s, st_version = 1\<rparr>"

definition saveState :: "'c env \<Rightarrow> ('c, 'a) world \<Rightarrow> goerr option \<times> ('c, 'a) world" where
  "saveState en w = store_SaveState en (Some (collect_state (en_now en) (fst w))) w"

text \<open>Saving when the session is persistent; a failure is only logged.\<close>

definition save_if_persistent :: "'c env \<Rightarrow> ('c, 'a) world \<Rightarrow> ('c, 'a) world" where
  "save_if_persistent en w = (if cp_persistent (sprops (fst w)) then snd (saveState en w) else w)"

subsection \<open>Publish, Subscribe and Unsubscribe\<close>

definition maxRetries :: nat where "maxRetries = 3"

text \<open>
  The loop of \<open>Publish\<close> from attempt \<open>i\<close> on, \<open>k\<close> attempts being left. After a failed attempt
  that is not the last the code sleeps, and goes on in the world the others leave.
\<close>

fun Publish_loop ::
  "nat \<Rightarrow> nat \<Rightarrow> (nat \<Rightarrow> ('c, ('c, 'a) world) attempt) \<Rightarrow> string \<Rightarrow> payload \<Rightarrow> byte \<Rightarrow> goerr option \<Rightarrow>
     ('c, 'a) world \<Rightarrow> goerr option \<times> ('c, 'a) world" where
  "Publish_loop 0 i at tpc p qos lastErr w = (lastErr, w)"
| "Publish_loop (Suc k) i at tpc p qos lastErr w =
     (if se_status (fst w) \<noteq> stateConnected then
        (if i < maxRetries - 1
         then Publish_loop k (Suc i) at tpc p qos (Some (Sentinel ErrNotConnected)) (at_gap (at (Suc i)) w)
         else (Some (Sentinel ErrNotConnected), w))
      else
        let w1 = on_session (record_call (CPublish tpc qos False p)) w
        in case at_error (at i) of
             Some e \<Rightarrow>
               let w2 = on_session (session_error (en_now (at_env (at i)))) w1
               in if i < maxRetries - 1
                  then Publish_loop k (Suc i) at tpc p qos (Some e) (at_gap (at (Suc i)) w2)
                  else (Some e, w2)
           | None \<Rightarrow>
               (None, on_session (\<lambda>s. s\<lparr>se_metrics := sm_recordMessage True (of_nat (length p))
                                          (en_now (at_env (at i))) (se_metrics s)\<rparr>) w1))"

definition Publish ::
  "(nat \<Rightarrow> ('c, ('c, 'a) world) attempt) \<Rightarrow> string \<Rightarrow> payload \<Rightarrow> byte \<Rightarrow> ('c, 'a) world \<Rightarrow>
     goerr option \<times> ('c, 'a) world" where
  "Publish at tpc p qos w = Publish_loop maxRetries 0 at tpc p qos None w"

definition subscribed :: "'c env \<Rightarrow> string \<Rightarrow> handler \<Rightarrow> ('c, 'a) world \<Rightarrow> ('c, 'a) world" where
  "subscribed en tpc f w =
     save_if_persistent en
       (on_session (\<lambda>s. s\<lparr>se_handlers := AddMessageHandler tpc f (se_handlers s)\<rparr>) w)"

fun Subscribe_loop ::
  "nat \<Rightarrow> nat \<Rightarrow> (nat \<Rightarrow> ('c, ('c, 'a) world) attempt) \<Rightarrow> string \<Rightarrow> handler \<Rightarrow> byte \<Rightarrow> goerr option \<Rightarrow>
     ('c, 'a) world \<Rightarrow> goerr option \<times> ('c, 'a) world" where
  "Subscribe_loop 0 i at tpc f qos lastErr w = (lastErr, w)"
| "Subscribe_loop (Suc k) i at tpc f qos lastErr w =
     (if se_status (fst w) \<noteq> stateConnected then
        (if i < maxRetries - 1
         then Subscribe_loop k (Suc i) at tpc f qos (Some (Sentinel ErrNotConnected)) (at_gap (at (Suc i)) w)
         else (Some (Sentinel ErrNotConnected), w))
      else
        let w1 = on_session (record_call (CSubscribe tpc qos f)) w
        in case at_error (at i) of
             Some e \<Rightarrow>
               let w2 = on_session (session_error (en_now (at_env (at i)))) w1
               in if i < maxRetries - 1
                  then Subscribe_loop k (Suc i) at tpc f qos (Some e) (at_gap (at (Suc i)) w2)
                  else (Some e, w2)
           | None \<Rightarrow> (None, subscribed (at_env (at i)) tpc f w1))"

definition Subscribe ::
  "(nat \<Rightarrow> ('c, ('c, 'a) world) attempt) \<Rightarrow> string \<Rightarrow> handler \<Rightarrow> byte \<Rightarrow> ('c, 'a) world \<Rightarrow>
     goerr option \<times> ('c, 'a) world" where
  "Subscribe at tpc f qos w = Subscribe_loop maxRetries 0 at tpc f qos None w"

definition Unsubscribe ::
  "'c env \<Rightarrow> goerr option \<Rightarrow> string list \<Rightarrow> ('c, 'a) world \<Rightarrow> goerr option \<times> ('c, 'a) world" where
  "Unsubscribe en answer tpcs w =
     (if se_status (fst w) \<noteq> stateConnected then (Some (Sentinel ErrNotConnected), w)
      else
        let w1 = on_session (record_call (CUnsubscribe tpcs)) w
        in case answer of
             Some e \<Rightarrow> (Some e, on_session (session_error (en_now en)) w1)
           | None \<Rightarrow>
               (None, save_if_persistent en
                  (on_session (\<lambda>s. s\<lparr>se_handlers := fold RemoveMessageHandler tpcs (se_handlers s)\<rparr>) w1)))"

definition SubscribeShared ::
  "(nat \<Rightarrow> ('c, ('c, 'a) world) attempt) \<Rightarrow> string \<Rightarrow> string \<Rightarrow> handler \<Rightarrow> byte \<Rightarrow> ('c, 'a) world \<Rightarrow>
     goerr option \<times> ('c, 'a) world" where
  "SubscribeShared at grp tpc f qos w =
     (case shared_topic grp tpc (se_opts (fst w)) of
        Inl e \<Rightarrow> (Some e, w)
      | Inr t \<Rightarrow> Subscribe at t f qos w)"

definition UnsubscribeShared ::
  "'c env \<Rightarrow> goerr option \<Rightarrow> string \<Rightarrow> string \<Rightarrow> ('c, 'a) world \<Rightarrow> goerr option \<times> ('c, 'a) world" where
  "UnsubscribeShared en answer grp tpc w =
     (case shared_topic grp tpc (se_opts (fst w)) of
        Inl e \<Rightarrow> (Some e, w)
      | Inr t \<Rightarrow> Unsubscribe en answer [t] w)"

text \<open>
  A message arrives for a handler: the handler runs under \<open>safelyCallHandler\<close> (\<open>panics\<close> is
  whether it panics), and the message is counted in any case.
\<close>

definition safelyCallHandler :: "int \<Rightarrow> bool \<Rightarrow> session \<Rightarrow> session" where
  "safelyCallHandler now panics s = (if panics then session_error now s else s)"

definition deliver :: "int \<Rightarrow> bool \<Rightarrow> payload \<Rightarrow> session \<Rightarrow> session" where
  "deliver now panics p s =
     (let s1 = safelyCallHandler now panics s
      in s1\<lparr>se_metrics := sm_recordMessage False (of_nat (length p)) now (se_metrics s1)\<rparr>)"

subsection \<open>Restoring\<close>

fun resubscribe ::
  "nat \<Rightarrow> (nat \<Rightarrow> nat \<Rightarrow> ('c, ('c, 'a) world) attempt) \<Rightarrow> topic_subscription list \<Rightarrow>
     ('c, 'a) world \<Rightarrow> ('c, 'a) world" where
  "resubscribe j at [] w = w"
| "resubscribe j at (t # ts) w =
     resubscribe (Suc j) at ts
       (snd (Subscribe (at j) (ts_topic t) (RestoredHandler (ts_topic t)) (ts_qos t) w))"

text \<open>The loops over the stored messages log a field of each, and dereference a nil pointer.\<close>

definition has_nil_message :: "session_state \<Rightarrow> bool" where
  "has_nil_message st \<longleftrightarrow>
     (case st_messages st of None \<Rightarrow> False | Some xs \<Rightarrow> None \<in> set xs)
     \<or> (case st_qos_messages st of None \<Rightarrow> False | Some m \<Rightarrow> None \<in> snd ` set m)
     \<or> (case st_retained st of None \<Rightarrow> False | Some m \<Rightarrow> None \<in> snd ` set m)"

definition restoreState ::
  "'c env \<Rightarrow> (nat \<Rightarrow> nat \<Rightarrow> ('c, ('c, 'a) world) attempt) \<Rightarrow> ('c, 'a) world \<Rightarrow> ret \<times> ('c, 'a) world" where
  "restoreState en at w =
     (case store_LoadState en w of
        Inl e \<Rightarrow> (Returned (Some e), w)
      | Inr None \<Rightarrow> (Returned None, w)
      | Inr (Some st) \<Rightarrow>
          if \<not> IsZero (st_expiry st) \<and> en_now en > st_expiry st
          then (Returned None, snd (store_DeleteState en w))
          else
            let w1 = on_session (\<lambda>s. s\<lparr>se_sequence := st_sequence st\<rparr>) w;
                w2 = (if IsConnected (fst w1)
                      then resubscribe 0 at (case st_topics st of None \<Rightarrow> [] | Some ts \<Rightarrow> ts) w1
                      else w1)
            in if has_nil_message st then (Panicked, w2) else (Returned None, w2))"

subsection \<open>Creation\<close>

text \<open>
  The store of a new session: \<open>mkdir\<close> and \<open>ping\<close> are the outcomes of creating the directory
  and of reaching the Redis server.
\<close>

definition choose_store :: "goerr option \<Rightarrow> goerr option \<Rightarrow> options \<Rightarrow> sstore \<times> options" where
  "choose_store mkdir ping opts =
     (case op_connect opts of
        None \<Rightarrow> (MemStore [], opts)
      | Some cp \<Rightarrow>
          if \<not> cp_persistent cp then (MemStore [], opts)
          else
            let opts1 = (if op_storage opts = None
                         then opts\<lparr>op_storage := Some DefaultStorageOptions\<rparr> else opts);
                so = storage_of opts1
            in if so_type so = StoreTypeFile then
                 (if mkdir \<noteq> None then (MemStore [], opts1) else (FilStore (so_path so), opts1))
               else if so_type so = StoreTypeRedis then
                 (let r = (case so_redis so of None \<Rightarrow> DefaultRedisOptions | Some r \<Rightarrow> r);
                      opts2 = opts1\<lparr>op_storage := Some (so\<lparr>so_redis := Some r\<rparr>)\<rparr>
                  in if ping \<noteq> None then (MemStore [], opts2)
                     else (RedStore (NewRedisStore (Some (ro_prefix r, i64 (ro_ttl r * second)))), opts2))
               else (MemStore [], opts1))"

definition fresh_session :: "int \<Rightarrow> options \<Rightarrow> connect_props \<Rightarrow> sstore \<Rightarrow> session" where
  "fresh_session now opts cp st =
     \<lparr>se_name = op_name opts, se_client = None, se_status = stateDisconnected, se_opts = opts,
      se_handlers = newHandlerRegistry, se_metrics = newSessionMetrics now, se_store = st,
      se_sequence = 0, se_reconnects = 0, se_next = cp_initial cp, se_calls = [], se_hooks = []\<rparr>"

text \<open>\<^const>\<open>None\<close> is a panic: nil connection properties, or a nil message in the stored state.\<close>

definition newSession ::
  "'c env \<Rightarrow> goerr option \<Rightarrow> goerr option \<Rightarrow> options \<Rightarrow> ('c, 'a) hub_scheme \<Rightarrow> ('c, 'a) world option" where
  "newSession en mkdir ping opts h =
     (case choose_store mkdir ping opts of (st, opts1) \<Rightarrow>
        (case op_connect opts1 of
           None \<Rightarrow> None
         | Some cp \<Rightarrow>
             let w = (fresh_session (en_now en) opts1 cp st, h)
             in if cp_persistent cp
                then (case restoreState en (\<lambda>_ _. \<lparr>at_gap = id, at_error = None, at_env = en\<rparr>) w of
                        (Panicked, _) \<Rightarrow> None
                      | (Returned _, w') \<Rightarrow> Some w')
                else Some w))"

subsection \<open>Connecting\<close>

definition session_event :: "string \<Rightarrow> event_data \<Rightarrow> int \<Rightarrow> ('c, 'a) world \<Rightarrow> ('c, 'a) world" where
  "session_event ty d now w =
     (case w of (s, h) \<Rightarrow>
        (s, emit_hub \<lparr>ev_type = ty, ev_session = se_name s, ev_data = d, ev_time = now\<rparr> h))"

text \<open>\<open>connect\<close> with the answer of the client's token.\<close>

definition connect :: "int \<Rightarrow> goerr option \<Rightarrow> ('c, 'a) world \<Rightarrow> ('c, 'a) world" where
  "connect now answer w =
     (let w1 = setState now stateConnecting w;
          w2 = session_event EventSessionConnecting NoData now w1;
          w3 = on_session (record_call CConnect) w2
      in case answer of
           Some e \<Rightarrow>
             let w4 = setState now stateDisconnected w3;
                 w5 = on_session (session_error now) w4
             in session_event EventSessionDisconnected (ErrData (Some e)) now w5
         | None \<Rightarrow> setState now stateConnected w3)"

text \<open>
  \<open>init\<close>: \<open>tls\<close> and \<open>etls\<close> are the outcomes of the basic and the enhanced TLS configuration,
  \<open>watch\<close> that of starting the certificate watcher.
\<close>

definition client_options_of :: "bool \<Rightarrow> options \<Rightarrow> client_options" where
  "client_options_of tls opts =
     (let props = props_of opts
      in \<lparr>co_brokers = op_brokers opts, co_client_id = op_client_id opts,
          co_username = op_username opts, co_password = op_password opts,
          co_keep_alive = i64 (cp_keep_alive props * second), co_clean = cp_clean props,
          co_auto_reconnect = cp_auto props, co_connect_timeout = cp_connect_timeout props,
          co_max_reconnect = cp_max props,
          co_write_timeout =
            (case op_performance opts of None \<Rightarrow> cp_write_timeout props
             | Some p \<Rightarrow> if pf_write_timeout p > 0 then pf_write_timeout p else cp_write_timeout props),
          co_chan_depth =
            (case op_performance opts of None \<Rightarrow> None
             | Some p \<Rightarrow> if pf_chan_size p > 0 then Some (pf_chan_size p) else None),
          co_tls = tls\<rparr>)"

definition session_init ::
  "(options \<Rightarrow> goerr + tls_result option) \<Rightarrow> (options \<Rightarrow> goerr + bool) \<Rightarrow> goerr option \<Rightarrow> int \<Rightarrow>
     goerr option \<Rightarrow> ('c, 'a) world \<Rightarrow> goerr option \<times> ('c, 'a) world" where
  "session_init tls etls watch now answer w =
     (let w1 = on_session (\<lambda>s. s\<lparr>se_opts := (se_opts s)\<lparr>op_connect := Some (props_of (se_opts s))\<rparr>\<rparr>) w;
          opts = se_opts (fst w1);
          r = (case op_enhanced opts of
                 Some en \<Rightarrow>
                   (case etls opts of
                      Inl e \<Rightarrow> Inl e
                    | Inr t \<Rightarrow>
                        Inr (t, if et_auto_reload en \<and> watch = None
                                then opts\<lparr>op_enhanced := Some (en\<lparr>et_watching := True\<rparr>)\<rparr> else opts))
               | None \<Rightarrow>
                   (case tls opts of
                      Inl e \<Rightarrow> Inl e
                    | Inr t \<Rightarrow> Inr (t \<noteq> None, opts)))
      in case r of
           Inl e \<Rightarrow> (Some e, w1)
         | Inr (t, opts1) \<Rightarrow>
             (None,
              connect now answer
                (on_session (\<lambda>s. s\<lparr>se_opts := opts1, se_client := Some (client_options_of t opts1)\<rparr>) w1)))"

fun presubscribe ::
  "nat \<Rightarrow> (nat \<Rightarrow> nat \<Rightarrow> ('c, ('c, 'a) world) attempt) \<Rightarrow> topic_config list \<Rightarrow>
     ('c, 'a) world \<Rightarrow> bool \<times> ('c, 'a) world" where
  "presubscribe j at [] w = (False, w)"
| "presubscribe j at (t # ts) w =
     (case Subscribe (at j) (tc_topic t) (tc_handler t) (tc_qos t) w of
        (r, w1) \<Rightarrow>
          (case presubscribe (Suc j) at ts w1 of (bad, w2) \<Rightarrow> (r \<noteq> None \<or> bad, w2)))"

text \<open>The end of \<open>handleConnect\<close>: the event and the user's connect function.\<close>

definition finish_connect :: "int \<Rightarrow> bool \<Rightarrow> ('c, 'a) world \<Rightarrow> ret \<times> ('c, 'a) world" where
  "finish_connect now bad w =
     (let s = fst w; o1 = se_opts s; cp = sprops s;
          d = MapData
            [(''client_id'', FString (op_client_id o1)), (''clean_session'', FBool (cp_clean cp)),
             (''auto_reconnect'', FBool (cp_auto cp)), (''persistent'', FBool (cp_persistent cp)),
             (''subscriptions'', FInt (int (length (hr_handlers (se_handlers s))))),
             (''connected_broker'', FString (hd (op_brokers o1))), (''sub_errors'', FBool bad)];
          w1 = session_event EventSessionConnected d now w;
          hook = hr_connect (se_handlers (fst w1))
      in if hook = NilHook then (Panicked, w1)
         else (Returned None, on_session (\<lambda>s. s\<lparr>se_hooks := se_hooks s @ [(hook, None)]\<rparr>) w1))"

definition handleConnect ::
  "'c env \<Rightarrow> (nat \<Rightarrow> nat \<Rightarrow> ('c, ('c, 'a) world) attempt) \<Rightarrow> (nat \<Rightarrow> nat \<Rightarrow> ('c, ('c, 'a) world) attempt) \<Rightarrow>
     ('c, 'a) world \<Rightarrow> ret \<times> ('c, 'a) world" where
  "handleConnect en ra pa w =
     (let w1 = setState (en_now en) stateConnected w;
          w2 = on_session (\<lambda>s. s\<lparr>se_reconnects := 0, se_next := 0\<rparr>) w1;
          restored = (if cp_persistent (sprops (fst w2)) \<and> cp_resume (sprops (fst w2))
                      then restoreState en ra w2 else (Returned None, w2))
      in case restored of
           (Panicked, w3) \<Rightarrow> (Panicked, w3)
         | (Returned _, w3) \<Rightarrow>
             (case presubscribe 0 pa (op_topics (se_opts (fst w3))) w3 of
                (bad, w4) \<Rightarrow> finish_connect (en_now en) bad w4))"

subsection \<open>Losing the connection\<close>

definition handleConnectionLost ::
  "'c env \<Rightarrow> goerr option \<Rightarrow> ('c, 'a) world \<Rightarrow> ('c, 'a) world" where
  "handleConnectionLost en err w =
     (let now = en_now en;
          w1 = setState now stateDisconnected w;
          w2 = (if err \<noteq> None
                then (session_error now (fst w1),
                      hub_RegisterError (se_name (fst w1)) err CategoryConnection now (snd w1))
                else w1);
          w3 = (if cp_persistent (sprops (fst w2))
                then (case store_LoadState en w2 of
                        Inr (Some st) \<Rightarrow> snd (store_SaveState en (Some (st\<lparr>st_disconnected := now\<rparr>)) w2)
                      | _ \<Rightarrow> w2)
                else w2);
          w4 = session_event EventSessionDisconnected (ErrData err) now w3;
          hook = hr_lost (se_handlers (fst w4))
      in if hook \<noteq> NilHook then on_session (\<lambda>s. s\<lparr>se_hooks := se_hooks s @ [(hook, err)]\<rparr>) w4 else w4)"

definition next_interval :: "int \<Rightarrow> u32 \<Rightarrow> int \<Rightarrow> connect_props \<Rightarrow> int" where
  "next_interval ovf currentCount nextReconnect cp =
     (if currentCount = 1 \<or> nextReconnect = 0 then cp_initial cp
      else let newInterval = to_i64 ovf (f_mult (of_i64 nextReconnect) (cp_backoff cp))
           in if newInterval > cp_max cp then cp_max cp else newInterval)"

definition handleReconnecting :: "'c env \<Rightarrow> ('c, 'a) world \<Rightarrow> ('c, 'a) world" where
  "handleReconnecting en w =
     (let w1 = setState (en_now en) stateReconnecting w;
          w2 = on_session (\<lambda>s. s\<lparr>se_metrics := sm_recordReconnect (se_metrics s)\<rparr>) w1;
          w3 = (fst w2, (snd w2)\<lparr>hb_metrics := metrics_recordReconnect (hb_metrics (snd w2))\<rparr>);
          currentCount = se_reconnects (fst w3) + 1;
          nxt = next_interval (en_overflow en) currentCount (se_next (fst w3)) (sprops (fst w3));
          w4 = on_session (\<lambda>s. s\<lparr>se_reconnects := currentCount, se_next := nxt\<rparr>) w3
      in session_event EventSessionReconnecting
           (MapData [(''attempt'', FU32 currentCount), (''next_interval'', FInt nxt)]) (en_now en) w4)"

text \<open>\<open>connected\<close> is the client's answer to \<open>IsConnected\<close>.\<close>

definition Disconnect :: "'c env \<Rightarrow> bool \<Rightarrow> ('c, 'a) world \<Rightarrow> ('c, 'a) world" where
  "Disconnect en connected w =
     (let w1 = on_session (\<lambda>s. s\<lparr>se_opts := (se_opts s)\<lparr>op_enhanced :=
                 map_option (\<lambda>e. e\<lparr>et_watching := False\<rparr>) (op_enhanced (se_opts s))\<rparr>\<rparr>) w;
          w2 = (if se_client (fst w1) \<noteq> None \<and> connected
                then on_session (record_call (CDisconnect 250)) (save_if_persistent en w1)
                else w1);
          w3 = setState (en_now en) stateClosed w2
      in session_event EventSessionDisconnected NoData (en_now en) w3)"

subsection \<open>Readings\<close>

definition GetSessionStatus :: "session \<Rightarrow> u32" where
  "GetSessionStatus s =
     (let status = se_status s
      in if status = stateDisconnected then 0 else if status = stateConnecting then 1
         else if status = stateConnected then 2 else if status = stateReconnecting then 3
         else if status = stateClosed then 4 else 0)"

definition GetStatus :: "session \<Rightarrow> string" where
  "GetStatus s = StatusToString (GetSessionStatus s)"

definition IsSubscribed :: "session \<Rightarrow> string \<Rightarrow> bool" where
  "IsSubscribed s tpc \<longleftrightarrow> mget (hr_handlers (se_handlers s)) tpc \<noteq> None"

definition GetSubscribedTopics :: "session \<Rightarrow> string list" where
  "GetSubscribedTopics s = GetAllTopics (se_handlers s)"

definition GetSubscriptionCount :: "session \<Rightarrow> nat" where
  "GetSubscriptionCount s = CountMessageHandlers (se_handlers s)"

definition GetClientID :: "session \<Rightarrow> string" where
  "GetClientID s = op_client_id (se_opts s)"

definition GetName :: "session \<Rightarrow> string" where
  "GetName s = se_name s"

definition GetBrokers :: "session \<Rightarrow> string list" where
  "GetBrokers s = op_brokers (se_opts s)"

definition GetOptions :: "session \<Rightarrow> options" where
  "GetOptions s = se_opts s"

definition session_GetMetrics :: "session \<Rightarrow> (string, metric_value) gomap" where
  "session_GetMetrics s = sm_getSnapshot (se_metrics s)"

definition GetLastActivity :: "session \<Rightarrow> int" where
  "GetLastActivity s = sm_last_message (se_metrics s)"

definition ResetMetrics :: "int \<Rightarrow> session \<Rightarrow> session" where
  "ResetMetrics now s = s\<lparr>se_metrics := newSessionMetrics now\<rparr>"

definition IsPersistent :: "session \<Rightarrow> bool" where
  "IsPersistent s \<longleftrightarrow> (case op_connect (se_opts s) of None \<Rightarrow> False | Some cp \<Rightarrow> cp_persistent cp)"

definition UpdateLastActivity :: "int \<Rightarrow> session \<Rightarrow> session" where
  "UpdateLastActivity now s = s\<lparr>se_metrics := (se_metrics s)\<lparr>sm_last_message := now\<rparr>\<rparr>"

definition session_String :: "session \<Rightarrow> string" where
  "session_String s =
     ''Session{name: '' @ se_name s @ '', client_id: '' @ op_client_id (se_opts s)
       @ '', status: '' @ GetStatus s @ ''}''"

text \<open>The rows of the Prometheus export: counts, and floats that hold an integer.\<close>

datatype prom_value = PCount u64 | PInt nat | PFloat int

definition prom_bool :: "bool \<Rightarrow> prom_value" where
  "prom_bool b = PFloat (if b then 1 else 0)"

definition PrometheusMetrics :: "session \<Rightarrow> (string \<times> prom_value) list" where
  "PrometheusMetrics s =
     (let m = se_metrics s
      in [(''mqtt_session_messages_sent_total'', PCount (sm_sent m)),
          (''mqtt_session_messages_received_total'', PCount (sm_received m)),
          (''mqtt_session_bytes_sent_total'', PCount (sm_bytes_sent m)),
          (''mqtt_session_bytes_received_total'', PCount (sm_bytes_received m)),
          (''mqtt_session_errors_total'', PCount (sm_errors m)),
          (''mqtt_session_reconnects_total'', PCount (sm_reconnects m)),
          (''mqtt_session_connected'', prom_bool (IsConnected s)),
          (''mqtt_session_subscriptions'', PInt (GetSubscriptionCount s)),
          (''mqtt_session_last_message_timestamp_seconds'', PFloat (sm_last_message m div second))]
         @ (if IsZero (sm_last_error m) then []
            else [(''mqtt_session_last_error_timestamp_seconds'', PFloat (sm_last_error m div second))])
         @ [(''mqtt_session_persistent'', prom_bool (IsPersistent s)),
            (''mqtt_session_clean_session'', prom_bool (cp_clean (sprops s))),
            (''mqtt_session_auto_reconnect'', prom_bool (cp_auto (sprops s))),
            (''mqtt_session_status'', PFloat (uint (se_status s)))])"

end
