(* ===== verification/SessionFacts.thy ===== *)
theory SessionFacts
  imports Sessions
begin

text \<open>
  What holds of sessions: the outcomes of publishing and subscribing under retries, the path of
  states an observer of the state-change events sees, persistence across a restart, and the
  reconnect back-off.
\<close>

subsection \<open>Fields\<close>

lemma fst_setState [simp]: "fst (setState now st w) = (fst w)\<lparr>se_status := st\<rparr>"
  by (cases w) (simp add: setState_def Let_def)

lemma fst_session_event [simp]: "fst (session_event ty d now w) = fst w"
  by (cases w) (simp add: session_event_def)

lemma on_session_sel [simp]: "fst (on_session f w) = f (fst w)" "snd (on_session f w) = snd w"
  by (simp_all add: on_session_def)

lemma on_session_comp: "on_session f (on_session g w) = on_session (f \<circ> g) w"
  by (simp add: on_session_def)

lemma record_call_fields [simp]:
  "se_status (record_call c s) = se_status s" "se_metrics (record_call c s) = se_metrics s"
  "se_handlers (record_call c s) = se_handlers s" "se_calls (record_call c s) = se_calls s @ [c]"
  "se_name (record_call c s) = se_name s" "se_opts (record_call c s) = se_opts s"
  "se_store (record_call c s) = se_store s" "se_sequence (record_call c s) = se_sequence s"
  by (simp_all add: record_call_def)

lemma session_error_fields [simp]:
  "se_status (session_error now s) = se_status s"
  "se_metrics (session_error now s) = sm_recordError now (se_metrics s)"
  "se_handlers (session_error now s) = se_handlers s" "se_calls (session_error now s) = se_calls s"
  "se_name (session_error now s) = se_name s" "se_opts (session_error now s) = se_opts s"
  "se_store (session_error now s) = se_store s" "se_sequence (session_error now s) = se_sequence s"
  by (simp_all add: session_error_def)

lemma AddMessageHandler_sel [simp]:
  "hr_handlers (AddMessageHandler t f h) = mput t f (hr_handlers h)"
  "hr_connect (AddMessageHandler t f h) = hr_connect h" "hr_lost (AddMessageHandler t f h) = hr_lost h"
  by (simp_all add: AddMessageHandler_def)

text \<open>What a save or a delete leaves alone.\<close>

lemma store_SaveState_frame:
  assumes "store_SaveState en st w = (r, w')"
  shows "fst w' = (fst w)\<lparr>se_store := se_store (fst w')\<rparr>
    \<and> hb_events (snd w') = hb_events (snd w) \<and> hb_metrics (snd w') = hb_metrics (snd w)
    \<and> hb_recovery (snd w') = hb_recovery (snd w)"
  using assms by (cases w) (auto simp: store_SaveState_def split: sstore.splits prod.splits)

lemma store_DeleteState_frame:
  assumes "store_DeleteState en w = (r, w')"
  shows "fst w' = (fst w)\<lparr>se_store := se_store (fst w')\<rparr>
    \<and> hb_events (snd w') = hb_events (snd w) \<and> hb_metrics (snd w') = hb_metrics (snd w)
    \<and> hb_recovery (snd w') = hb_recovery (snd w)"
  using assms by (cases w) (auto simp: store_DeleteState_def split: sstore.splits prod.splits)

lemma fst_saved:
  "\<exists>st. fst (save_if_persistent en w) = (fst w)\<lparr>se_store := st\<rparr>
     \<and> hb_events (snd (save_if_persistent en w)) = hb_events (snd w)"
proof (cases "cp_persistent (sprops (fst w))")
  case True
  obtain r w' where "store_SaveState en (Some (collect_state (en_now en) (fst w))) w = (r, w')"
    by (rule prod.exhaust)
  with store_SaveState_frame [OF this] True show ?thesis
    by (auto simp: save_if_persistent_def saveState_def)
next
  case False
  then show ?thesis by (auto simp: save_if_persistent_def intro: exI [of _ "se_store (fst w)"])
qed

subsection \<open>Retries without interference\<close>

text \<open>Nothing else touches the session during the sleeps.\<close>

definition calm :: "(nat \<Rightarrow> ('c, 'w) attempt) \<Rightarrow> bool" where
  "calm at \<longleftrightarrow> (\<forall>i. at_gap (at i) = id)"

text \<open>The failed answers before the first success, of the three attempts there are.\<close>

definition failures :: "(nat \<Rightarrow> ('c, 'w) attempt) \<Rightarrow> goerr option list" where
  "failures at = takeWhile (\<lambda>e. e \<noteq> None) (map (\<lambda>i. at_error (at i)) [0..<maxRetries])"

lemma upt_3: "[0..<maxRetries] = [0, Suc 0, Suc (Suc 0)]"
  by (simp add: maxRetries_def numeral_3_eq_3)

lemma failures_cases:
  "(at_error (at 0) = None \<and> failures at = [])
   \<or> (\<exists>a. at_error (at 0) = Some a \<and> at_error (at (Suc 0)) = None \<and> failures at = [Some a])
   \<or> (\<exists>a b. at_error (at 0) = Some a \<and> at_error (at (Suc 0)) = Some b \<and> at_error (at (Suc (Suc 0))) = None
          \<and> failures at = [Some a, Some b])
   \<or> (\<exists>a b c. at_error (at 0) = Some a \<and> at_error (at (Suc 0)) = Some b \<and> at_error (at (Suc (Suc 0))) = Some c
          \<and> failures at = [Some a, Some b, Some c])"
  unfolding failures_def upt_3
  by (cases "at_error (at 0)"; cases "at_error (at (Suc 0))"; cases "at_error (at (Suc (Suc 0)))") simp_all

lemma maxRetries_Suc: "maxRetries = Suc (Suc (Suc 0))"
  by (simp add: maxRetries_def)

lemmas publish_steps = Publish_def Publish_loop.simps maxRetries_Suc Let_def
lemmas subscribe_steps = Subscribe_def Subscribe_loop.simps maxRetries_Suc Let_def

lemma Publish_offline:
  "calm at \<Longrightarrow> \<not> IsConnected (fst w) \<Longrightarrow> Publish at tpc p qos w = (Some (Sentinel ErrNotConnected), w)"
  by (simp add: publish_steps IsConnected_def calm_def)

lemma Publish_online:
  assumes "calm at" and "IsConnected (fst w)" and "snd (Publish at tpc p qos w) = w'"
  shows "fst (Publish at tpc p qos w) = (if length (failures at) < 3 then None else last (failures at))
    \<and> se_calls (fst w') = se_calls (fst w)
        @ replicate (min 3 (Suc (length (failures at)))) (CPublish tpc qos False p)
    \<and> sm_errors (se_metrics (fst w')) = sm_errors (se_metrics (fst w)) + of_nat (length (failures at))
    \<and> sm_sent (se_metrics (fst w')) = sm_sent (se_metrics (fst w)) + (if length (failures at) < 3 then 1 else 0)
    \<and> sm_bytes_sent (se_metrics (fst w')) = sm_bytes_sent (se_metrics (fst w))
        + (if length (failures at) < 3 then of_nat (length p) else 0)
    \<and> se_status (fst w') = stateConnected \<and> snd w' = snd w"
  using failures_cases [of at] assms(1,2) unfolding assms(3) [symmetric]
  by (elim disjE exE conjE)
    (simp_all add: publish_steps IsConnected_def calm_def numeral_2_eq_2 numeral_3_eq_3)

lemma Subscribe_offline:
  "calm at \<Longrightarrow> \<not> IsConnected (fst w) \<Longrightarrow> Subscribe at tpc f qos w = (Some (Sentinel ErrNotConnected), w)"
  by (simp add: subscribe_steps IsConnected_def calm_def)

lemma fst_subscribed:
  "\<exists>st. fst (subscribed en tpc f w) =
      (fst w)\<lparr>se_handlers := AddMessageHandler tpc f (se_handlers (fst w)), se_store := st\<rparr>"
  using fst_saved [of en "on_session (\<lambda>s. s\<lparr>se_handlers := AddMessageHandler tpc f (se_handlers s)\<rparr>) w"]
  by (auto simp: subscribed_def)

lemma Subscribe_online:
  assumes "calm at" and "IsConnected (fst w)" and "snd (Subscribe at tpc f qos w) = w'"
  shows "fst (Subscribe at tpc f qos w) = (if length (failures at) < 3 then None else last (failures at))
    \<and> se_calls (fst w') = se_calls (fst w)
        @ replicate (min 3 (Suc (length (failures at)))) (CSubscribe tpc qos f)
    \<and> se_status (fst w') = stateConnected \<and> se_sequence (fst w') = se_sequence (fst w)
    \<and> sm_errors (se_metrics (fst w')) = sm_errors (se_metrics (fst w)) + of_nat (length (failures at))
    \<and> (if length (failures at) < 3
        then se_handlers (fst w') = AddMessageHandler tpc f (se_handlers (fst w))
        else se_handlers (fst w') = se_handlers (fst w) \<and> se_store (fst w') = se_store (fst w)
             \<and> snd w' = snd w)"
proof -
  have ok: "se_calls (fst (subscribed en tpc f u)) = se_calls (fst u)
      \<and> se_status (fst (subscribed en tpc f u)) = se_status (fst u)
      \<and> se_sequence (fst (subscribed en tpc f u)) = se_sequence (fst u)
      \<and> se_metrics (fst (subscribed en tpc f u)) = se_metrics (fst u)
      \<and> se_handlers (fst (subscribed en tpc f u)) = AddMessageHandler tpc f (se_handlers (fst u))" for en u
    using fst_subscribed [of en tpc f u] by auto
  from failures_cases [of at] assms(1,2) show ?thesis unfolding assms(3) [symmetric]
    by (elim disjE exE conjE)
      (simp_all add: subscribe_steps IsConnected_def calm_def ok numeral_2_eq_2 numeral_3_eq_3)
qed

subsection \<open>Runs of a session\<close>

text \<open>
  The operations of a session with everything they read from outside. The gaps of an attempt are
  what other goroutines do; \<open>op_rely\<close> says that they keep a property.
\<close>

datatype ('c, 'w) sop =
    SConnect int "goerr option"
  | SOnConnect "'c env" "nat \<Rightarrow> nat \<Rightarrow> ('c, 'w) attempt" "nat \<Rightarrow> nat \<Rightarrow> ('c, 'w) attempt"
  | SLost "'c env" "goerr option"
  | SReconnecting "'c env"
  | SPublish "nat \<Rightarrow> ('c, 'w) attempt" string payload byte
  | SSubscribe "nat \<Rightarrow> ('c, 'w) attempt" string handler byte
  | SUnsubscribe "'c env" "goerr option" "string list"
  | SDisconnect "'c env" bool
  | SDeliver int bool payload

fun sop_step :: "('c, 'a) world \<Rightarrow> ('c, ('c, 'a) world) sop \<Rightarrow> ('c, 'a) world" where
  "sop_step w (SConnect now answer) = connect now answer w"
| "sop_step w (SOnConnect en ra pa) = snd (handleConnect en ra pa w)"
| "sop_step w (SLost en err) = handleConnectionLost en err w"
| "sop_step w (SReconnecting en) = handleReconnecting en w"
| "sop_step w (SPublish at tpc p qos) = snd (Publish at tpc p qos w)"
| "sop_step w (SSubscribe at tpc f qos) = snd (Subscribe at tpc f qos w)"
| "sop_step w (SUnsubscribe en answer tpcs) = snd (Unsubscribe en answer tpcs w)"
| "sop_step w (SDisconnect en connected) = Disconnect en connected w"
| "sop_step w (SDeliver now panics p) = on_session (deliver now panics p) w"

definition keeps :: "('w \<Rightarrow> bool) \<Rightarrow> (nat \<Rightarrow> ('c, 'w) attempt) \<Rightarrow> bool" where
  "keeps P at \<longleftrightarrow> (\<forall>i w. P w \<longrightarrow> P (at_gap (at i) w))"

fun op_rely :: "('w \<Rightarrow> bool) \<Rightarrow> ('c, 'w) sop \<Rightarrow> bool" where
  "op_rely P (SOnConnect en ra pa) = ((\<forall>j. keeps P (ra j)) \<and> (\<forall>j. keeps P (pa j)))"
| "op_rely P (SPublish at tpc p qos) = keeps P at"
| "op_rely P (SSubscribe at tpc f qos) = keeps P at"
| "op_rely P _ = True"

text \<open>
  The primitive changes every operation is made of: the session's own fields apart from its name and
  status; files and Redis keys; an error registered; a reconnect counted; a status set, with its
  announcement; another event.
\<close>

inductive prim :: "('c, 'a) world \<Rightarrow> ('c, 'a) world \<Rightarrow> bool" where
  prim_session: "se_name s' = se_name s \<Longrightarrow> se_status s' = se_status s \<Longrightarrow> prim (s, h) (s', h)"
| prim_disk: "se_name s' = se_name s \<Longrightarrow> se_status s' = se_status s \<Longrightarrow>
    prim (s, h) (s', h\<lparr>hb_files := fs, hb_redis := r\<rparr>)"
| prim_error: "prim (s, h) (s, hub_RegisterError (se_name s) err cat now h)"
| prim_reconnect: "prim (s, h) (s, h\<lparr>hb_metrics := metrics_recordReconnect (hb_metrics h)\<rparr>)"
| prim_status: "st \<le> 4 \<Longrightarrow> prim w (setState now st w)"
| prim_event: "ty \<noteq> EventStateChanged \<Longrightarrow> prim w (session_event ty d now w)"

lemma prim_name: "prim w w' \<Longrightarrow> se_name (fst w') = se_name (fst w)"
  by (induction rule: prim.induct) simp_all

text \<open>A property that no primitive change breaks.\<close>

definition obs_inv :: "(('c, 'a) world \<Rightarrow> bool) \<Rightarrow> bool" where
  "obs_inv P \<longleftrightarrow> (\<forall>w w'. prim w w' \<longrightarrow> P w \<longrightarrow> P w')"

lemma obs_prim: "obs_inv P \<Longrightarrow> P w \<Longrightarrow> prim w w' \<Longrightarrow> P w'"
  unfolding obs_inv_def by blast

lemma obs_same:
  assumes "obs_inv P" and "P w" and "se_name (fst w') = se_name (fst w)"
    and "se_status (fst w') = se_status (fst w)" and "snd w' = snd w"
  shows "P w'"
  using obs_prim [OF assms(1,2), of w'] assms(3-5) prim_session [of "fst w'" "fst w" "snd w"]
  by (cases w; cases w') simp

lemma obs_disk:
  assumes "obs_inv P" and "P w" and "se_name (fst w') = se_name (fst w)"
    and "se_status (fst w') = se_status (fst w)"
    and "snd w' = (snd w)\<lparr>hb_files := fs, hb_redis := r\<rparr>"
  shows "P w'"
  using obs_prim [OF assms(1,2), of w'] assms(3-5) prim_disk [where s' = "fst w'" and s = "fst w" and h = "snd w" and fs = fs and r = r]
  by (cases w; cases w') simp

lemma obs_error: "obs_inv P \<Longrightarrow> P (s, h) \<Longrightarrow> P (s, hub_RegisterError (se_name s) err cat now h)"
  by (rule obs_prim [OF _ _ prim_error])

lemma obs_reconnect: "obs_inv P \<Longrightarrow> P (s, h) \<Longrightarrow> P (s, h\<lparr>hb_metrics := metrics_recordReconnect (hb_metrics h)\<rparr>)"
  by (rule obs_prim [OF _ _ prim_reconnect])

lemma obs_setState: "obs_inv P \<Longrightarrow> P w \<Longrightarrow> st \<le> 4 \<Longrightarrow> P (setState now st w)"
  by (rule obs_prim [OF _ _ prim_status])

lemma obs_event: "obs_inv P \<Longrightarrow> P w \<Longrightarrow> ty \<noteq> EventStateChanged \<Longrightarrow> P (session_event ty d now w)"
  by (rule obs_prim [OF _ _ prim_event])

lemma store_SaveState_obs [simp]:
  "se_name (fst (snd (store_SaveState en st w))) = se_name (fst w)"
  "se_status (fst (snd (store_SaveState en st w))) = se_status (fst w)"
  "se_opts (fst (snd (store_SaveState en st w))) = se_opts (fst w)"
  "hb_events (snd (snd (store_SaveState en st w))) = hb_events (snd w)"
  by (cases w; simp add: store_SaveState_def split: sstore.split prod.split)+

lemma store_DeleteState_obs [simp]:
  "se_name (fst (snd (store_DeleteState en w))) = se_name (fst w)"
  "se_status (fst (snd (store_DeleteState en w))) = se_status (fst w)"
  "se_opts (fst (snd (store_DeleteState en w))) = se_opts (fst w)"
  "hb_events (snd (snd (store_DeleteState en w))) = hb_events (snd w)"
  by (cases w; simp add: store_DeleteState_def split: sstore.split prod.split)+

lemma store_SaveState_disk:
  "snd (snd (store_SaveState en st w)) = (snd w)
     \<lparr>hb_files := hb_files (snd (snd (store_SaveState en st w))),
      hb_redis := hb_redis (snd (snd (store_SaveState en st w)))\<rparr>"
  by (cases w; cases "se_store (fst w)") (auto simp: store_SaveState_def split: prod.split)

lemma store_DeleteState_disk:
  "snd (snd (store_DeleteState en w)) = (snd w)
     \<lparr>hb_files := hb_files (snd (snd (store_DeleteState en w))),
      hb_redis := hb_redis (snd (snd (store_DeleteState en w)))\<rparr>"
  by (cases w; cases "se_store (fst w)") (auto simp: store_DeleteState_def split: prod.split)

lemma obs_store_save: "obs_inv P \<Longrightarrow> P w \<Longrightarrow> P (snd (store_SaveState en st w))"
  by (rule obs_disk [OF _ _ _ _ store_SaveState_disk]) simp_all

lemma obs_store_delete: "obs_inv P \<Longrightarrow> P w \<Longrightarrow> P (snd (store_DeleteState en w))"
  by (rule obs_disk [OF _ _ _ _ store_DeleteState_disk]) simp_all

lemma obs_save: "obs_inv P \<Longrightarrow> P w \<Longrightarrow> P (save_if_persistent en w)"
  by (simp add: save_if_persistent_def saveState_def obs_store_save)

lemma keepsD: "keeps P at \<Longrightarrow> P w \<Longrightarrow> P (at_gap (at i) w)"
  unfolding keeps_def by blast

lemma obs_Publish_loop:
  "obs_inv P \<Longrightarrow> keeps P at \<Longrightarrow> P w \<Longrightarrow> P (snd (Publish_loop k i at tpc p qos e w))"
proof (induction k i at tpc p qos e w rule: Publish_loop.induct)
  case (1 i at tpc p qos e w)
  then show ?case by simp
next
  case (2 k i at tpc p qos e w)
  have gap: "P v \<Longrightarrow> P (at_gap (at (Suc i)) v)" for v using "2.prems"(2) by (rule keepsD)
  have w1: "P (on_session (record_call (CPublish tpc qos False p)) w)"
    by (rule obs_same [OF "2.prems"(1,3)]) simp_all
  have w2: "P (on_session (session_error now) (on_session (record_call (CPublish tpc qos False p)) w))" for now
    by (rule obs_same [OF "2.prems"(1,3)]) simp_all
  have ok: "P (on_session (\<lambda>s. s\<lparr>se_metrics := sm_recordMessage True (of_nat (length p)) now (se_metrics s)\<rparr>)
      (on_session (record_call (CPublish tpc qos False p)) w))" for now
    by (rule obs_same [OF "2.prems"(1,3)]) simp_all
  show ?case
    using "2.IH" "2.prems" gap w1 w2 ok by (auto simp: Let_def split: option.split)
qed

lemma obs_subscribed: "obs_inv P \<Longrightarrow> P w \<Longrightarrow> P (subscribed en tpc f w)"
  unfolding subscribed_def by (rule obs_save) (auto intro: obs_same)

lemma obs_Subscribe_loop:
  "obs_inv P \<Longrightarrow> keeps P at \<Longrightarrow> P w \<Longrightarrow> P (snd (Subscribe_loop k i at tpc f qos e w))"
proof (induction k i at tpc f qos e w rule: Subscribe_loop.induct)
  case (1 i at tpc f qos e w)
  then show ?case by simp
next
  case (2 k i at tpc f qos e w)
  have gap: "P v \<Longrightarrow> P (at_gap (at (Suc i)) v)" for v using "2.prems"(2) by (rule keepsD)
  have w1: "P (on_session (record_call (CSubscribe tpc qos f)) w)"
    by (rule obs_same [OF "2.prems"(1,3)]) simp_all
  have w2: "P (on_session (session_error now) (on_session (record_call (CSubscribe tpc qos f)) w))" for now
    by (rule obs_same [OF "2.prems"(1,3)]) simp_all
  show ?case
    using "2.IH" "2.prems" gap w1 w2 obs_subscribed [OF "2.prems"(1) w1]
    by (auto simp: Let_def split: option.split)
qed

lemma obs_Subscribe: "obs_inv P \<Longrightarrow> keeps P at \<Longrightarrow> P w \<Longrightarrow> P (snd (Subscribe at tpc f qos w))"
  unfolding Subscribe_def by (rule obs_Subscribe_loop)

lemma obs_resubscribe:
  "obs_inv P \<Longrightarrow> (\<And>j. keeps P (at j)) \<Longrightarrow> P w \<Longrightarrow> P (resubscribe j at ts w)"
  by (induction ts arbitrary: j w) (simp_all add: obs_Subscribe)

lemma obs_presubscribe:
  "obs_inv P \<Longrightarrow> (\<And>j. keeps P (at j)) \<Longrightarrow> P w \<Longrightarrow> P (snd (presubscribe j at ts w))"
  by (induction ts arbitrary: j w) (auto simp: case_prod_unfold obs_Subscribe)

lemma obs_restoreState:
  assumes P: "obs_inv P" "P w" and rely: "\<And>j. keeps P (at j)"
  shows "P (snd (restoreState en at w))"
proof -
  have del: "P (snd (store_DeleteState en w))" by (rule obs_store_delete [OF P])
  have seq: "P (on_session (\<lambda>s. s\<lparr>se_sequence := q\<rparr>) w)" for q by (rule obs_same [OF P]) simp_all
  have subs: "P (resubscribe 0 at ts (on_session (\<lambda>s. s\<lparr>se_sequence := q\<rparr>) w))" for ts q
    by (rule obs_resubscribe [OF P(1) rely seq])
  show ?thesis
    using P(2) del seq subs by (simp add: restoreState_def Let_def split: sum.split option.split)
qed

lemma obs_connect:
  assumes P: "obs_inv P" "P w"
  shows "P (connect now answer w)"
proof -
  let ?w1 = "setState now stateConnecting w"
  let ?w2 = "session_event EventSessionConnecting NoData now ?w1"
  let ?w3 = "on_session (record_call CConnect) ?w2"
  have 1: "P ?w1" by (rule obs_setState [OF P]) (simp add: state_defs)
  have 2: "P ?w2" by (rule obs_event [OF P(1) 1]) (simp add: event_type_defs)
  have 3: "P ?w3" by (rule obs_same [OF P(1) 2]) simp_all
  have up: "P (setState now stateConnected ?w3)" by (rule obs_setState [OF P(1) 3]) (simp add: state_defs)
  have down: "P (setState now stateDisconnected ?w3)"
    by (rule obs_setState [OF P(1) 3]) (simp add: state_defs)
  have err: "P (on_session (session_error now) (setState now stateDisconnected ?w3))"
    by (rule obs_same [OF P(1) down]) simp_all
  have "P (session_event EventSessionDisconnected (ErrData (Some e)) now
      (on_session (session_error now) (setState now stateDisconnected ?w3)))" for e
    by (rule obs_event [OF P(1) err]) (simp add: event_type_defs)
  with up show ?thesis by (simp add: connect_def Let_def split: option.split)
qed

lemma obs_handleConnect:
  assumes P: "obs_inv P" "P w" and rely: "\<And>j. keeps P (ra j)" "\<And>j. keeps P (pa j)"
  shows "P (snd (handleConnect en ra pa w))"
proof -
  have 1: "P (setState (en_now en) stateConnected w)"
    by (rule obs_setState [OF P]) (simp add: state_defs)
  have 2: "P (on_session (\<lambda>s. s\<lparr>se_reconnects := 0, se_next := 0\<rparr>) (setState (en_now en) stateConnected w))"
    (is "P ?w2") by (rule obs_same [OF P(1) 1]) simp_all
  have res: "P (snd (restoreState en ra ?w2))" by (rule obs_restoreState [OF P(1) 2 rely(1)])
  have fin: "P (snd (finish_connect now bad u))" if "P u" for now bad u
  proof -
    have ev: "P (session_event EventSessionConnected d now u)" for d
      by (rule obs_event [OF P(1) that]) (simp add: event_type_defs)
    have "P (on_session (\<lambda>s. s\<lparr>se_hooks := se_hooks s @ [x]\<rparr>) (session_event EventSessionConnected d now u))" for x d
      by (rule obs_same [OF P(1) ev]) simp_all
    with ev show ?thesis by (simp add: finish_connect_def Let_def)
  qed
  have pre: "P u \<Longrightarrow> P (snd (presubscribe 0 pa ts u))" for u ts
    by (rule obs_presubscribe [OF P(1) rely(2)])
  show ?thesis
    using res 2 fin [OF pre]
    by (auto simp: handleConnect_def Let_def case_prod_unfold split: ret.split)
qed

lemma finish_connect_handlers [simp]:
  "se_handlers (fst (snd (finish_connect now bad w))) = se_handlers (fst w)"
  by (simp add: finish_connect_def Let_def)

lemma obs_handleConnectionLost:
  assumes P: "obs_inv P" "P w"
  shows "P (handleConnectionLost en err w)"
proof -
  have 1: "P (setState (en_now en) stateDisconnected w)" (is "P ?w1")
    by (rule obs_setState [OF P]) (simp add: state_defs)
  have err: "P (on_session (session_error (en_now en)) ?w1)" by (rule obs_same [OF P(1) 1]) simp_all
  have 2: "P (session_error (en_now en) (fst ?w1),
      hub_RegisterError (se_name (fst ?w1)) err CategoryConnection (en_now en) (snd ?w1))"
    using obs_error [OF P(1) err [unfolded on_session_def]] by simp
  note 3 = obs_store_save [OF P(1)]
  have 4: "P (session_event EventSessionDisconnected d now u)" if "P u" for d now u
    by (rule obs_event [OF P(1) that]) (simp add: event_type_defs)
  have 5: "P (on_session (\<lambda>s. s\<lparr>se_hooks := se_hooks s @ [x]\<rparr>) u)" if "P u" for x u
    by (rule obs_same [OF P(1) that]) simp_all
  show ?thesis
    using 1 2 unfolding handleConnectionLost_def Let_def
    by (auto intro!: 3 4 5 split: sum.split option.split)
qed

lemma obs_handleReconnecting:
  assumes P: "obs_inv P" "P w"
  shows "P (handleReconnecting en w)"
proof -
  have 1: "P (setState (en_now en) stateReconnecting w)"
    by (rule obs_setState [OF P]) (simp add: state_defs)
  have 2: "P (on_session (\<lambda>s. s\<lparr>se_metrics := sm_recordReconnect (se_metrics s)\<rparr>)
      (setState (en_now en) stateReconnecting w))" (is "P ?w2")
    by (rule obs_same [OF P(1) 1]) simp_all
  have 3: "P (fst ?w2, (snd ?w2)\<lparr>hb_metrics := metrics_recordReconnect (hb_metrics (snd ?w2))\<rparr>)"
    by (rule obs_reconnect [OF P(1)]) (unfold prod.collapse, rule 2)
  show ?thesis unfolding handleReconnecting_def Let_def
    by (rule obs_event [OF P(1) obs_same [OF P(1) 3]]) (simp_all add: event_type_defs)
qed

lemma obs_Disconnect:
  assumes P: "obs_inv P" "P w"
  shows "P (Disconnect en connected w)"
proof -
  have 1: "P (on_session (\<lambda>s. s\<lparr>se_opts := (se_opts s)\<lparr>op_enhanced := e s\<rparr>\<rparr>) w)" for e
    by (rule obs_same [OF P]) simp_all
  have 2: "P (on_session (record_call (CDisconnect 250)) (save_if_persistent en u))" if "P u" for u
    by (rule obs_same [OF P(1) obs_save [OF P(1) that]]) simp_all
  have 3: "P (session_event EventSessionDisconnected NoData now (setState now stateClosed u))"
    if "P u" for now u
    by (rule obs_event [OF P(1) obs_setState [OF P(1) that]]) (simp_all add: state_defs event_type_defs)
  show ?thesis unfolding Disconnect_def Let_def using 1 2 [OF 1] by (auto intro!: 3)
qed

lemma obs_Unsubscribe:
  assumes P: "obs_inv P" "P w"
  shows "P (snd (Unsubscribe en answer tpcs w))"
proof -
  have 1: "P (on_session (record_call (CUnsubscribe tpcs)) w)" (is "P ?w1")
    by (rule obs_same [OF P]) simp_all
  have 2: "P (on_session (session_error (en_now en)) ?w1)" by (rule obs_same [OF P(1) 1]) simp_all
  have 3: "P (on_session (\<lambda>s. s\<lparr>se_handlers := g s\<rparr>) ?w1)" for g
    by (rule obs_same [OF P(1) 1]) simp_all
  show ?thesis
    using P(2) 2 obs_save [OF P(1) 3] by (simp add: Unsubscribe_def Let_def split: option.split)
qed

lemma obs_deliver:
  assumes P: "obs_inv P" "P w"
  shows "P (on_session (deliver now panics p) w)"
  by (rule obs_same [OF P]) (simp_all add: deliver_def safelyCallHandler_def Let_def)

lemma sop_step_inv: "obs_inv P \<Longrightarrow> P w \<Longrightarrow> op_rely P op \<Longrightarrow> P (sop_step w op)"
  by (cases op)
    (simp_all add: obs_connect obs_handleConnect obs_handleConnectionLost obs_handleReconnecting
      Publish_def obs_Publish_loop obs_Subscribe obs_Unsubscribe obs_Disconnect obs_deliver)

lemma sop_run_inv:
  "obs_inv P \<Longrightarrow> P w \<Longrightarrow> list_all (op_rely P) ops \<Longrightarrow> P (foldl sop_step w ops)"
  by (induction ops arbitrary: w) (simp_all add: sop_step_inv)

subsection \<open>The states an observer sees\<close>

text \<open>The state changes a handler has been told of, for one session.\<close>

definition change_of :: "event \<Rightarrow> (u32 \<times> u32) list" where
  "change_of e =
     (if ev_type e = EventStateChanged
      then (case ev_data e of
              MapData m \<Rightarrow>
                (case (mget m ''old_state'', mget m ''new_state'') of
                   (Some (FU32 a), Some (FU32 b)) \<Rightarrow> [(a, b)] | _ \<Rightarrow> [])
            | _ \<Rightarrow> [])
      else [])"

definition changes_told :: "nat \<Rightarrow> string \<Rightarrow> event_manager \<Rightarrow> (u32 \<times> u32) list" where
  "changes_told hid name em =
     concat (map (\<lambda>(h, e). if h = hid \<and> ev_session e = name then change_of e else []) (ev_calls em))"

text \<open>A chain of changes from one state to another, each one starting where the last one ended.\<close>

fun path :: "u32 \<Rightarrow> (u32 \<times> u32) list \<Rightarrow> u32 \<Rightarrow> bool" where
  "path a [] b = (a = b)"
| "path a ((x, y) # cs) b = (a = x \<and> x \<noteq> y \<and> y \<le> 4 \<and> path y cs b)"

lemma path_append: "path a (cs @ ds) c \<longleftrightarrow> (\<exists>b. path a cs b \<and> path b ds c)"
  by (induction a cs c rule: path.induct) auto

definition announced :: "nat \<Rightarrow> ('c, 'a) world \<Rightarrow> bool" where
  "announced hid w \<longleftrightarrow>
     count_list (handlers_of (hb_events (snd w)) EventStateChanged) hid = 1
     \<and> path stateDisconnected (changes_told hid (se_name (fst w)) (hb_events (snd w))) (se_status (fst w))
     \<and> se_status (fst w) \<le> 4"

lemma concat_only: "concat (map (\<lambda>h. if h = hid then xs else []) hs) = concat (replicate (count_list hs hid) xs)"
  by (induction hs) auto

lemma changes_told_emit:
  "changes_told hid name (emit e em) = changes_told hid name em
     @ (if ev_session e = name
        then concat (replicate (count_list (handlers_of em (ev_type e)) hid) (change_of e)) else [])"
proof -
  have "map ((\<lambda>(h, e). if h = hid \<and> ev_session e = name then change_of e else []) \<circ> (\<lambda>h. (h, e))) hs
      = map (\<lambda>h. if h = hid then (if ev_session e = name then change_of e else []) else []) hs" for hs
    by simp
  then show ?thesis
    by (simp add: changes_told_def concat_only del: map_map map_eq_conv add: map_map)
qed

lemma announced_setState:
  assumes st: "st \<le> 4" and w: "announced hid w"
  shows "announced hid (setState now st w)"
proof (cases "se_status (fst w) = st")
  case True
  then have "setState now st w = w" by (cases w) (simp add: setState_def Let_def)
  with w show ?thesis by simp
next
  case False
  obtain s h where sh: "w = (s, h)" by (cases w)
  let ?e = "\<lparr>ev_type = EventStateChanged, ev_session = se_name s,
      ev_data = MapData [(''old_state'', FU32 (se_status s)), (''new_state'', FU32 st)], ev_time = now\<rparr>"
  have "change_of ?e = [(se_status s, st)]" by (simp add: change_of_def)
  with w sh have "changes_told hid (se_name s) (emit ?e (hb_events h))
      = changes_told hid (se_name s) (hb_events h) @ [(se_status s, st)]"
    by (simp add: changes_told_emit announced_def)
  with w sh st False show ?thesis
    by (auto simp: announced_def setState_def Let_def emit_hub_def path_append)
qed

lemma announced_event:
  assumes "ty \<noteq> EventStateChanged" and "announced hid w"
  shows "announced hid (session_event ty d now w)"
proof -
  obtain s h where sh: "w = (s, h)" by (cases w)
  have "change_of \<lparr>ev_type = ty, ev_session = se_name s, ev_data = d, ev_time = now\<rparr> = []"
    using assms(1) by (simp add: change_of_def)
  with assms(2) sh show ?thesis
    by (simp add: announced_def session_event_def emit_hub_def changes_told_emit)
qed

lemma announced_obs_inv: "obs_inv (announced hid :: ('c, 'a) world \<Rightarrow> bool)"
  unfolding obs_inv_def
proof (intro allI impI)
  fix w w' :: "('c, 'a) world"
  assume "prim w w'" and "announced hid w"
  then show "announced hid w'"
    by (induction rule: prim.induct)
      (simp_all add: announced_setState announced_event, simp_all add: announced_def hub_RegisterError_def Let_def)
qed

end
