(* ===== verification/SessionProps.thy ===== *)
theory SessionProps
  imports SessionFacts
begin

text \<open>
  The properties of sessions: publishing and subscribing, the observed states, counting of
  deliveries, reconnect intervals, and saving and restoring of subscriptions.
\<close>

subsection \<open>Publishing, subscribing, delivering\<close>

text \<open>
  C4. \<open>Publish\<close> without interference: a session that is not connected sends nothing and returns
  the not-connected error; a connected one sends the same packet (not retained) until an attempt
  succeeds, three times at most, returns the last error exactly when all three fail, counts
  every failed attempt as an error and a success as one sent message with its bytes, and touches
  nothing outside the session.
\<close>

theorem Publish_outcome:
  assumes "calm at"
  shows "(\<not> IsConnected (fst w) \<longrightarrow> Publish at tpc p qos w = (Some (Sentinel ErrNotConnected), w))
    \<and> (IsConnected (fst w) \<longrightarrow>
        (let fs = failures at; r = fst (Publish at tpc p qos w); w' = snd (Publish at tpc p qos w);
             m = se_metrics (fst w); m' = se_metrics (fst w')
         in r = (if length fs < 3 then None else last fs)
            \<and> se_calls (fst w') = se_calls (fst w) @ replicate (min 3 (Suc (length fs))) (CPublish tpc qos False p)
            \<and> sm_errors m' = sm_errors m + of_nat (length fs)
            \<and> sm_sent m' = sm_sent m + (if length fs < 3 then 1 else 0)
            \<and> sm_bytes_sent m' = sm_bytes_sent m + (if length fs < 3 then of_nat (length p) else 0)
            \<and> se_status (fst w') = se_status (fst w) \<and> snd w' = snd w))"
  using Publish_offline [OF assms, of w tpc p qos] Publish_online [OF assms _ refl, of w tpc p qos]
  by (simp add: Let_def IsConnected_def)

text \<open>A hub and a session for the examples, and attempts that answer as a list says.\<close>

definition sample_hub :: "mock_redis hub" where
  "sample_hub =
     \<lparr>hb_events = on_event EventStateChanged 0 newEventManager, hb_metrics = newMetrics 0,
      hb_recovery = NewRecoveryManager, hb_files = [], hb_redis = NewMockRedisClient\<rparr>"

definition sample_env :: "mock_redis env" where
  "sample_env = \<lparr>en_now = 100, en_fault = NoFault, en_redis = mock_client, en_overflow = 0\<rparr>"

definition answers :: "goerr option list \<Rightarrow> nat \<Rightarrow> (mock_redis, 'w) attempt" where
  "answers as i = \<lparr>at_gap = id, at_error = (if i < length as then as ! i else None), at_env = sample_env\<rparr>"

definition sample_session :: session where
  "sample_session =
     fresh_session 0 ((DefaultOptions (replicate 8 0))\<lparr>op_name := ''s''\<rparr>)
       (DefaultConnectProps\<lparr>cp_persistent := True\<rparr>) (FilStore ''d'')"

lemma calm_answers [simp]: "calm (answers as)"
  by (simp add: calm_def answers_def)

lemma sample_selectors [simp]:
  "se_status sample_session = stateDisconnected" "se_name sample_session = ''s''"
  "se_calls sample_session = []" "se_handlers sample_session = newHandlerRegistry"
  "se_reconnects sample_session = 0" "se_store sample_session = FilStore ''d''"
  "en_fault sample_env = NoFault" "en_now sample_env = 100" "en_redis sample_env = mock_client"
  by (simp_all add: sample_session_def fresh_session_def sample_env_def)

theorem Publish_outcome_witness:
  "fst (Publish (answers [Some (NewErr ''io'')]) ''t'' ''abc'' 1
      (sample_session\<lparr>se_status := stateConnected\<rparr>, sample_hub)) = None"
  using Publish_outcome [of "answers [Some (NewErr ''io'')]"
      "(sample_session\<lparr>se_status := stateConnected\<rparr>, sample_hub)" "''t''" "''abc''" 1]
  by (simp add: IsConnected_def failures_def upt_3 answers_def Let_def)

text \<open>
  C25. \<open>Subscribe\<close> without interference registers the handler for the topic exactly when it
  returns no error, which needs a connected session and one success in three attempts; otherwise
  the registry, the store and everything outside the session are as before.
\<close>

theorem Subscribe_outcome:
  assumes "calm at"
  shows "case Subscribe at tpc f qos w of
      (None, w') \<Rightarrow> IsConnected (fst w) \<and> length (failures at) < 3
        \<and> GetMessageHandler (se_handlers (fst w')) = (GetMessageHandler (se_handlers (fst w)))(tpc \<mapsto> f)
    | (Some e, w') \<Rightarrow> (IsConnected (fst w) \<longrightarrow> length (failures at) = 3)
        \<and> se_handlers (fst w') = se_handlers (fst w) \<and> se_store (fst w') = se_store (fst w)
        \<and> snd w' = snd w"
proof (cases "IsConnected (fst w)")
  case False
  then show ?thesis by (simp add: Subscribe_offline [OF assms False])
next
  case True
  obtain r w' where rw: "Subscribe at tpc f qos w = (r, w')" by (rule prod.exhaust)
  have three: "length (failures at) = 3 \<and> last (failures at) \<noteq> None \<or> length (failures at) < 3"
    using failures_cases [of at] by auto
  from Subscribe_online [OF assms True, of tpc f qos w'] rw three show ?thesis
    by (auto simp: True registry.look_put split: option.split if_splits)
qed

theorem Subscribe_outcome_witness:
  "case Subscribe (answers []) ''t'' (UserHandler 3) 1 (sample_session\<lparr>se_status := stateConnected\<rparr>, sample_hub) of
     (None, w') \<Rightarrow> GetMessageHandler (se_handlers (fst w')) ''t'' = Some (UserHandler 3)
   | (Some e, w') \<Rightarrow> False"
  using Subscribe_outcome [where at = "answers []" and tpc = "''t''" and f = "UserHandler 3" and qos = 1
      and w = "(sample_session\<lparr>se_status := stateConnected\<rparr>, sample_hub)"]
  by (auto simp: IsConnected_def failures_def upt_3 answers_def split: option.splits)

text \<open>
  Whatever the handlers do, every message delivered to a subscription is counted once with its
  bytes, and every handler panic is caught and counted as one error.
\<close>

theorem deliveries_counted:
  "let s' = foldl (\<lambda>s (now, panics, p). deliver now panics p s) s ds
   in sm_received (se_metrics s') = sm_received (se_metrics s) + of_nat (length ds)
      \<and> sm_bytes_received (se_metrics s')
          = sm_bytes_received (se_metrics s) + of_nat (sum_list (map (\<lambda>(now, panics, p). length p) ds))
      \<and> sm_errors (se_metrics s')
          = sm_errors (se_metrics s) + of_nat (length (filter (\<lambda>(now, panics, p). panics) ds))
      \<and> sm_sent (se_metrics s') = sm_sent (se_metrics s) \<and> se_handlers s' = se_handlers s"
proof (induction ds arbitrary: s)
  case Nil
  then show ?case by simp
next
  case (Cons d ds)
  obtain now panics p where d: "d = (now, panics, p)" by (rule prod_cases3)
  from Cons.IH [of "deliver now panics p s"] d show ?case
    by (auto simp: Let_def deliver_def safelyCallHandler_def)
qed


lemma sample_announced: "announced 0 (sample_session, sample_hub)"
  by (simp add: announced_def sample_hub_def changes_told_def state_defs newEventManager_def
      handlers_of_def on_event_def)


subsection \<open>Reconnect intervals\<close>

lemma handleReconnecting_fields:
  "se_reconnects (fst (handleReconnecting en w)) = se_reconnects (fst w) + 1"
  "se_next (fst (handleReconnecting en w))
     = next_interval (en_overflow en) (se_reconnects (fst w) + 1) (se_next (fst w)) (sprops (fst w))"
  "se_opts (fst (handleReconnecting en w)) = se_opts (fst w)"
  by (simp_all add: handleReconnecting_def Let_def sprops_def)

fun default_interval :: "nat \<Rightarrow> int" where
  "default_interval 0 = 2 * second"
| "default_interval (Suc k) = min (120 * second) (3 * default_interval k div 2)"

lemma default_interval_range: "2 * second \<le> default_interval k \<and> default_interval k \<le> 120 * second"
  by (induction k) (auto simp: second_def)

lemma default_step:
  assumes "c \<noteq> 1"
  shows "next_interval ovf c (default_interval k) DefaultConnectProps = default_interval (Suc k)"
proof -
  have r: "0 \<le> default_interval k" "default_interval k < 2 ^ 51" "default_interval k \<noteq> 0"
    using default_interval_range [of k] by (auto simp: second_def)
  from mult_1_5_exact [OF r(1,2), of ovf] r(3) assms show ?thesis
    by (simp add: next_interval_def DefaultConnectProps_def Let_def min_def)
qed

lemma default_closed: "default_interval k = min (120 * second) (2 * second * 3 ^ k div 2 ^ k)"
proof (cases "k \<le> 11")
  case True
  then have "k \<in> set [0..<12]" by simp
  then show ?thesis by (auto simp: upt_rec second_def)
next
  case False
  have big: "120 * second * 2 ^ n \<le> 2 * second * 3 ^ n \<and> default_interval n = 120 * second" if "11 \<le> n" for n
    using that
  proof (induction n rule: dec_induct)
    case base
    show ?case by (simp add: second_def numeral_eq_Suc)
  next
    case (step n)
    have le: "a \<le> b \<Longrightarrow> 0 \<le> x \<Longrightarrow> a = 60 * x \<Longrightarrow> 40 * x \<le> b" for a b x :: int by simp
    have "(40::int) * 2 ^ n \<le> 3 ^ n" using step.IH by (intro le [of "60 * 2 ^ n"]) (simp_all add: second_def)
    with step show ?case by (simp add: second_def)
  qed
  from big [of k] False have "120 * second * 2 ^ k \<le> 2 * second * 3 ^ k" "default_interval k = 120 * second"
    by simp_all
  moreover from this(1) have "120 * second \<le> 2 * second * 3 ^ k div 2 ^ k"
    by (metis nonzero_mult_div_cancel_right power_not_zero zdiv_mono1 zero_less_numeral zero_less_power zero_neq_numeral)
  ultimately show ?thesis by simp
qed

lemma default_run:
  assumes "sprops (fst w) = DefaultConnectProps" and "se_reconnects (fst w) = 0" and "Suc k < 2 ^ 32"
  shows "se_next (fst ((handleReconnecting en ^^ Suc k) w)) = default_interval k
    \<and> se_reconnects (fst ((handleReconnecting en ^^ Suc k) w)) = of_nat (Suc k)
    \<and> sprops (fst ((handleReconnecting en ^^ Suc k) w)) = DefaultConnectProps"
  using assms(3)
proof (induction k)
  case 0
  from assms(1,2) show ?case
    by (simp add: handleReconnecting_fields next_interval_def sprops_def DefaultConnectProps_def)
next
  case (Suc k)
  then have IH: "se_next (fst ((handleReconnecting en ^^ Suc k) w)) = default_interval k"
    "se_reconnects (fst ((handleReconnecting en ^^ Suc k) w)) = of_nat (Suc k)"
    "sprops (fst ((handleReconnecting en ^^ Suc k) w)) = DefaultConnectProps"
    by (simp_all only: Suc_lessD)
  have "(of_nat (Suc (Suc k)) :: u32) \<noteq> 1"
  proof
    assume "(of_nat (Suc (Suc k)) :: u32) = 1"
    then have "unat (of_nat (Suc (Suc k)) :: u32) = unat (1 :: u32)" by (rule arg_cong)
    moreover have "unat (of_nat (Suc (Suc k)) :: u32) = Suc (Suc k)"
      using Suc.prems unfolding unat_of_nat by simp
    ultimately show False by simp
  qed
  moreover have "(of_nat (Suc k) :: u32) + 1 = of_nat (Suc (Suc k))" by simp
  ultimately show ?case
    using IH default_step [of "of_nat (Suc (Suc k))" "en_overflow en" k]
    by (simp only: funpow.simps comp_def handleReconnecting_fields) (simp add: sprops_def handleReconnecting_fields)
qed

text \<open>
  C23. With the default options the interval announced at the n-th reconnect attempt in a row (n
  from 1, below the wrap of the 32-bit counter) is exactly 2 seconds times 1.5 to the n-1, capped
  at 120 seconds: the float arithmetic is exact up to the cap.
\<close>

theorem default_reconnect_intervals:
  assumes "sprops (fst w) = DefaultConnectProps" and "se_reconnects (fst w) = 0"
    and "0 < n" and "n < 2 ^ 32"
  shows "se_next (fst ((handleReconnecting en ^^ n) w))
    = min (120 * second) (2 * second * 3 ^ (n - 1) div 2 ^ (n - 1))"
proof -
  obtain k where "n = Suc k" using assms(3) gr0_implies_Suc by blast
  with default_run [OF assms(1,2), of k en] assms(4) default_closed [of k] show ?thesis by simp
qed

theorem default_reconnect_intervals_witness:
  "se_next (fst ((handleReconnecting sample_env ^^ 3)
     (sample_session\<lparr>se_opts := (se_opts sample_session)\<lparr>op_connect := Some DefaultConnectProps\<rparr>\<rparr>, sample_hub)))
   = 4500000000"
  using default_reconnect_intervals
    [of "(sample_session\<lparr>se_opts := (se_opts sample_session)\<lparr>op_connect := Some DefaultConnectProps\<rparr>\<rparr>, sample_hub)" 3 sample_env]
  by (simp add: sprops_def props_of_def second_def)

text \<open>
  Whatever the back-off factor (a NaN, an infinity or a factor below one included), the
  announced interval never exceeds the larger of the initial and the maximal interval; from a
  non-zero interval on, after the first attempt, it never exceeds the maximal one.
\<close>

theorem reconnect_interval_bounded:
  "next_interval ovf c n cp \<le> max (cp_initial cp) (cp_max cp)
   \<and> (c \<noteq> 1 \<and> n \<noteq> 0 \<longrightarrow> next_interval ovf c n cp \<le> cp_max cp)"
  by (auto simp: next_interval_def Let_def le_max_iff_disj)

theorem reconnect_interval_bounded_witness:
  "next_interval 0 2 (100 * second) (DefaultConnectProps\<lparr>cp_backoff := Inf False\<rparr>) \<le> 120 * second"
  using reconnect_interval_bounded [of 0 2 "100 * second" "DefaultConnectProps\<lparr>cp_backoff := Inf False\<rparr>"]
  by (simp add: DefaultConnectProps_def second_def)

end
