(* ===== verification/Managers.thy ===== *)
theory Managers
  imports SessionProps
begin

text \<open>
  The session manager (\<open>manager.go\<close>): the table of sessions by name over the shared hub, its
  operations on one and on all sessions, the recovery goroutines (\<open>executeRecovery\<close>) and the
  waiting for a connection. A manager is a hub with a session table, so the session operations
  apply to a session together with the manager it belongs to.
\<close>

record 'c manager = "'c hub" +
  mg_sessions :: "(string, session) gomap"

type_synonym 'c mworld = "session \<times> 'c manager"

subsection \<open>Operations\<close>

definition NewSessionManager :: "int \<Rightarrow> files \<Rightarrow> 'c \<Rightarrow> 'c manager" where
  "NewSessionManager now fs server =
     \<lparr>hb_events = newEventManager, hb_metrics = newMetrics now, hb_recovery = NewRecoveryManager,
      hb_files = fs, hb_redis = server, mg_sessions = []\<rparr>"

definition GetSession :: "'c manager \<Rightarrow> string \<Rightarrow> goerr + session" where
  "GetSession m name =
     (case mget (mg_sessions m) name of None \<Rightarrow> Inl (Sentinel ErrSessionNotFound) | Some s \<Rightarrow> Inr s)"

text \<open>
  A session is shared by reference: after an operation on it the table shows its new state, if it
  is still there.
\<close>

definition put_back :: "string \<Rightarrow> session \<Rightarrow> 'c manager \<Rightarrow> 'c manager" where
  "put_back name s m =
     (if mget (mg_sessions m) name = None then m else m\<lparr>mg_sessions := mput name s (mg_sessions m)\<rparr>)"

definition on_named ::
  "string \<Rightarrow> session \<Rightarrow> ('c mworld \<Rightarrow> 'r \<times> 'c mworld) \<Rightarrow> 'c manager \<Rightarrow> 'r \<times> 'c manager" where
  "on_named name s f m = (case f (s, m) of (r, (s', m')) \<Rightarrow> (r, put_back name s' m'))"

definition manager_event :: "string \<Rightarrow> string \<Rightarrow> int \<Rightarrow> 'c manager \<Rightarrow> 'c manager" where
  "manager_event ty name now m =
     emit_hub \<lparr>ev_type = ty, ev_session = name, ev_data = NoData, ev_time = now\<rparr> m"

text \<open>What \<open>AddSession\<close> reads from outside.\<close>

record 'c add_env =
  ad_env :: "'c env"
  ad_mkdir :: "goerr option"
  ad_ping :: "goerr option"
  ad_tls :: "options \<Rightarrow> goerr + tls_result option"
  ad_etls :: "options \<Rightarrow> goerr + bool"
  ad_watch :: "goerr option"
  ad_answer :: "goerr option"

definition AddSession :: "'c add_env \<Rightarrow> options \<Rightarrow> 'c manager \<Rightarrow> ret \<times> 'c manager" where
  "AddSession ae opts m =
     (case Validate opts of
        (Some e, _) \<Rightarrow> (Returned (Some e), m)
      | (None, opts1) \<Rightarrow>
          if mget (mg_sessions m) (op_name opts1) \<noteq> None
          then (Returned (Some (Sentinel ErrSessionExists)), m)
          else
            (case newSession (ad_env ae) (ad_mkdir ae) (ad_ping ae) opts1 m of
               None \<Rightarrow> (Panicked, m)
             | Some w \<Rightarrow>
                 (case session_init (ad_tls ae) (ad_etls ae) (ad_watch ae) (en_now (ad_env ae)) (ad_answer ae) w of
                    (Some e, (s, m1)) \<Rightarrow> (Returned (Some e), m1)
                  | (None, (s, m1)) \<Rightarrow>
                      let m2 = m1\<lparr>mg_sessions := mput (op_name opts1) s (mg_sessions m1)\<rparr>;
                          m3 = m2\<lparr>hb_metrics := updateSessionCount 1 (hb_metrics m2)\<rparr>
                      in (Returned None,
                          manager_event EventSessionAdded (op_name opts1) (en_now (ad_env ae)) m3))))"

definition RemoveSession :: "'c env \<Rightarrow> bool \<Rightarrow> string \<Rightarrow> 'c manager \<Rightarrow> goerr option \<times> 'c manager" where
  "RemoveSession en connected name m =
     (case mget (mg_sessions m) name of
        None \<Rightarrow> (Some (Sentinel ErrSessionNotFound), m)
      | Some s \<Rightarrow>
          let m1 = snd (Disconnect en connected (s, m));
              m2 = m1\<lparr>mg_sessions := mdel name (mg_sessions m1)\<rparr>;
              m3 = m2\<lparr>hb_metrics := updateSessionCount (- 1) (hb_metrics m2)\<rparr>
          in (None, manager_event EventSessionRemoved name (en_now en) m3))"

definition ListSessions :: "'c manager \<Rightarrow> string list" where
  "ListSessions m = mkeys (mg_sessions m)"

definition GetAllSessionsStatusCode :: "'c manager \<Rightarrow> (string, u32) gomap" where
  "GetAllSessionsStatusCode m = map (\<lambda>(n, s). (n, GetSessionStatus s)) (mg_sessions m)"

definition GetAllSessionsStatus :: "'c manager \<Rightarrow> (string, string) gomap" where
  "GetAllSessionsStatus m = map (\<lambda>(n, c). (n, StatusToString c)) (GetAllSessionsStatusCode m)"

definition man_GetMetrics :: "'c manager \<Rightarrow> (string, metric_value) gomap" where
  "man_GetMetrics m = metrics_getSnapshot (hb_metrics m)"

definition PublishTo ::
  "(nat \<Rightarrow> ('c, 'c mworld) attempt) \<Rightarrow> int \<Rightarrow> string \<Rightarrow> string \<Rightarrow> payload \<Rightarrow> byte \<Rightarrow> 'c manager \<Rightarrow>
     goerr option \<times> 'c manager" where
  "PublishTo at now name tpc p qos m =
     (case GetSession m name of
        Inl e \<Rightarrow> (Some e, m)
      | Inr s \<Rightarrow>
          (case on_named name s (Publish at tpc p qos) m of
             (None, m1) \<Rightarrow> (None, m1)
           | (Some e, m1) \<Rightarrow> (Some e, hub_RegisterError name (Some e) CategoryPublish now m1)))"

definition SubscribeTo ::
  "(nat \<Rightarrow> ('c, 'c mworld) attempt) \<Rightarrow> int \<Rightarrow> string \<Rightarrow> string \<Rightarrow> handler \<Rightarrow> byte \<Rightarrow> 'c manager \<Rightarrow>
     goerr option \<times> 'c manager" where
  "SubscribeTo at now name tpc f qos m =
     (case GetSession m name of
        Inl e \<Rightarrow> (Some e, m)
      | Inr s \<Rightarrow>
          (case on_named name s (Subscribe at tpc f qos) m of
             (None, m1) \<Rightarrow> (None, m1)
           | (Some e, m1) \<Rightarrow> (Some e, hub_RegisterError name (Some e) CategorySubscription now m1)))"

definition UnsubscribeTo ::
  "'c env \<Rightarrow> goerr option \<Rightarrow> string \<Rightarrow> string \<Rightarrow> 'c manager \<Rightarrow> goerr option \<times> 'c manager" where
  "UnsubscribeTo en answer name tpc m =
     (case mget (mg_sessions m) name of
        None \<Rightarrow> (Some (Sentinel ErrSessionNotFound), m)
      | Some s \<Rightarrow>
          (case on_named name s (Unsubscribe en answer [tpc]) m of
             (None, m1) \<Rightarrow> (None, m1)
           | (Some e, m1) \<Rightarrow> (Some (newSessionError name e), m1)))"

text \<open>
  The loop of the operations on all sessions: \<open>f\<close> is the operation on the session of a name; its
  errors are collected with the name.
\<close>

fun for_sessions ::
  "(string \<Rightarrow> 'c mworld \<Rightarrow> goerr option \<times> 'c mworld) \<Rightarrow> string list \<Rightarrow> 'c manager \<Rightarrow> goerr list \<times> 'c manager" where
  "for_sessions f [] m = ([], m)"
| "for_sessions f (n # ns) m =
     (case mget (mg_sessions m) n of
        None \<Rightarrow> for_sessions f ns m
      | Some s \<Rightarrow>
          (case on_named n s (f n) m of
             (r, m1) \<Rightarrow>
               (case for_sessions f ns m1 of
                  (es, m2) \<Rightarrow> ((case r of None \<Rightarrow> es | Some e \<Rightarrow> newSessionError n e # es), m2))))"

definition PublishToAll ::
  "(string \<Rightarrow> nat \<Rightarrow> ('c, 'c mworld) attempt) \<Rightarrow> int \<Rightarrow> string \<Rightarrow> payload \<Rightarrow> byte \<Rightarrow> 'c manager \<Rightarrow>
     goerr list \<times> 'c manager" where
  "PublishToAll at now tpc p qos m =
     (case for_sessions (\<lambda>n. Publish (at n) tpc p qos) (ListSessions m) m of
        (es, m1) \<Rightarrow>
          (es, if length p > 0
               then m1\<lparr>hb_metrics := metrics_recordMessage (of_nat (length p)) now (hb_metrics m1)\<rparr> else m1))"

definition SubscribeAll ::
  "(string \<Rightarrow> nat \<Rightarrow> ('c, 'c mworld) attempt) \<Rightarrow> string \<Rightarrow> handler \<Rightarrow> byte \<Rightarrow> 'c manager \<Rightarrow>
     goerr list \<times> 'c manager" where
  "SubscribeAll at tpc f qos m = for_sessions (\<lambda>n. Subscribe (at n) tpc f qos) (ListSessions m) m"

definition UnsubscribeAll ::
  "'c env \<Rightarrow> (string \<Rightarrow> goerr option) \<Rightarrow> string \<Rightarrow> 'c manager \<Rightarrow> goerr list \<times> 'c manager" where
  "UnsubscribeAll en answer tpc m =
     for_sessions (\<lambda>n. Unsubscribe en (answer n) [tpc]) (ListSessions m) m"

definition DisconnectAll :: "'c env \<Rightarrow> (string \<Rightarrow> bool) \<Rightarrow> 'c manager \<Rightarrow> 'c manager" where
  "DisconnectAll en connected m =
     snd (for_sessions (\<lambda>n w. (None, Disconnect en (connected n) w)) (ListSessions m) m)"

definition OnEvent :: "string \<Rightarrow> nat \<Rightarrow> 'c manager \<Rightarrow> 'c manager" where
  "OnEvent ty hid m = m\<lparr>hb_events := on_event ty hid (hb_events m)\<rparr>"

text \<open>
  \<open>WaitForSession\<close>: \<open>before\<close> is what others do between the check and the registration of
  the handler (named \<open>hid\<close>), \<open>during\<close> what they do until the timer fires. The wait ends well
  when the handler is called for the session in that time.
\<close>

definition told_connected :: "nat \<Rightarrow> string \<Rightarrow> (nat \<times> event) list \<Rightarrow> bool" where
  "told_connected hid name calls \<longleftrightarrow>
     list_ex (\<lambda>(h, e). h = hid \<and> ev_type e = EventSessionConnected \<and> ev_session e = name) calls"

definition WaitForSession ::
  "('c manager \<Rightarrow> 'c manager) \<Rightarrow> ('c manager \<Rightarrow> 'c manager) \<Rightarrow> nat \<Rightarrow> int \<Rightarrow> string \<Rightarrow> 'c manager \<Rightarrow>
     goerr option \<times> 'c manager" where
  "WaitForSession before during hid now name m =
     (case GetSession m name of
        Inl e \<Rightarrow> (Some e, m)
      | Inr s \<Rightarrow>
          if IsConnected s then (None, m)
          else
            let m1 = OnEvent EventSessionConnected hid (before m);
                m2 = during m1
            in (if told_connected hid name (drop (length (ev_calls (hb_events m1))) (ev_calls (hb_events m2)))
                then None
                else Some (WithSession name
                       (NewConnectionError ''timeout waiting for session to connect''
                         (Some (Sentinel ErrTimeout)) now)),
                m2))"

text \<open>
  The body of a recovery goroutine for the error at address \<open>r\<close>: it does nothing unless the
  session exists; a retry sleeps and counts, a notification emits an event, and the reconnect
  strategy only logs. The result is the time it slept, if it did.
\<close>

definition executeNotify :: "error_info \<Rightarrow> int \<Rightarrow> 'c manager \<Rightarrow> 'c manager" where
  "executeNotify info now m =
     emit_hub \<lparr>ev_type = ''error_notification'', ev_session = ei_session info,
       ev_data = MapData
         [(''error'', FString (err_text (ei_error info))), (''category'', FString (ei_category info)),
          (''severity'', FString (ei_severity info)), (''time'', FTime (ei_time info)),
          (''retry_count'', FInt (ei_retry info))],
       ev_time = now\<rparr> m"

definition executeRecovery :: "nat \<Rightarrow> int \<Rightarrow> 'c manager \<Rightarrow> int option \<times> 'c manager" where
  "executeRecovery r now m =
     (let info = obj (hb_recovery m) r
      in case GetSession m (ei_session info) of
           Inl e \<Rightarrow> (None, m)
         | Inr s \<Rightarrow>
             (case ei_strategy info of
                StrategyRetry \<Rightarrow>
                  (case executeRetry r (hb_recovery m) of
                     (t, rc) \<Rightarrow> (t, m\<lparr>hb_recovery := rc\<rparr>))
              | StrategyReconnect \<Rightarrow> (None, m)
              | StrategyNotify \<Rightarrow> (None, executeNotify info now m)))"

subsection \<open>The invariant\<close>

text \<open>
  The table has distinct names, each the name of its session; the counter of active sessions is
  the size of the table (in 64 bits); the error table is well formed.
\<close>

definition manager_inv :: "'c manager \<Rightarrow> bool" where
  "manager_inv m \<longleftrightarrow>
     wf_map (mg_sessions m) \<and> (\<forall>(n, s) \<in> set (mg_sessions m). se_name s = n)
     \<and> mx_active (hb_metrics m) = i64 (int (length (mg_sessions m)))
     \<and> recovery_inv (hb_recovery m)"

text \<open>A session of the given name with a well-formed manager around it.\<close>

definition member_inv :: "string \<Rightarrow> 'c mworld \<Rightarrow> bool" where
  "member_inv name w \<longleftrightarrow> se_name (fst w) = name \<and> manager_inv (snd w)"

lemma manager_inv_cong:
  "mg_sessions m' = mg_sessions m \<Longrightarrow> mx_active (hb_metrics m') = mx_active (hb_metrics m) \<Longrightarrow>
     hb_recovery m' = hb_recovery m \<Longrightarrow> manager_inv m' \<longleftrightarrow> manager_inv m"
  by (simp add: manager_inv_def)

lemma setState_manager:
  "mg_sessions (snd (setState now st w)) = mg_sessions (snd w)"
  "hb_metrics (snd (setState now st w)) = hb_metrics (snd w)"
  "hb_recovery (snd (setState now st w)) = hb_recovery (snd w)"
  by (cases w; simp add: setState_def Let_def emit_hub_def)+

lemma session_event_manager:
  "mg_sessions (snd (session_event ty d now w)) = mg_sessions (snd w)"
  "hb_metrics (snd (session_event ty d now w)) = hb_metrics (snd w)"
  "hb_recovery (snd (session_event ty d now w)) = hb_recovery (snd w)"
  by (cases w; simp add: session_event_def emit_hub_def)+

lemma hub_RegisterError_manager:
  "mg_sessions (hub_RegisterError name err cat now m) = mg_sessions m"
  "mx_active (hb_metrics (hub_RegisterError name err cat now m)) = mx_active (hb_metrics m)"
  "hb_recovery (hub_RegisterError name err cat now m) = snd (RegisterError name err cat now (hb_recovery m))"
  by (simp_all add: hub_RegisterError_def Let_def)

lemma hub_RegisterError_inv: "manager_inv m \<Longrightarrow> manager_inv (hub_RegisterError name err cat now m)"
  by (simp add: manager_inv_def hub_RegisterError_manager RegisterError_inv)

lemma member_obs_inv: "obs_inv (member_inv name)"
  unfolding obs_inv_def
proof (intro allI impI)
  fix w w' :: "'c mworld"
  assume "prim w w'" and "member_inv name w"
  then show "member_inv name w'"
  proof (induction rule: prim.induct)
    case (prim_status st w now)
    then show ?case by (simp add: member_inv_def manager_inv_def setState_manager)
  next
    case (prim_event ty w d now)
    then show ?case by (simp add: member_inv_def manager_inv_def session_event_manager)
  next
    case (prim_error s h err cat now)
    then show ?case by (simp add: member_inv_def hub_RegisterError_inv)
  qed (simp_all add: member_inv_def manager_inv_def)
qed

lemma NewSessionManager_inv: "manager_inv (NewSessionManager now fs c)"
  by (simp add: manager_inv_def NewSessionManager_def newMetrics_def fits_i64_def NewRecoveryManager_inv)

lemma put_back_inv:
  assumes "manager_inv m" and "se_name s = name"
  shows "manager_inv (put_back name s m)"
proof (cases "mget (mg_sessions m) name")
  case None
  with assms show ?thesis by (simp add: put_back_def)
next
  case (Some s0)
  have "se_name s' = n" if "(n, s') \<in> set (mput name s (mg_sessions m))" for n s'
    using in_set_mput [OF that] assms by (auto simp: manager_inv_def)
  with assms(1) Some show ?thesis by (auto simp: put_back_def manager_inv_def)
qed

lemma on_named_inv:
  assumes "member_inv name (s, m)" and "\<And>w. member_inv name w \<Longrightarrow> member_inv name (snd (f w))"
  shows "manager_inv (snd (on_named name s f m))"
  using assms(2) [OF assms(1)]
  by (simp add: on_named_def case_prod_unfold member_inv_def put_back_inv)

lemma member_of_table: "manager_inv m \<Longrightarrow> mget (mg_sessions m) name = Some s \<Longrightarrow> member_inv name (s, m)"
  by (auto simp: member_inv_def manager_inv_def dest: map_of_SomeD)

lemma for_sessions_inv:
  "manager_inv m \<Longrightarrow> (\<And>n w. member_inv n w \<Longrightarrow> member_inv n (snd (f n w))) \<Longrightarrow>
     manager_inv (snd (for_sessions f ns m))"
proof (induction ns arbitrary: m)
  case Nil
  then show ?case by simp
next
  case (Cons n ns)
  show ?case
  proof (cases "mget (mg_sessions m) n")
    case None
    with Cons show ?thesis by simp
  next
    case (Some s)
    have "manager_inv (snd (on_named n s (f n) m))"
      by (rule on_named_inv [OF member_of_table [OF Cons.prems(1) Some]]) (rule Cons.prems(2))
    with Cons Some show ?thesis by (simp add: case_prod_unfold)
  qed
qed

lemma choose_store_name: "choose_store mk pg opts = (st, opts1) \<Longrightarrow> op_name opts1 = op_name opts"
  by (auto simp: choose_store_def Let_def split: option.splits if_splits)

lemma newSession_obs:
  assumes "newSession en mk pg opts m = Some w" and P: "obs_inv P"
    and start: "\<And>s. se_name s = op_name opts \<Longrightarrow> P (s, m)"
  shows "P w"
proof -
  obtain st opts1 where cs: "choose_store mk pg opts = (st, opts1)" by (rule prod.exhaust)
  then obtain cp where cp: "op_connect opts1 = Some cp"
    using assms(1) by (auto simp: newSession_def split: option.splits)
  let ?w0 = "(fresh_session (en_now en) opts1 cp st, m)"
  let ?at = "\<lambda>_ _ :: nat. \<lparr>at_gap = id, at_error = None, at_env = en\<rparr>"
  have w0: "P ?w0" by (rule start) (simp add: choose_store_name [OF cs] fresh_session_def)
  have "P (snd (restoreState en ?at ?w0))"
    by (rule obs_restoreState [OF P w0]) (simp add: keeps_def)
  with w0 show ?thesis
    using assms(1) cs cp by (auto simp: newSession_def Let_def split: if_splits prod.splits ret.splits)
qed

lemma session_init_obs:
  assumes "session_init tls etls watch now answer w = (r, w')" and P: "obs_inv P" "P w"
  shows "P w'"
proof -
  have 1: "P (on_session (\<lambda>s. s\<lparr>se_opts := f s\<rparr>) w)" for f
    by (rule obs_same [OF P]) simp_all
  have 2: "P (connect now answer (on_session (\<lambda>s. s\<lparr>se_opts := o1, se_client := c\<rparr>)
      (on_session (\<lambda>s. s\<lparr>se_opts := f s\<rparr>) w)))" for o1 c f
    by (rule obs_connect [OF P(1) obs_same [OF P(1) 1]]) simp_all
  show ?thesis
    using assms(1) 1 2 by (auto simp: session_init_def Let_def split: option.splits sum.splits)
qed

text \<open>The session table stays what it is during an operation on one session.\<close>

definition table_is :: "(string, session) gomap \<Rightarrow> 'c mworld \<Rightarrow> bool" where
  "table_is T w \<longleftrightarrow> mg_sessions (snd w) = T"

lemma table_obs_inv: "obs_inv (table_is T)"
  unfolding obs_inv_def
proof (intro allI impI)
  fix w w' :: "'c mworld"
  assume "prim w w'" and "table_is T w"
  then show "table_is T w'"
    by (induction rule: prim.induct)
      (simp_all add: table_is_def setState_manager session_event_manager hub_RegisterError_manager)
qed

lemma i64_plus: "i64 (i64 a + b) = i64 (a + b)"
  by (rule i64_cong) (metis i64_mod mod_add_left_eq)

lemma manager_event_inv: "manager_inv m \<Longrightarrow> manager_inv (manager_event ty name now m)"
  by (simp add: manager_event_def emit_hub_def manager_inv_def)

lemma manager_event_sessions [simp]: "mg_sessions (manager_event ty name now m) = mg_sessions m"
  by (simp add: manager_event_def emit_hub_def)

text \<open>How \<open>AddSession\<close> ends once the options are valid and the name is new.\<close>

lemma AddSession_new:
  assumes "Validate opts = (None, opts1)" and "mget (mg_sessions m) (op_name opts1) = None"
    and "newSession (ad_env ae) (ad_mkdir ae) (ad_ping ae) opts1 m = Some w" and "manager_inv m"
  shows "\<exists>r s m1. session_init (ad_tls ae) (ad_etls ae) (ad_watch ae) (en_now (ad_env ae)) (ad_answer ae) w
        = (r, (s, m1))
      \<and> se_name s = op_name opts1 \<and> manager_inv m1 \<and> mg_sessions m1 = mg_sessions m
      \<and> AddSession ae opts m =
          (case r of
             Some e \<Rightarrow> (Returned (Some e), m1)
           | None \<Rightarrow> (Returned None,
               manager_event EventSessionAdded (op_name opts1) (en_now (ad_env ae))
                 (m1\<lparr>mg_sessions := mput (op_name opts1) s (mg_sessions m1),
                     hb_metrics := updateSessionCount 1 (hb_metrics m1)\<rparr>)))"
proof -
  obtain r s m1 where init:
    "session_init (ad_tls ae) (ad_etls ae) (ad_watch ae) (en_now (ad_env ae)) (ad_answer ae) w = (r, (s, m1))"
    by (metis prod.exhaust)
  have "member_inv (op_name opts1) w"
    by (rule newSession_obs [OF assms(3) member_obs_inv]) (simp add: member_inv_def assms(4))
  from session_init_obs [OF init member_obs_inv this]
  have m1: "se_name s = op_name opts1" "manager_inv m1" by (simp_all add: member_inv_def)
  have "table_is (mg_sessions m) w"
    by (rule newSession_obs [OF assms(3) table_obs_inv]) (simp add: table_is_def)
  from session_init_obs [OF init table_obs_inv this]
  have "mg_sessions m1 = mg_sessions m" by (simp add: table_is_def)
  with init m1 assms(1-3) show ?thesis
    by (auto simp: AddSession_def split: option.split)
qed

lemma AddSession_inv:
  assumes inv: "manager_inv m"
  shows "manager_inv (snd (AddSession ae opts m))"
proof -
  obtain v opts1 where v: "Validate opts = (v, opts1)" by (rule prod.exhaust)
  show ?thesis
  proof (cases "v \<noteq> None \<or> mget (mg_sessions m) (op_name opts1) \<noteq> None
      \<or> newSession (ad_env ae) (ad_mkdir ae) (ad_ping ae) opts1 m = None")
    case True
    with v inv show ?thesis by (auto simp: AddSession_def split: option.split)
  next
    case False
    then obtain w where new: "mget (mg_sessions m) (op_name opts1) = None" "v = None"
      "newSession (ad_env ae) (ad_mkdir ae) (ad_ping ae) opts1 m = Some w" by auto
    from AddSession_new [OF v [unfolded new(2)] new(1,3) inv] obtain r s m1 where
      m1: "se_name s = op_name opts1" "manager_inv m1" "mg_sessions m1 = mg_sessions m"
      and res: "AddSession ae opts m =
          (case r of
             Some e \<Rightarrow> (Returned (Some e), m1)
           | None \<Rightarrow> (Returned None,
               manager_event EventSessionAdded (op_name opts1) (en_now (ad_env ae))
                 (m1\<lparr>mg_sessions := mput (op_name opts1) s (mg_sessions m1),
                     hb_metrics := updateSessionCount 1 (hb_metrics m1)\<rparr>)))" by blast
    have "manager_inv (m1\<lparr>mg_sessions := mput (op_name opts1) s (mg_sessions m1),
        hb_metrics := updateSessionCount 1 (hb_metrics m1)\<rparr>)"
      using m1 new(1) i64_plus [of "int (length (mg_sessions m))" 1]
      by (auto simp: manager_inv_def mput_new_set add.commute [of 1])
    with res m1(2) show ?thesis by (auto simp: manager_event_inv split: option.split)
  qed
qed

lemma RemoveSession_inv:
  assumes inv: "manager_inv m"
  shows "manager_inv (snd (RemoveSession en connected name m))"
proof (cases "mget (mg_sessions m) name")
  case None
  with inv show ?thesis by (simp add: RemoveSession_def)
next
  case (Some s)
  let ?m1 = "snd (Disconnect en connected (s, m))"
  have mem: "member_inv name (Disconnect en connected (s, m))"
    by (rule obs_Disconnect [OF member_obs_inv member_of_table [OF inv Some]])
  then have m1: "manager_inv ?m1" by (simp add: member_inv_def)
  have "table_is (mg_sessions m) (Disconnect en connected (s, m))"
    by (rule obs_Disconnect [OF table_obs_inv]) (simp add: table_is_def)
  then have T: "mg_sessions ?m1 = mg_sessions m" by (simp add: table_is_def)
  let ?M = "mg_sessions ?m1"
  have wf: "wf_map ?M" "\<forall>(n, s) \<in> set ?M. se_name s = n"
    "mx_active (hb_metrics ?m1) = i64 (int (length ?M))" "recovery_inv (hb_recovery ?m1)"
    using m1 unfolding manager_inv_def by blast+
  have "mget ?M name = Some s" unfolding T by (rule Some)
  from length_mdel_old [OF wf(1) this]
  have len: "int (length (mdel name ?M)) = int (length ?M) + - 1" by linarith
  have sub: "set (mdel name ?M) \<subseteq> set ?M" using in_set_mdel by fast
  have "i64 (mx_active (hb_metrics ?m1) + - 1) = i64 (int (length (mdel name ?M)))"
    unfolding len wf(3) by (rule i64_plus)
  moreover have "wf_map (mdel name ?M)" by (rule wf_mdel [OF wf(1)])
  moreover have "\<forall>(n, s) \<in> set (mdel name ?M). se_name s = n" using sub wf(2) by fast
  ultimately have "manager_inv (?m1\<lparr>mg_sessions := mdel name ?M,
      hb_metrics := updateSessionCount (- 1) (hb_metrics ?m1)\<rparr>)"
    using wf(4) by (simp add: manager_inv_def)
  with Some show ?thesis by (simp add: RemoveSession_def Let_def manager_event_inv)
qed

end
