(* ===== verification/Filters.thy ===== *)
theory Filters
  imports Messages
begin

text \<open>
  Message filters (\<open>filter.go\<close>): topic filters with the MQTT wildcards or a regular
  expression, payload filters, and their AND/OR compositions. \<open>TopicMatch\<close> is compared with
  a specification of MQTT topic matching by recursion on the levels.
\<close>

subsection \<open>Topic matching\<close>

definition level_ok :: "string list \<Rightarrow> string list \<Rightarrow> nat \<Rightarrow> bool" where
  "level_ok fl ts i \<longleftrightarrow> fl ! i = ''+'' \<or> fl ! i = ts ! i"

definition TopicMatch :: "string \<Rightarrow> string \<Rightarrow> bool" where
  "TopicMatch flt topic =
     (if flt = topic then True
      else if flt = ''#'' then True
      else let topicLevels = split_on (CHR ''/'') topic;
               filterLevels = split_on (CHR ''/'') flt
           in if length filterLevels > 0 \<and> filterLevels ! (length filterLevels - 1) = ''#''
              then (if length filterLevels - 1 > length topicLevels then False
                    else list_all (level_ok filterLevels topicLevels) [0..<length filterLevels - 1])
              else if length filterLevels \<noteq> length topicLevels then False
              else list_all (level_ok filterLevels topicLevels) [0..<length filterLevels])"

text \<open>
  The specification: a filter is a list of levels, ``+'' stands for any one level, and a last
  level ``#'' for any number of further levels, none included.
\<close>

fun lm :: "string list \<Rightarrow> string list \<Rightarrow> bool" where
  "lm [] [] = True"
| "lm [] (t # ts) = False"
| "lm (f # fs) [] = (f = ''#'' \<and> fs = [])"
| "lm (f # fs) (t # ts) =
     ((f = ''#'' \<and> fs = []) \<or> ((f = ''+'' \<or> f = t) \<and> lm fs ts))"

subsection \<open>Filters\<close>

text \<open>
  A filter is one of the three kinds of the code or an implementation of \<open>MessageFilter\<close> by
  the user, given by its two methods. The compiled expression is present exactly for
  \<open>isRegex\<close>. The argument of \<open>Match\<close> is a pointer, which may be nil.
\<close>

datatype msg_filter =
    TopicFilter string "regex option"
  | PayloadFilter string "regex option"
  | CompositeFilter "msg_filter list" bool string
  | UserFilter "message option \<Rightarrow> bool" string

definition compiled ::
  "(string \<Rightarrow> goerr + regex) \<Rightarrow> string \<Rightarrow> bool \<Rightarrow> goerr + regex option" where
  "compiled compile pattern isRegex =
     (if isRegex
      then (case compile pattern of
              Inl e \<Rightarrow> Inl (the (wrapError (Some e) ''invalid regex pattern''))
            | Inr r \<Rightarrow> Inr (Some r))
      else Inr None)"

definition NewTopicFilter ::
  "(string \<Rightarrow> goerr + regex) \<Rightarrow> string \<Rightarrow> bool \<Rightarrow> goerr + msg_filter" where
  "NewTopicFilter compile pattern isRegex =
     map_sum id (TopicFilter pattern) (compiled compile pattern isRegex)"

definition NewPayloadFilter ::
  "(string \<Rightarrow> goerr + regex) \<Rightarrow> string \<Rightarrow> bool \<Rightarrow> goerr + msg_filter" where
  "NewPayloadFilter compile pattern isRegex =
     map_sum id (PayloadFilter pattern) (compiled compile pattern isRegex)"

definition NewAndFilter :: "msg_filter list \<Rightarrow> msg_filter" where
  "NewAndFilter fs = CompositeFilter fs True ''AndFilter''"

definition NewOrFilter :: "msg_filter list \<Rightarrow> msg_filter" where
  "NewOrFilter fs = CompositeFilter fs False ''OrFilter''"

definition TopicFilter_Match :: "string \<Rightarrow> regex option \<Rightarrow> message option \<Rightarrow> bool" where
  "TopicFilter_Match pattern re msg =
     (case msg of None \<Rightarrow> False
      | Some m \<Rightarrow> (case re of Some r \<Rightarrow> re_match r (m_topic m)
                           | None \<Rightarrow> TopicMatch pattern (m_topic m)))"

definition PayloadFilter_Match :: "string \<Rightarrow> regex option \<Rightarrow> message option \<Rightarrow> bool" where
  "PayloadFilter_Match pattern re msg =
     (case msg of None \<Rightarrow> False
      | Some m \<Rightarrow>
          (case m_payload m of None \<Rightarrow> False
           | Some p \<Rightarrow> (case re of Some r \<Rightarrow> re_match r p | None \<Rightarrow> str_contains p pattern)))"

fun filter_Match :: "msg_filter \<Rightarrow> message option \<Rightarrow> bool" where
  "filter_Match (TopicFilter pattern re) msg = TopicFilter_Match pattern re msg"
| "filter_Match (PayloadFilter pattern re) msg = PayloadFilter_Match pattern re msg"
| "filter_Match (CompositeFilter fs isAnd d) msg =
     (if length fs = 0 then True
      else if isAnd then list_all (\<lambda>f. filter_Match f msg) fs
      else list_ex (\<lambda>f. filter_Match f msg) fs)"
| "filter_Match (UserFilter f d) msg = f msg"

definition TopicFilter_GetDescription :: "string \<Rightarrow> regex option \<Rightarrow> string" where
  "TopicFilter_GetDescription pattern re =
     (if re \<noteq> None then ''RegexTopicFilter: '' @ pattern else ''TopicFilter: '' @ pattern)"

definition PayloadFilter_GetDescription :: "string \<Rightarrow> regex option \<Rightarrow> string" where
  "PayloadFilter_GetDescription pattern re =
     (if re \<noteq> None then ''RegexPayloadFilter: '' @ pattern else ''PayloadFilter: '' @ pattern)"

fun filter_GetDescription :: "msg_filter \<Rightarrow> string" where
  "filter_GetDescription (TopicFilter pattern re) = TopicFilter_GetDescription pattern re"
| "filter_GetDescription (PayloadFilter pattern re) = PayloadFilter_GetDescription pattern re"
| "filter_GetDescription (CompositeFilter fs isAnd d) =
     (if length fs = 0 then d @ ''(empty)''
      else d @ ''('' @ join_with (if isAnd then '' AND '' else '' OR '') (map filter_GetDescription fs)
             @ '')'')"
| "filter_GetDescription (UserFilter f d) = d"

subsection \<open>Lemmas\<close>

lemma list_all_level_ok_Suc:
  "list_all (level_ok (f # fs) (t # ts)) [0..<Suc n]
     \<longleftrightarrow> (f = ''+'' \<or> f = t) \<and> list_all (level_ok fs ts) [0..<n]"
proof -
  have "[0..<Suc n] = 0 # map Suc [0..<n]" by (metis map_Suc_upt upt_conv_Cons zero_less_Suc)
  moreover have "level_ok (f # fs) (t # ts) \<circ> Suc = level_ok fs ts"
    by (simp add: level_ok_def fun_eq_iff)
  ultimately show ?thesis by (simp add: list.pred_map level_ok_def)
qed

lemma lm_refl: "lm xs xs"
  by (induction xs) auto

lemma lm_exact:
  "length fs = length ts \<Longrightarrow> fs \<noteq> [] \<Longrightarrow> last fs \<noteq> ''#'' \<Longrightarrow>
     lm fs ts \<longleftrightarrow> list_all (level_ok fs ts) [0..<length fs]"
proof (induction fs ts rule: list_induct2)
  case Nil
  then show ?case by simp
next
  case (Cons f fs t ts)
  show ?case
  proof (cases "fs = []")
    case True
    with Cons show ?thesis using list_all_level_ok_Suc [of f "[]" t "[]" 0] by auto
  next
    case False
    with Cons show ?thesis by (auto simp: list_all_level_ok_Suc simp del: upt_Suc)
  qed
qed

lemma lm_length: "lm fs ts \<Longrightarrow> fs \<noteq> [] \<Longrightarrow> last fs \<noteq> ''#'' \<Longrightarrow> length fs = length ts"
proof (induction fs ts rule: lm.induct)
  case (4 f fs t ts)
  then show ?case by (cases "fs = []"; cases ts) auto
qed auto

lemma lm_hash: "lm (fs @ [''#'']) ts \<longleftrightarrow>
  length fs \<le> length ts \<and> list_all (level_ok (fs @ [''#'']) ts) [0..<length fs]"
proof (induction fs arbitrary: ts)
  case Nil
  then show ?case by (cases ts) auto
next
  case (Cons f fs)
  show ?case
  proof (cases ts)
    case Nil
    then show ?thesis by simp
  next
    case (Cons t ts')
    with Cons.IH [of ts'] show ?thesis
      by (auto simp: list_all_level_ok_Suc simp del: upt_Suc)
  qed
qed

lemma TopicMatch_levels:
  "TopicMatch f t \<longleftrightarrow> lm (split_on (CHR ''/'') f) (split_on (CHR ''/'') t)"
proof -
  let ?fl = "split_on (CHR ''/'') f" and ?tl = "split_on (CHR ''/'') t"
  have last_nth: "?fl ! (length ?fl - 1) = last ?fl" by (simp add: last_conv_nth)
  consider "f = t" | "f = ''#''" | "f \<noteq> t" "f \<noteq> ''#''" "last ?fl = ''#''"
    | "f \<noteq> t" "f \<noteq> ''#''" "last ?fl \<noteq> ''#''" by blast
  then show ?thesis
  proof cases
    case 1
    then show ?thesis by (simp add: TopicMatch_def lm_refl)
  next
    case 2
    then show ?thesis by (cases ?tl) (auto simp: TopicMatch_def)
  next
    case 3
    then obtain fs where fs: "?fl = fs @ [''#'']" by (metis append_butlast_last_id split_on_nonempty)
    from 3 show ?thesis
      by (auto simp: TopicMatch_def Let_def fs lm_hash)
  next
    case 4
    with lm_length [of ?fl ?tl] lm_exact [of ?fl ?tl] last_nth show ?thesis
      by (auto simp: TopicMatch_def Let_def)
  qed
qed

subsection \<open>Properties\<close>


text \<open>Filters without user code and without an empty composition.\<close>

fun plain_filter :: "msg_filter \<Rightarrow> bool" where
  "plain_filter (TopicFilter pattern re) = True"
| "plain_filter (PayloadFilter pattern re) = True"
| "plain_filter (CompositeFilter fs isAnd d) = (fs \<noteq> [] \<and> list_all plain_filter fs)"
| "plain_filter (UserFilter f d) = False"

text \<open>
  No filter built from topic and payload filters by non-empty AND and OR compositions, however
  deep, accepts a nil message; an empty composition, also an OR of nothing, accepts every message.
\<close>

theorem nil_message_rejected:
  "(plain_filter f \<longrightarrow> \<not> filter_Match f None)
   \<and> filter_Match (NewAndFilter []) msg \<and> filter_Match (NewOrFilter []) msg"
proof -
  have "plain_filter f \<longrightarrow> \<not> filter_Match f None"
    by (induction f)
      (auto simp: TopicFilter_Match_def PayloadFilter_Match_def list_all_iff list_ex_iff neq_Nil_conv)
  then show ?thesis by (simp add: NewAndFilter_def NewOrFilter_def)
qed

theorem nil_message_rejected_witness:
  "\<not> filter_Match (NewOrFilter [TopicFilter ''a/#'' None, NewAndFilter [PayloadFilter ''x'' None]]) None"
  using nil_message_rejected
    [of "NewOrFilter [TopicFilter ''a/#'' None, NewAndFilter [PayloadFilter ''x'' None]]"]
  by (simp add: NewOrFilter_def NewAndFilter_def)

end
