(* ===== verification/Transformers.thy ===== *)
theory Transformers
  imports Codec
begin

text \<open>
  Message transformers (\<open>transformer.go\<close>): topic rewriting, payload functions, setting a
  field of a JSON payload by a dotted path, and pipelines of transformers. A transformer gets and
  returns a pointer to a message; nil (\<open>None\<close>) as a result drops the message.
\<close>

subsection \<open>JSON paths\<close>

text \<open>
  The walk of \<open>setJsonValue\<close>: an empty inner part is skipped, a missing inner object is
  created, an inner value that is not an object is replaced by one. The inner maps are updated in
  place, which is the update of the enclosing map at the part.
\<close>

fun set_parts :: "(string, json) gomap \<Rightarrow> string list \<Rightarrow> json \<Rightarrow> (string, json) gomap" where
  "set_parts current [] v = current"
| "set_parts current [p] v = mput p v current"
| "set_parts current (p # q # ps) v =
     (if p = [] then set_parts current (q # ps) v
      else case mget current p of
             Some (JObj nextMap) \<Rightarrow> mput p (JObj (set_parts nextMap (q # ps) v)) current
           | _ \<Rightarrow> mput p (JObj (set_parts [] (q # ps) v)) current)"

text \<open>Assigning to a nil map panics, and every path ends in an assignment.\<close>

definition setJsonValue ::
  "(string, json) gomap option \<Rightarrow> string \<Rightarrow> json \<Rightarrow> (string, json) gomap outcome" where
  "setJsonValue jsonData path v =
     (let parts = split_on (CHR ''.'') path
      in if length parts = 0 then Fail (NewErr ''invalid JSON path'')
         else case jsonData of None \<Rightarrow> Panic | Some m \<Rightarrow> Done (set_parts m parts v))"

text \<open>The value at a path, read with the same convention for empty inner parts.\<close>

fun get_parts :: "(string, json) gomap \<Rightarrow> string list \<Rightarrow> json option" where
  "get_parts m [] = None"
| "get_parts m [p] = mget m p"
| "get_parts m (p # q # ps) =
     (if p = [] then get_parts m (q # ps)
      else case mget m p of Some (JObj sub) \<Rightarrow> get_parts sub (q # ps) | _ \<Rightarrow> None)"

fun norm_parts :: "string list \<Rightarrow> string list" where
  "norm_parts [] = []"
| "norm_parts [p] = [p]"
| "norm_parts (p # q # ps) = (if p = [] then norm_parts (q # ps) else p # norm_parts (q # ps))"

text \<open>Two paths that part ways: neither is a prefix of the other.\<close>

fun apart :: "string list \<Rightarrow> string list \<Rightarrow> bool" where
  "apart (p # ps) (q # qs) = (p \<noteq> q \<or> apart ps qs)"
| "apart _ _ = False"

subsection \<open>Transformers\<close>

text \<open>
  \<open>json.Unmarshal\<close> into a \<open>map[string]interface{}\<close> (which stays nil for the text
  \<open>null\<close>) and \<open>json.Marshal\<close> of such a map are the two functions of a codec.
\<close>

record json_codec =
  unmarshal_map :: "payload \<Rightarrow> goerr + (string, json) gomap option"
  marshal_map :: "(string, json) gomap \<Rightarrow> goerr + payload"

datatype transformer =
    TopicRewriteTransformer string string "regex option"
  | PayloadTransformer string "(payload option \<Rightarrow> goerr + payload option) option"
  | JsonPathTransformer string json string
  | CompositeTransformer string "transformer list"
  | UserTransformer "message option \<Rightarrow> message option outcome" string

definition NewTopicRewriteTransformer ::
  "(string \<Rightarrow> goerr + regex) \<Rightarrow> string \<Rightarrow> string \<Rightarrow> bool \<Rightarrow> goerr + transformer" where
  "NewTopicRewriteTransformer compile pattern replacement isRegex =
     (if isRegex
      then (case compile pattern of
              Inl e \<Rightarrow> Inl (the (wrapError (Some e) ''invalid regex pattern''))
            | Inr r \<Rightarrow> Inr (TopicRewriteTransformer pattern replacement (Some r)))
      else Inr (TopicRewriteTransformer pattern replacement None))"

definition NewPayloadTransformer ::
  "string \<Rightarrow> (payload option \<Rightarrow> goerr + payload option) option \<Rightarrow> transformer" where
  "NewPayloadTransformer description transformFunc = PayloadTransformer description transformFunc"

definition NewCompositeTransformer :: "string \<Rightarrow> transformer list \<Rightarrow> transformer" where
  "NewCompositeTransformer description transformers = CompositeTransformer description transformers"

definition NewJsonPathTransformer :: "string \<Rightarrow> json \<Rightarrow> transformer" where
  "NewJsonPathTransformer path v = JsonPathTransformer path v (''JsonPath ['' @ path @ '']'')"

definition TopicRewrite_Transform ::
  "string \<Rightarrow> string \<Rightarrow> regex option \<Rightarrow> message option \<Rightarrow> message option outcome" where
  "TopicRewrite_Transform pattern replacement re msg =
     (case msg of None \<Rightarrow> Done None
      | Some m \<Rightarrow>
          (case re of
             Some r \<Rightarrow> Done (Some (m\<lparr>m_topic := re_replace r (m_topic m) replacement\<rparr>))
           | None \<Rightarrow> Done (Some (if m_topic m = pattern then m\<lparr>m_topic := replacement\<rparr> else m))))"

definition Payload_Transform ::
  "(payload option \<Rightarrow> goerr + payload option) option \<Rightarrow> message option \<Rightarrow> message option outcome" where
  "Payload_Transform fn msg =
     (case (msg, fn) of
        (Some m, Some f) \<Rightarrow>
          (case f (m_payload m) of
             Inl e \<Rightarrow> wrap_outcome ''failed to transform payload'' e
           | Inr None \<Rightarrow> Done None
           | Inr (Some p) \<Rightarrow> Done (Some (m\<lparr>m_payload := Some p\<rparr>)))
      | _ \<Rightarrow> Done msg)"

definition JsonPath_Transform ::
  "json_codec \<Rightarrow> string \<Rightarrow> json \<Rightarrow> message option \<Rightarrow> message option outcome" where
  "JsonPath_Transform c path v msg =
     (case msg of None \<Rightarrow> Done msg
      | Some m \<Rightarrow>
          if length (payload_bytes (m_payload m)) = 0 then Done msg
          else case unmarshal_map c (payload_bytes (m_payload m)) of
                 Inl e \<Rightarrow> wrap_outcome ''failed to parse JSON payload'' e
               | Inr jsonData \<Rightarrow>
                   (case setJsonValue jsonData path v of
                      Panic \<Rightarrow> Panic
                    | Fail e \<Rightarrow> wrap_outcome ''failed to set JSON value'' e
                    | Done j \<Rightarrow>
                        (case marshal_map c j of
                           Inl e \<Rightarrow> wrap_outcome ''failed to encode JSON payload'' e
                         | Inr p \<Rightarrow> Done (Some (m\<lparr>m_payload := Some p\<rparr>)))))"

fun transform :: "json_codec \<Rightarrow> transformer \<Rightarrow> message option \<Rightarrow> message option outcome"
and transform_all :: "json_codec \<Rightarrow> transformer list \<Rightarrow> message option \<Rightarrow> message option outcome" where
  "transform c (TopicRewriteTransformer pattern replacement re) msg =
     TopicRewrite_Transform pattern replacement re msg"
| "transform c (PayloadTransformer d fn) msg = Payload_Transform fn msg"
| "transform c (JsonPathTransformer path v d) msg = JsonPath_Transform c path v msg"
| "transform c (CompositeTransformer d ts) msg =
     (if msg = None \<or> length ts = 0 then Done msg else transform_all c ts msg)"
| "transform c (UserTransformer f d) msg = f msg"
| "transform_all c [] current = Done current"
| "transform_all c (t # ts) current =
     (case transform c t current of
        Panic \<Rightarrow> Panic
      | Fail e \<Rightarrow> wrap_outcome ''transformer error'' e
      | Done None \<Rightarrow> Done None
      | Done (Some m) \<Rightarrow> transform_all c ts (Some m))"

definition show_bool :: "bool \<Rightarrow> string" where
  "show_bool b = (if b then ''true'' else ''false'')"

definition TopicRewrite_GetDescription :: "string \<Rightarrow> string \<Rightarrow> regex option \<Rightarrow> string" where
  "TopicRewrite_GetDescription pattern replacement re =
     ''TopicRewrite ['' @ pattern @ ''] -> ['' @ replacement @ ''] (regex:'' @ show_bool (re \<noteq> None)
       @ '')''"

fun transformer_GetDescription :: "transformer \<Rightarrow> string" where
  "transformer_GetDescription (TopicRewriteTransformer pattern replacement re) =
     TopicRewrite_GetDescription pattern replacement re"
| "transformer_GetDescription (PayloadTransformer d fn) = d"
| "transformer_GetDescription (JsonPathTransformer path v d) = d"
| "transformer_GetDescription (CompositeTransformer d ts) =
     (if length ts = 0 then d @ ''(empty)''
      else d @ ''('' @ join_with '' -> '' (map transformer_GetDescription ts) @ '')'')"
| "transformer_GetDescription (UserTransformer f d) = d"

subsection \<open>Lemmas on paths\<close>

lemma norm_parts_nonempty [simp]: "norm_parts (p # ps) \<noteq> []"
  by (induction ps arbitrary: p) auto

lemma set_norm: "set_parts m (norm_parts ps) v = set_parts m ps v"
proof (induction m ps v rule: set_parts.induct)
  case (3 m p q ps v)
  obtain r rs where "norm_parts (q # ps) = r # rs"
    by (cases "norm_parts (q # ps)") auto
  with 3 show ?case by (auto split: option.splits json.splits)
qed auto

lemma get_norm: "get_parts m (norm_parts ps) = get_parts m ps"
proof (induction m ps rule: get_parts.induct)
  case (3 m p q ps)
  obtain r rs where "norm_parts (q # ps) = r # rs"
    by (cases "norm_parts (q # ps)") auto
  with 3 show ?case by (auto split: option.splits json.splits)
qed auto

lemma get_set: "ps \<noteq> [] \<Longrightarrow> get_parts (set_parts m ps v) ps = Some v"
  by (induction m ps v rule: set_parts.induct) (auto split: option.splits json.splits)

lemma set_set: "set_parts (set_parts m ps w) ps v = set_parts m ps v"
  by (induction m ps v rule: set_parts.induct) (auto split: option.splits json.splits)

text \<open>Paths without empty inner parts.\<close>

definition inner_ok :: "string list \<Rightarrow> bool" where
  "inner_ok ps \<longleftrightarrow> [] \<notin> set (butlast ps)"

lemma inner_ok_norm [simp]: "inner_ok (norm_parts ps)"
  by (induction ps rule: norm_parts.induct) (auto simp: inner_ok_def)

lemma get_parts_empty_map [simp]: "get_parts [] ps = None"
  by (induction "[] :: (string, json) gomap" ps rule: get_parts.induct) auto

text \<open>The object below a part, empty when there is none: one step of both walks.\<close>

definition sub_object :: "(string, json) gomap \<Rightarrow> string \<Rightarrow> (string, json) gomap" where
  "sub_object m p = (case mget m p of Some (JObj sub) \<Rightarrow> sub | _ \<Rightarrow> [])"

lemma set_parts_step:
  "p \<noteq> [] \<Longrightarrow> ps \<noteq> [] \<Longrightarrow>
     set_parts m (p # ps) v = mput p (JObj (set_parts (sub_object m p) ps v)) m"
  by (cases ps) (simp_all add: sub_object_def split: option.split json.split)

lemma get_parts_step:
  "p \<noteq> [] \<Longrightarrow> ps \<noteq> [] \<Longrightarrow> get_parts m (p # ps) = get_parts (sub_object m p) ps"
  by (cases ps) (simp_all add: sub_object_def split: option.split json.split)

lemma sub_object_mput [simp]:
  "sub_object (mput p (JObj s) m) q = (if q = p then s else sub_object m q)"
  by (simp add: sub_object_def)

lemma inner_ok_Cons: "inner_ok (p # ps) \<longleftrightarrow> ps = [] \<or> p \<noteq> [] \<and> inner_ok ps"
  by (auto simp: inner_ok_def)

lemma get_set_apart:
  "apart ps qs \<Longrightarrow> inner_ok ps \<Longrightarrow> inner_ok qs \<Longrightarrow> get_parts (set_parts m ps v) qs = get_parts m qs"
proof (induction ps arbitrary: m qs)
  case Nil
  then show ?case by simp
next
  case (Cons p ps)
  then obtain q qs' where qs: "qs = q # qs'" and ap: "p \<noteq> q \<or> apart ps qs'" by (cases qs) auto
  have ps: "ps = [] \<or> p \<noteq> [] \<and> inner_ok ps" using Cons.prems(2) by (simp add: inner_ok_Cons)
  have qs': "qs' = [] \<or> q \<noteq> [] \<and> inner_ok qs'" using Cons.prems(3) qs by (simp add: inner_ok_Cons)
  show ?case
  proof (cases "p = q")
    case True
    with ap have "apart ps qs'" by simp
    then have "ps \<noteq> []" "qs' \<noteq> []" by (cases ps; cases qs'; simp)+
    with True ps qs' qs Cons.IH [OF \<open>apart ps qs'\<close>] show ?thesis
      by (simp add: set_parts_step get_parts_step)
  next
    case False
    obtain w where upd: "set_parts m (p # ps) v = mput p w m" and obj: "ps \<noteq> [] \<Longrightarrow> \<exists>s. w = JObj s"
      using ps by (cases "ps = []") (auto simp: set_parts_step)
    show ?thesis
      using False qs qs' upd by (cases "qs' = []") (simp_all add: get_parts_step sub_object_def)
  qed
qed

subsection \<open>Lemmas on pipelines\<close>

lemma transform_all_append:
  "transform_all c (ts @ us) (Some m) =
     (case transform_all c ts (Some m) of
        Done (Some m') \<Rightarrow> transform_all c us (Some m')
      | r \<Rightarrow> r)"
  by (induction ts arbitrary: m)
    (auto simp: wrap_outcome_def split: outcome.splits option.splits)

lemma transform_composite: "transform c (CompositeTransformer d ts) (Some m) = transform_all c ts (Some m)"
  by simp

text \<open>What no transformer of the library touches.\<close>

definition same_envelope :: "message \<Rightarrow> message \<Rightarrow> bool" where
  "same_envelope m m' \<longleftrightarrow>
     m_qos m' = m_qos m \<and> m_retained m' = m_retained m \<and> m_duplicate m' = m_duplicate m
     \<and> m_id m' = m_id m \<and> m_timestamp m' = m_timestamp m \<and> m_properties m' = m_properties m"

fun library_only :: "transformer \<Rightarrow> bool" where
  "library_only (CompositeTransformer d ts) = list_all library_only ts"
| "library_only (UserTransformer f d) = False"
| "library_only _ = True"

lemma same_envelope_trans: "same_envelope a b \<Longrightarrow> same_envelope b c \<Longrightarrow> same_envelope a c"
  by (simp add: same_envelope_def)

lemma TopicRewrite_envelope:
  "TopicRewrite_Transform pattern replacement re (Some m) = Done (Some m') \<Longrightarrow> same_envelope m m'"
  by (auto simp: TopicRewrite_Transform_def same_envelope_def split: option.splits if_splits)

lemma Payload_envelope:
  "Payload_Transform fn (Some m) = Done (Some m') \<Longrightarrow> same_envelope m m'"
  by (auto simp: Payload_Transform_def same_envelope_def wrap_outcome_def
      split: option.splits sum.splits)

lemma JsonPath_envelope:
  "JsonPath_Transform c path v (Some m) = Done (Some m') \<Longrightarrow> same_envelope m m'"
  by (auto simp: JsonPath_Transform_def same_envelope_def wrap_outcome_def
      split: option.splits sum.splits if_splits outcome.splits)

lemma transform_all_envelope:
  "(\<And>t m m'. t \<in> set ts \<Longrightarrow> transform c t (Some m) = Done (Some m') \<Longrightarrow> same_envelope m m') \<Longrightarrow>
     transform_all c ts (Some m) = Done (Some m') \<Longrightarrow> same_envelope m m'"
proof (induction ts arbitrary: m)
  case Nil
  then show ?case by (simp add: same_envelope_def)
next
  case (Cons t ts)
  from Cons.prems(2) obtain m1 where one: "transform c t (Some m) = Done (Some m1)"
      "transform_all c ts (Some m1) = Done (Some m')"
    by (simp add: wrap_outcome_def split: outcome.splits option.splits)
  have "same_envelope m m1" by (rule Cons.prems(1) [OF _ one(1)]) simp
  moreover have "same_envelope m1 m'"
    by (rule Cons.IH [OF Cons.prems(1) one(2)]) simp_all
  ultimately show ?case by (rule same_envelope_trans)
qed

lemma transform_envelope:
  "library_only t \<Longrightarrow> transform c t (Some m) = Done (Some m') \<Longrightarrow> same_envelope m m'"
proof (induction t arbitrary: m m')
  case (CompositeTransformer d ts)
  have "transform_all c ts (Some m) = Done (Some m')"
    using CompositeTransformer.prems(2) by (cases ts) simp_all
  moreover have "same_envelope a b"
    if "t \<in> set ts" "transform c t (Some a) = Done (Some b)" for t a b
    using CompositeTransformer.IH [OF that(1) _ that(2)] CompositeTransformer.prems(1) that(1)
    by (simp add: list_all_iff)
  ultimately show ?case using transform_all_envelope by blast
qed (simp_all add: TopicRewrite_envelope Payload_envelope JsonPath_envelope)

text \<open>A message for the examples.\<close>

definition sample_message :: message where
  "sample_message =
     \<lparr>m_topic = ''a'', m_payload = Some ''hello'', m_qos = 1, m_retained = False, m_duplicate = False,
      m_id = 7, m_timestamp = 5, m_properties = None\<rparr>"

subsection \<open>The codec of the library\<close>

text \<open>
  \<open>encoding/json\<close> itself (theories JsonText and Codec) as the codec: reading into a map of interface
  values, and writing such a map with its keys in order.
\<close>

definition std_json :: json_codec where
  "std_json =
     \<lparr>unmarshal_map =
        (\<lambda>p. case parse_json p of
               None \<Rightarrow> Inl json_syntax_error
             | Some j \<Rightarrow>
                 if j = JNull then Inr None
                 else (case any_value j of Some (JObj m) \<Rightarrow> Inr (Some m) | _ \<Rightarrow> Inl json_type_error)),
      marshal_map = (\<lambda>m. Inr (print_json (sort_value (JObj m))))\<rparr>"

lemma fit_sort: "json_fit n v \<Longrightarrow> json_fit n (sort_value v)"
proof (induction v arbitrary: n)
  case (JArr xs)
  then obtain k where "n = Suc k" by (cases n) (simp_all add: json_fit_def)
  with JArr show ?case by (simp add: list_all_iff)
next
  case (JObj kvs)
  then obtain k where "n = Suc k" by (cases n) (simp_all add: json_fit_def)
  with JObj show ?case by (auto simp: list_all_iff snds.simps)
qed simp_all

lemma value_sort: "value_ok v \<Longrightarrow> value_ok (sort_value v)"
proof (induction v)
  case (JArr xs)
  then show ?case by (simp add: list_all_iff)
next
  case (JObj kvs)
  then have "wf_map (map (\<lambda>(k, v). (k, sort_value v)) kvs)" by (simp only: wf_map_values value_ok.simps)
  then have "wf_map (sort_keys (map (\<lambda>(k, v). (k, sort_value v)) kvs))" by (rule wf_sort_keys)
  with JObj show ?case by (auto simp: list_all_iff snds.simps)
qed simp_all

lemma std_roundtrip:
  assumes "value_ok (JObj m)" and "json_depth (JObj m) \<le> max_depth"
  shows "unmarshal_map std_json (print_json (sort_value (JObj m)))
     = Inr (Some (sort_keys (map (\<lambda>(k, v). (k, sort_value v)) m)))"
proof -
  have "json_fit max_depth (JObj m)" using assms by (rule value_fit)
  from fit_sort [OF this] have "json_ok (sort_value (JObj m))" by (simp only: json_ok_def json_fit_def)
  moreover have "any_value (sort_value (JObj m)) = Some (sort_value (JObj m))"
    using assms(1) by (intro any_value_ok value_sort)
  ultimately show ?thesis
    by (simp add: std_json_def parse_print_ok del: any_value.simps)
qed

lemma get_sorted:
  "value_ok (JObj m) \<Longrightarrow>
     get_parts (sort_keys (map (\<lambda>(k, v). (k, sort_value v)) m)) ps = map_option sort_value (get_parts m ps)"
proof (induction m ps rule: get_parts.induct)
  case (1 m)
  then show ?case by simp
next
  case (2 m p)
  then show ?case by (simp add: mget_sorted_values)
next
  case (3 m p q ps)
  have look: "mget (sort_keys (map (\<lambda>(k, v). (k, sort_value v)) m)) p = map_option sort_value (mget m p)"
    using 3(3) by (simp add: mget_sorted_values)
  have "value_ok v" if "mget m p = Some v" for v
    using map_of_SomeD [OF that] 3(3) by (auto simp: list_all_iff)
  with 3(1,2) [OF _] 3(3) look show ?case
    by (cases "p = []"; cases "mget m p") (auto split: json.split)
qed

subsection \<open>Properties\<close>

text \<open>
  C39. A message whose payload is the text of a JSON object leaves the JSON-path transformer with a
  payload that is the text of an object again, in which the path has the value that was set and every
  path that parts ways with it has the value it had, up to the order of entries.
\<close>

theorem JsonPath_on_text:
  assumes "m_payload m = Some p" and "unmarshal_map std_json p = Inr (Some j)"
    and "value_ok (JObj (set_parts j (split_on (CHR ''.'') path) v))"
    and "json_depth (JObj (set_parts j (split_on (CHR ''.'') path) v)) \<le> max_depth"
  shows "\<exists>p' j'. transform std_json (NewJsonPathTransformer path v) (Some m)
        = Done (Some (m\<lparr>m_payload := Some p'\<rparr>))
    \<and> unmarshal_map std_json p' = Inr (Some j')
    \<and> get_parts j' (split_on (CHR ''.'') path) = Some (sort_value v)
    \<and> (\<forall>qs. apart (norm_parts (split_on (CHR ''.'') path)) (norm_parts qs) \<longrightarrow>
         get_parts j' qs = map_option sort_value (get_parts j qs))"
proof -
  let ?ps = "split_on (CHR ''.'') path"
  let ?j = "set_parts j ?ps v"
  have "p \<noteq> []"
  proof
    assume "p = []"
    with assms(2) show False by (simp add: std_json_def parse_json_def parse_tokens_def)
  qed
  then have "transform std_json (NewJsonPathTransformer path v) (Some m)
      = Done (Some (m\<lparr>m_payload := Some (print_json (sort_value (JObj ?j)))\<rparr>))"
    using assms(1,2)
    by (simp add: NewJsonPathTransformer_def JsonPath_Transform_def setJsonValue_def payload_bytes_def)
      (simp add: std_json_def)
  moreover have "get_parts ?j qs = get_parts j qs" if "apart (norm_parts ?ps) (norm_parts qs)" for qs
    using get_set_apart [OF that, of j v] by (simp add: set_norm get_norm)
  then have "get_parts (sort_keys (map (\<lambda>(k, v). (k, sort_value v)) ?j)) qs = map_option sort_value (get_parts j qs)"
    if "apart (norm_parts ?ps) (norm_parts qs)" for qs
    using that get_sorted [OF assms(3), of qs] by simp
  moreover have "get_parts (sort_keys (map (\<lambda>(k, v). (k, sort_value v)) ?j)) ?ps = Some (sort_value v)"
    using get_sorted [OF assms(3), of ?ps] get_set [of ?ps j v] by simp
  ultimately show ?thesis using std_roundtrip [OF assms(3,4)] by blast
qed

theorem JsonPath_on_text_witness:
  "\<exists>p' j'. transform std_json (NewJsonPathTransformer ''a.b'' (JNum 2))
        (Some (sample_message\<lparr>m_payload := Some (print_json (JObj [(''a'', JObj [(''c'', JNum 1)])]))\<rparr>))
      = Done (Some (sample_message\<lparr>m_payload := Some p'\<rparr>))
    \<and> unmarshal_map std_json p' = Inr (Some j')
    \<and> get_parts j' [''a'', ''b''] = Some (JNum 2) \<and> get_parts j' [''a'', ''c''] = Some (JNum 1)"
proof -
  let ?o = "[(''a'', JObj [(''c'', JNum 1)])]"
  let ?m = "sample_message\<lparr>m_payload := Some (print_json (JObj ?o))\<rparr>"
  have "unmarshal_map std_json (print_json (sort_value (JObj ?o))) = Inr (Some ?o)"
    by (subst std_roundtrip) (simp_all add: max_depth_def sort_keys_def)
  then have "unmarshal_map std_json (print_json (JObj ?o)) = Inr (Some ?o)"
    by (simp add: sort_keys_def)
  moreover have "value_ok (JObj (set_parts ?o (split_on (CHR ''.'') ''a.b'') (JNum 2)))"
    "json_depth (JObj (set_parts ?o (split_on (CHR ''.'') ''a.b'') (JNum 2))) \<le> max_depth"
    by (simp_all add: max_depth_def)
  moreover have "m_payload ?m = Some (print_json (JObj ?o))" by simp
  moreover have "apart (norm_parts (split_on (CHR ''.'') ''a.b'')) (norm_parts [''a'', ''c''])" by simp
  ultimately show ?thesis
    using JsonPath_on_text [of ?m "print_json (JObj ?o)" ?o "''a.b''" "JNum 2"] by fastforce
qed

text \<open>
  After \<open>setJsonValue\<close> the path reads as the value that was set, every path that parts
  ways with it reads as before, and setting a path twice is setting it once.
\<close>

theorem setJsonValue_get_set_frame:
  "\<exists>m'. setJsonValue (Some m) path v = Done m'
      \<and> get_parts m' (split_on (CHR ''.'') path) = Some v
      \<and> (\<forall>qs. apart (norm_parts (split_on (CHR ''.'') path)) (norm_parts qs) \<longrightarrow> get_parts m' qs = get_parts m qs)
      \<and> setJsonValue (Some m') path v = Done m'"
proof -
  let ?ps = "split_on (CHR ''.'') path"
  have set: "setJsonValue (Some x) path v = Done (set_parts x ?ps v)" for x
    by (simp add: setJsonValue_def Let_def)
  have "get_parts (set_parts m ?ps v) qs = get_parts m qs"
    if "apart (norm_parts ?ps) (norm_parts qs)" for qs
    using get_set_apart [OF that, of m v] by (simp add: set_norm get_norm)
  with set get_set [of ?ps m v] set_set [of m ?ps v v] show ?thesis by simp
qed

theorem setJsonValue_get_set_frame_witness:
  "\<exists>m'. setJsonValue (Some [(''a'', JObj [(''c'', JNum 1)])]) ''a.b'' (JNum 2) = Done m'
      \<and> get_parts m' [''a'', ''c''] = Some (JNum 1)"
proof -
  have "apart (norm_parts (split_on (CHR ''.'') ''a.b'')) (norm_parts [''a'', ''c''])" by simp
  moreover have "get_parts [(''a'', JObj [(''c'', JNum 1)])] [''a'', ''c''] = Some (JNum 1)" by simp
  ultimately show ?thesis
    using setJsonValue_get_set_frame [of "[(''a'', JObj [(''c'', JNum 1)])]" "''a.b''" "JNum 2"]
    by metis
qed

text \<open>
  A pipeline applies its transformers in order: one over two lists is the first pipeline
  followed by the second, a message dropped, an error or a panic in the first part ending it.
\<close>

theorem pipeline_sequential:
  "transform c (CompositeTransformer d (ts @ us)) (Some m) =
     (case transform c (CompositeTransformer d ts) (Some m) of
        Done (Some m') \<Rightarrow> transform c (CompositeTransformer d us) (Some m')
      | r \<Rightarrow> r)"
  unfolding transform_composite by (rule transform_all_append)

text \<open>
  Whatever pipeline of the library's transformers a message passes, its QoS, flags, identifier,
  time stamp and properties are unchanged: only the topic and the payload are rewritten.
\<close>

theorem transform_keeps_envelope:
  assumes "library_only t" and "transform c t (Some m) = Done (Some m')"
  shows "same_envelope m m'"
  using assms by (rule transform_envelope)

theorem transform_keeps_envelope_witness:
  "\<forall>c. \<exists>m'. transform c (CompositeTransformer ''d'' [TopicRewriteTransformer ''a'' ''b'' None,
              PayloadTransformer ''p'' (Some (\<lambda>p. Inr (Some ''x'')))]) (Some sample_message) = Done (Some m')
      \<and> same_envelope sample_message m'"
proof (rule allI)
  fix c :: json_codec
  let ?t = "CompositeTransformer ''d'' [TopicRewriteTransformer ''a'' ''b'' None,
              PayloadTransformer ''p'' (Some (\<lambda>p. Inr (Some ''x'')))]"
  have "transform c ?t (Some sample_message)
      = Done (Some (sample_message\<lparr>m_topic := ''b'', m_payload := Some ''x''\<rparr>))"
    by (simp add: TopicRewrite_Transform_def Payload_Transform_def sample_message_def)
  moreover from this have "same_envelope sample_message (sample_message\<lparr>m_topic := ''b'', m_payload := Some ''x''\<rparr>)"
    by (intro transform_keeps_envelope [where t = ?t]) simp_all
  ultimately show "\<exists>m'. transform c ?t (Some sample_message) = Done (Some m') \<and> same_envelope sample_message m'"
    by blast
qed

text \<open>
  A JSON payload \<open>null\<close>, or any payload that leaves the decoded map nil, makes the
  JSON-path transformer panic (assignment to an entry of a nil map) instead of returning an error.
\<close>

theorem JsonPath_null_panics:
  assumes "m_payload m = Some p" and "p \<noteq> []" and "unmarshal_map c p = Inr None"
  shows "transform c (NewJsonPathTransformer path v) (Some m) = Panic"
  using assms
  by (simp add: NewJsonPathTransformer_def JsonPath_Transform_def setJsonValue_def Let_def payload_bytes_def)

theorem JsonPath_null_panics_witness:
  "transform \<lparr>unmarshal_map = (\<lambda>p. if p = ''null'' then Inr None else Inl (NewErr ''syntax'')),
              marshal_map = (\<lambda>m. Inr ''{}'')\<rparr>
     (NewJsonPathTransformer ''a'' JNull) (Some (sample_message\<lparr>m_payload := Some ''null''\<rparr>)) = Panic"
  by (rule JsonPath_null_panics [where p = "''null''"]) simp_all

end
