(* ===== verification/Routes.thy ===== *)
theory Routes
  imports Managers Filters Transformers
begin

text \<open>
  Routes (\<open>route.go\<close>, \<open>route_advanced.go\<close>, \<open>Route\<close> and \<open>RouteStats\<close> of \<open>types.go\<close>):
  a subscription whose messages go to the user's function or to a bounded channel, with optional
  filters and transformers before it. The message functions are pure functions on a route; the
  constructors and \<open>Stop\<close> work on the manager. What the user's function is called with is kept
  in \<open>rt_handled\<close>.
\<close>

subsection \<open>State\<close>

record route_stats =
  rs_received :: u64
  rs_dropped :: u64
  rs_bytes :: u64
  rs_last_message :: int
  rs_last_error :: int
  rs_errors :: u64

text \<open>
  \<open>rt_managed\<close> is whether the manager is not nil, \<open>rt_chan\<close> the content of the channel
  \<open>messages\<close>, \<open>rt_room\<close> its capacity, \<open>rt_closed\<close> whether it is closed, and \<open>rt_done\<close>
  whether the channel \<open>done\<close> is. \<open>rt_handler\<close> is the user's function, if it is not nil.
\<close>

record route =
  rt_topic :: string
  rt_session :: string
  rt_managed :: bool
  rt_chan :: "message list"
  rt_room :: nat
  rt_closed :: bool
  rt_done :: bool
  rt_qos :: byte
  rt_stats :: route_stats
  rt_once :: bool
  rt_handler :: "nat option"
  rt_handled :: "(nat \<times> message) list"

record advanced_route = route +
  rt_filters :: "msg_filter list"
  rt_transformers :: "transformer list"

record route_config =
  rc_topic :: string
  rc_qos :: byte
  rc_filters :: "msg_filter list"
  rc_transformers :: "transformer list"
  rc_buffer :: int
  rc_session :: string
  rc_handler :: "nat option"

definition zero_stats :: route_stats where
  "zero_stats = \<lparr>rs_received = 0, rs_dropped = 0, rs_bytes = 0, rs_last_message = zero_time,
     rs_last_error = zero_time, rs_errors = 0\<rparr>"

definition DefaultMessageChanSize :: nat where "DefaultMessageChanSize = 100"

fun largest_chan :: "nat \<Rightarrow> session list \<Rightarrow> nat" where
  "largest_chan maxSize [] = maxSize"
| "largest_chan maxSize (s # ss) =
     largest_chan
       (case op_performance (se_opts s) of
          None \<Rightarrow> maxSize
        | Some p \<Rightarrow> if sint (pf_chan_size p) > int maxSize then nat (sint (pf_chan_size p)) else maxSize) ss"

definition getMessageBufferSize :: "'c manager \<Rightarrow> nat" where
  "getMessageBufferSize m =
     (if length (mg_sessions m) = 0 then DefaultMessageChanSize
      else largest_chan DefaultMessageChanSize (map snd (mg_sessions m)))"

definition newRoute :: "string \<Rightarrow> string \<Rightarrow> 'c manager \<Rightarrow> byte \<Rightarrow> nat option \<Rightarrow> route" where
  "newRoute tpc name m qos f =
     \<lparr>rt_topic = tpc, rt_session = name, rt_managed = True, rt_chan = [], rt_room = getMessageBufferSize m,
      rt_closed = False, rt_done = False, rt_qos = qos, rt_stats = zero_stats, rt_once = False,
      rt_handler = f, rt_handled = []\<rparr>"

definition newAdvancedRoute :: "route_config \<Rightarrow> advanced_route" where
  "newAdvancedRoute cfg =
     \<lparr>rt_topic = rc_topic cfg, rt_session = rc_session cfg, rt_managed = True, rt_chan = [],
      rt_room = (if rc_buffer cfg \<le> 0 then DefaultMessageChanSize else nat (rc_buffer cfg)),
      rt_closed = False, rt_done = False, rt_qos = rc_qos cfg, rt_stats = zero_stats, rt_once = False,
      rt_handler = rc_handler cfg, rt_handled = [],
      rt_filters = rc_filters cfg, rt_transformers = rc_transformers cfg\<rparr>"

subsection \<open>Stopping\<close>

text \<open>\<^const>\<open>None\<close> is the nil route.\<close>

definition route_Stop ::
  "'c env \<Rightarrow> (string \<Rightarrow> goerr option) \<Rightarrow> ('a route_scheme) option \<Rightarrow> 'c manager \<Rightarrow>
     ('a route_scheme) option \<times> 'c manager" where
  "route_Stop en answer ro m =
     (case ro of
        None \<Rightarrow> (None, m)
      | Some r \<Rightarrow>
          if rt_once r then (Some r, m)
          else if \<not> rt_managed r then (Some (r\<lparr>rt_once := True\<rparr>), m)
          else
            (Some (r\<lparr>rt_once := True, rt_done := True, rt_closed := True\<rparr>),
             if rt_session r = [] then snd (UnsubscribeAll en answer (rt_topic r) m)
             else snd (UnsubscribeTo en (answer (rt_session r)) (rt_session r) (rt_topic r) m)))"

definition route_GetStats :: "'a route_scheme \<Rightarrow> route_stats" where
  "route_GetStats r = rt_stats r"

subsection \<open>A message arrives\<close>

definition route_message :: "int \<Rightarrow> string \<Rightarrow> payload option \<Rightarrow> 'a route_scheme \<Rightarrow> message" where
  "route_message now tpc p r =
     \<lparr>m_topic = tpc, m_payload = p, m_qos = rt_qos r, m_retained = False, m_duplicate = False,
      m_id = 0, m_timestamp = now, m_properties = None\<rparr>"

definition count_message :: "int \<Rightarrow> payload option \<Rightarrow> 'a route_scheme \<Rightarrow> 'a route_scheme" where
  "count_message now p r =
     r\<lparr>rt_stats := (rt_stats r)
         \<lparr>rs_received := rs_received (rt_stats r) + 1,
          rs_bytes := rs_bytes (rt_stats r) + of_nat (length (payload_bytes p)),
          rs_last_message := now\<rparr>\<rparr>"

text \<open>A call that can panic gives whether it did.\<close>

definition call_handler :: "nat option \<Rightarrow> message \<Rightarrow> 'a route_scheme \<Rightarrow> bool \<times> 'a route_scheme" where
  "call_handler f msg r =
     (case f of None \<Rightarrow> (True, r) | Some g \<Rightarrow> (False, r\<lparr>rt_handled := rt_handled r @ [(g, msg)]\<rparr>))"

text \<open>The non-blocking send: a closed channel panics, a full one drops the message.\<close>

definition offer_message :: "message \<Rightarrow> 'a route_scheme \<Rightarrow> bool \<times> 'a route_scheme" where
  "offer_message msg r =
     (if rt_closed r then (True, r)
      else if length (rt_chan r) < rt_room r then (False, r\<lparr>rt_chan := rt_chan r @ [msg]\<rparr>)
      else (False, r\<lparr>rt_stats := (rt_stats r)\<lparr>rs_dropped := rs_dropped (rt_stats r) + 1\<rparr>\<rparr>))"

definition handle_function :: "int \<Rightarrow> string \<Rightarrow> payload option \<Rightarrow> 'a route_scheme \<Rightarrow> bool \<times> 'a route_scheme" where
  "handle_function now tpc p r =
     (if rt_done r then (False, r)
      else call_handler (rt_handler r) (route_message now tpc p r) (count_message now p r))"

definition listen_function :: "int \<Rightarrow> string \<Rightarrow> payload option \<Rightarrow> 'a route_scheme \<Rightarrow> bool \<times> 'a route_scheme" where
  "listen_function now tpc p r =
     (if rt_done r then (False, r)
      else offer_message (route_message now tpc p r) (count_message now p r))"

definition AddFilter :: "msg_filter \<Rightarrow> advanced_route \<Rightarrow> advanced_route" where
  "AddFilter f r = r\<lparr>rt_filters := rt_filters r @ [f]\<rparr>"

definition AddTransformer :: "transformer \<Rightarrow> advanced_route \<Rightarrow> advanced_route" where
  "AddTransformer t r = r\<lparr>rt_transformers := rt_transformers r @ [t]\<rparr>"

definition filterMessage :: "advanced_route \<Rightarrow> message \<Rightarrow> bool" where
  "filterMessage r msg =
     (if length (rt_filters r) = 0 then True
      else list_all (\<lambda>f. filter_Match f (Some msg)) (rt_filters r))"

fun transform_loop :: "json_codec \<Rightarrow> transformer list \<Rightarrow> message \<Rightarrow> message option outcome" where
  "transform_loop c [] current = Done (Some current)"
| "transform_loop c (t # ts) current =
     (case transform c t (Some current) of
        Panic \<Rightarrow> Panic
      | Fail e \<Rightarrow> wrap_outcome ''transformer error'' e
      | Done None \<Rightarrow> Done None
      | Done (Some m) \<Rightarrow> transform_loop c ts m)"

definition transformMessage :: "json_codec \<Rightarrow> advanced_route \<Rightarrow> message \<Rightarrow> message option outcome" where
  "transformMessage c r msg =
     (if length (rt_transformers r) = 0 then Done (Some msg) else transform_loop c (rt_transformers r) msg)"

text \<open>
  \<open>processMessage\<close> in two parts, between which other goroutines may run: the test of \<open>done\<close> with
  the counting, and the rest. \<open>now2\<close> is the time of an error.
\<close>

definition finish_message ::
  "json_codec \<Rightarrow> int \<Rightarrow> message \<Rightarrow> advanced_route \<Rightarrow> bool \<times> advanced_route" where
  "finish_message c now2 msg r =
     (if \<not> filterMessage r msg then (False, r)
      else
        (case transformMessage c r msg of
           Panic \<Rightarrow> (True, r)
         | Fail e \<Rightarrow>
             (False, r\<lparr>rt_stats := (rt_stats r)\<lparr>rs_last_error := now2, rs_errors := rs_errors (rt_stats r) + 1\<rparr>\<rparr>)
         | Done None \<Rightarrow> (False, r)
         | Done (Some msg') \<Rightarrow>
             if rt_handler r \<noteq> None then call_handler (rt_handler r) msg' r else offer_message msg' r))"

definition processMessage ::
  "json_codec \<Rightarrow> int \<Rightarrow> int \<Rightarrow> string \<Rightarrow> payload option \<Rightarrow> advanced_route \<Rightarrow> bool \<times> advanced_route" where
  "processMessage c now now2 tpc p r =
     (if rt_done r then (False, r)
      else finish_message c now2 (route_message now tpc p r) (count_message now p r))"

subsection \<open>Making routes\<close>

text \<open>The message function of a route is known to the sessions by a name \<open>id\<close>.\<close>

definition Handle ::
  "(string \<Rightarrow> nat \<Rightarrow> ('c, 'c mworld) attempt) \<Rightarrow> string \<Rightarrow> string \<Rightarrow> nat option \<Rightarrow> 'c manager \<Rightarrow>
     route \<times> 'c manager" where
  "Handle at rid tpc f m = (newRoute tpc [] m 0 f, snd (SubscribeAll at tpc (RouteHandler rid) 0 m))"

definition HandleTo ::
  "(nat \<Rightarrow> ('c, 'c mworld) attempt) \<Rightarrow> int \<Rightarrow> string \<Rightarrow> string \<Rightarrow> string \<Rightarrow> nat option \<Rightarrow> 'c manager \<Rightarrow>
     (goerr + route) \<times> 'c manager" where
  "HandleTo at now rid name tpc f m =
     (let r = newRoute tpc name m 0 f
      in case SubscribeTo at now name tpc (RouteHandler rid) 0 m of
           (Some e, m1) \<Rightarrow> (Inl e, m1)
         | (None, m1) \<Rightarrow> (Inr r, m1))"

definition Listen ::
  "(string \<Rightarrow> nat \<Rightarrow> ('c, 'c mworld) attempt) \<Rightarrow> string \<Rightarrow> string \<Rightarrow> 'c manager \<Rightarrow> route \<times> 'c manager" where
  "Listen at rid tpc m = (newRoute tpc [] m 0 None, snd (SubscribeAll at tpc (RouteHandler rid) 0 m))"

definition ListenTo ::
  "(nat \<Rightarrow> ('c, 'c mworld) attempt) \<Rightarrow> int \<Rightarrow> string \<Rightarrow> string \<Rightarrow> string \<Rightarrow> 'c manager \<Rightarrow>
     (goerr + route) \<times> 'c manager" where
  "ListenTo at now rid name tpc m =
     (let r = newRoute tpc name m 0 None
      in case SubscribeTo at now name tpc (RouteHandler rid) 0 m of
           (Some e, m1) \<Rightarrow> (Inl e, m1)
         | (None, m1) \<Rightarrow> (Inr r, m1))"

text \<open>The subscriptions of the advanced routes, in every connected session or in one; errors are ignored.\<close>

definition subscribe_if_connected ::
  "(nat \<Rightarrow> ('c, 'c mworld) attempt) \<Rightarrow> string \<Rightarrow> handler \<Rightarrow> byte \<Rightarrow> 'c mworld \<Rightarrow> goerr option \<times> 'c mworld" where
  "subscribe_if_connected at tpc h qos w =
     (if se_status (fst w) = stateConnected then (None, snd (Subscribe at tpc h qos w)) else (None, w))"

definition subscribe_config ::
  "(string \<Rightarrow> nat \<Rightarrow> ('c, 'c mworld) attempt) \<Rightarrow> string \<Rightarrow> route_config \<Rightarrow> 'c manager \<Rightarrow> 'c manager" where
  "subscribe_config at rid cfg m =
     snd (for_sessions (\<lambda>n. subscribe_if_connected (at n) (rc_topic cfg) (RouteHandler rid) (rc_qos cfg))
       (if rc_session cfg = [] then ListSessions m else [rc_session cfg]) m)"

definition HandleWithConfig ::
  "(string \<Rightarrow> nat \<Rightarrow> ('c, 'c mworld) attempt) \<Rightarrow> string \<Rightarrow> route_config \<Rightarrow> nat option \<Rightarrow> 'c manager \<Rightarrow>
     advanced_route \<times> 'c manager" where
  "HandleWithConfig at rid cfg f m = ((newAdvancedRoute cfg)\<lparr>rt_handler := f\<rparr>, subscribe_config at rid cfg m)"

definition ListenWithConfig ::
  "(string \<Rightarrow> nat \<Rightarrow> ('c, 'c mworld) attempt) \<Rightarrow> string \<Rightarrow> route_config \<Rightarrow> 'c manager \<Rightarrow>
     advanced_route \<times> 'c manager" where
  "ListenWithConfig at rid cfg m = (newAdvancedRoute cfg, subscribe_config at rid cfg m)"

definition subscribe_named ::
  "(nat \<Rightarrow> ('c, 'c mworld) attempt) \<Rightarrow> string \<Rightarrow> route_config \<Rightarrow> 'c manager \<Rightarrow> goerr option \<times> 'c manager" where
  "subscribe_named at rid cfg m =
     (case mget (mg_sessions m) (rc_session cfg) of
        None \<Rightarrow> (Some (Sentinel ErrSessionNotFound), m)
      | Some s \<Rightarrow>
          if se_status s \<noteq> stateConnected then (Some (Sentinel ErrNotConnected), m)
          else on_named (rc_session cfg) s (Subscribe at (rc_topic cfg) (RouteHandler rid) (rc_qos cfg)) m)"

definition HandleToWithConfig ::
  "(nat \<Rightarrow> ('c, 'c mworld) attempt) \<Rightarrow> string \<Rightarrow> route_config \<Rightarrow> 'c manager \<Rightarrow>
     (goerr + advanced_route) \<times> 'c manager" where
  "HandleToWithConfig at rid cfg m =
     (if rc_session cfg = [] then (Inl (Sentinel ErrSessionNotFound), m)
      else
        let r = (newAdvancedRoute cfg)\<lparr>rt_handler := rc_handler cfg\<rparr>
        in case subscribe_named at rid cfg m of
             (Some e, m1) \<Rightarrow> (Inl e, m1)
           | (None, m1) \<Rightarrow> (Inr r, m1))"

definition ListenToWithConfig ::
  "(nat \<Rightarrow> ('c, 'c mworld) attempt) \<Rightarrow> string \<Rightarrow> route_config \<Rightarrow> 'c manager \<Rightarrow>
     (goerr + advanced_route) \<times> 'c manager" where
  "ListenToWithConfig at rid cfg m =
     (if rc_session cfg = [] then (Inl (Sentinel ErrSessionNotFound), m)
      else
        case subscribe_named at rid cfg m of
          (Some e, m1) \<Rightarrow> (Inl e, m1)
        | (None, m1) \<Rightarrow> (Inr (newAdvancedRoute cfg), m1))"

end
