(* ===== verification/ManagerProps.thy ===== *)
theory ManagerProps
  imports Managers
begin

text \<open>
  Runs of a manager and its properties: the table and the counter of active sessions, adding and
  removing, publishing to all, waiting, and what recovery does.
\<close>

subsection \<open>Runs\<close>

text \<open>
  Everything that happens to a manager: calls of its operations, its recovery goroutines, and the
  client's callbacks and deliveries on one of its sessions (\<open>MSession\<close>).
\<close>

datatype 'c man_op =
    MAdd "'c add_env" options
  | MRemove "'c env" bool string
  | MPublishTo "nat \<Rightarrow> ('c, 'c mworld) attempt" int string string payload byte
  | MSubscribeTo "nat \<Rightarrow> ('c, 'c mworld) attempt" int string string handler byte
  | MUnsubscribeTo "'c env" "goerr option" string string
  | MPublishToAll "string \<Rightarrow> nat \<Rightarrow> ('c, 'c mworld) attempt" int string payload byte
  | MSubscribeAll "string \<Rightarrow> nat \<Rightarrow> ('c, 'c mworld) attempt" string handler byte
  | MUnsubscribeAll "'c env" "string \<Rightarrow> goerr option" string
  | MDisconnectAll "'c env" "string \<Rightarrow> bool"
  | MOnEvent string nat
  | MRegisterError string "goerr option" category int
  | MClearErrors
  | MSetMaxRetries category int
  | MRecover nat int
  | MSession string "('c, 'c mworld) sop"

fun man_step :: "'c manager \<Rightarrow> 'c man_op \<Rightarrow> 'c manager" where
  "man_step m (MAdd ae opts) = snd (AddSession ae opts m)"
| "man_step m (MRemove en connected name) = snd (RemoveSession en connected name m)"
| "man_step m (MPublishTo at now name tpc p qos) = snd (PublishTo at now name tpc p qos m)"
| "man_step m (MSubscribeTo at now name tpc f qos) = snd (SubscribeTo at now name tpc f qos m)"
| "man_step m (MUnsubscribeTo en answer name tpc) = snd (UnsubscribeTo en answer name tpc m)"
| "man_step m (MPublishToAll at now tpc p qos) = snd (PublishToAll at now tpc p qos m)"
| "man_step m (MSubscribeAll at tpc f qos) = snd (SubscribeAll at tpc f qos m)"
| "man_step m (MUnsubscribeAll en answer tpc) = snd (UnsubscribeAll en answer tpc m)"
| "man_step m (MDisconnectAll en connected) = DisconnectAll en connected m"
| "man_step m (MOnEvent ty hid) = OnEvent ty hid m"
| "man_step m (MRegisterError name err cat now) = hub_RegisterError name err cat now m"
| "man_step m MClearErrors = m\<lparr>hb_recovery := snd (ClearRecoveredErrors (hb_recovery m))\<rparr>"
| "man_step m (MSetMaxRetries cat n) = m\<lparr>hb_recovery := SetMaxRetries cat n (hb_recovery m)\<rparr>"
| "man_step m (MRecover r now) = snd (executeRecovery r now m)"
| "man_step m (MSession name x) =
     (case mget (mg_sessions m) name of None \<Rightarrow> m
      | Some s \<Rightarrow> snd (on_named name s (\<lambda>w. ((), sop_step w x)) m))"

text \<open>
  During the sleeps of a retry loop others may do anything that keeps the manager well formed and
  does not rename the session.
\<close>

fun man_rely :: "'c man_op \<Rightarrow> bool" where
  "man_rely (MPublishTo at now name tpc p qos) = keeps (member_inv name) at"
| "man_rely (MSubscribeTo at now name tpc f qos) = keeps (member_inv name) at"
| "man_rely (MPublishToAll at now tpc p qos) = (\<forall>n. keeps (member_inv n) (at n))"
| "man_rely (MSubscribeAll at tpc f qos) = (\<forall>n. keeps (member_inv n) (at n))"
| "man_rely (MSession name x) = op_rely (member_inv name) x"
| "man_rely _ = True"

lemma GetSession_Inr: "GetSession m name = Inr s \<longleftrightarrow> mget (mg_sessions m) name = Some s"
  by (simp add: GetSession_def split: option.split)

lemma executeRecovery_inv: "manager_inv m \<Longrightarrow> manager_inv (snd (executeRecovery r now m))"
  using executeRetry_inv [of "hb_recovery m" r]
  by (auto simp: executeRecovery_def executeNotify_def emit_hub_def Let_def manager_inv_def split: sum.split strategy.split prod.split)

lemma PublishTo_inv:
  assumes "manager_inv m" and "keeps (member_inv name) at"
  shows "manager_inv (snd (PublishTo at now name tpc p qos m))"
proof (cases "mget (mg_sessions m) name")
  case None
  with assms show ?thesis by (simp add: PublishTo_def GetSession_def)
next
  case (Some s)
  have "manager_inv (snd (on_named name s (Publish at tpc p qos) m))"
    by (rule on_named_inv [OF member_of_table [OF assms(1) Some]])
       (simp add: Publish_def obs_Publish_loop [OF member_obs_inv assms(2)])
  with Some show ?thesis
    by (auto simp: PublishTo_def GetSession_def hub_RegisterError_inv split: prod.split option.split)
qed

lemma SubscribeTo_inv:
  assumes "manager_inv m" and "keeps (member_inv name) at"
  shows "manager_inv (snd (SubscribeTo at now name tpc f qos m))"
proof (cases "mget (mg_sessions m) name")
  case None
  with assms show ?thesis by (simp add: SubscribeTo_def GetSession_def)
next
  case (Some s)
  have "manager_inv (snd (on_named name s (Subscribe at tpc f qos) m))"
    by (rule on_named_inv [OF member_of_table [OF assms(1) Some]])
       (simp add: obs_Subscribe [OF member_obs_inv assms(2)])
  with Some show ?thesis
    by (auto simp: SubscribeTo_def GetSession_def hub_RegisterError_inv split: prod.split option.split)
qed

lemma UnsubscribeTo_inv:
  assumes "manager_inv m"
  shows "manager_inv (snd (UnsubscribeTo en answer name tpc m))"
proof (cases "mget (mg_sessions m) name")
  case None
  with assms show ?thesis by (simp add: UnsubscribeTo_def)
next
  case (Some s)
  have "manager_inv (snd (on_named name s (Unsubscribe en answer [tpc]) m))"
    by (rule on_named_inv [OF member_of_table [OF assms Some]])
       (rule obs_Unsubscribe [OF member_obs_inv])
  with Some show ?thesis by (auto simp: UnsubscribeTo_def split: prod.split option.split)
qed

lemma all_ops_inv:
  assumes inv: "manager_inv m"
  shows "(\<forall>n. keeps (member_inv n) (at n)) \<Longrightarrow> manager_inv (snd (PublishToAll at now tpc p qos m))"
    and "(\<forall>n. keeps (member_inv n) (at n)) \<Longrightarrow> manager_inv (snd (SubscribeAll at tpc f qos m))"
    and "manager_inv (snd (UnsubscribeAll en answer tpc m))"
    and "manager_inv (DisconnectAll en connected m)"
proof -
  assume rely: "\<forall>n. keeps (member_inv n) (at n)"
  have pub: "manager_inv (snd (for_sessions (\<lambda>n. Publish (at n) tpc p qos) ns m))" for ns
    by (rule for_sessions_inv [OF inv])
       (simp add: Publish_def obs_Publish_loop [OF member_obs_inv rely [rule_format]])
  then show "manager_inv (snd (PublishToAll at now tpc p qos m))"
    by (auto simp: PublishToAll_def manager_inv_def case_prod_unfold)
  show "manager_inv (snd (SubscribeAll at tpc f qos m))" unfolding SubscribeAll_def
    by (rule for_sessions_inv [OF inv]) (simp add: obs_Subscribe [OF member_obs_inv rely [rule_format]])
next
  show "manager_inv (snd (UnsubscribeAll en answer tpc m))" unfolding UnsubscribeAll_def
    by (rule for_sessions_inv [OF inv]) (rule obs_Unsubscribe [OF member_obs_inv])
  show "manager_inv (DisconnectAll en connected m)" unfolding DisconnectAll_def
    by (rule for_sessions_inv [OF inv]) (simp add: obs_Disconnect [OF member_obs_inv])
qed

lemma session_step_inv:
  assumes "manager_inv m" and "op_rely (member_inv name) x"
  shows "manager_inv (man_step m (MSession name x))"
proof (cases "mget (mg_sessions m) name")
  case None
  with assms show ?thesis by simp
next
  case (Some s)
  have "manager_inv (snd (on_named name s (\<lambda>w. ((), sop_step w x)) m))"
    by (rule on_named_inv [OF member_of_table [OF assms(1) Some]])
       (simp add: sop_step_inv [OF member_obs_inv _ assms(2)])
  with Some show ?thesis by simp
qed

lemma man_step_inv:
  assumes "manager_inv m" and "man_rely x"
  shows "manager_inv (man_step m x)"
proof (cases x)
  case (MOnEvent ty hid)
  with assms show ?thesis by (simp add: OnEvent_def manager_inv_def)
next
  case MClearErrors
  with assms show ?thesis by (simp add: manager_inv_def ClearRecovered_inv)
next
  case (MSetMaxRetries cat n)
  with assms show ?thesis by (simp add: manager_inv_def SetMaxRetries_inv)
next
  case (MSession name y)
  with assms session_step_inv show ?thesis by (simp only: man_rely.simps)
qed (use assms in \<open>simp_all add: AddSession_inv RemoveSession_inv PublishTo_inv SubscribeTo_inv
      UnsubscribeTo_inv all_ops_inv hub_RegisterError_inv executeRecovery_inv\<close>)

lemma man_run_inv:
  "manager_inv m \<Longrightarrow> list_all man_rely xs \<Longrightarrow> manager_inv (foldl man_step m xs)"
  by (induction xs arbitrary: m) (simp_all add: man_step_inv del: man_step.simps)

subsection \<open>Publishing to all\<close>

text \<open>The error of one session when nothing interferes.\<close>

definition publish_error :: "(nat \<Rightarrow> ('c, 'w) attempt) \<Rightarrow> session \<Rightarrow> goerr option" where
  "publish_error at s =
     (if \<not> IsConnected s then Some (Sentinel ErrNotConnected)
      else if length (failures at) < 3 then None else last (failures at))"

lemma Publish_calm:
  assumes "calm at"
  shows "fst (Publish at tpc p qos w) = publish_error at (fst w) \<and> snd (snd (Publish at tpc p qos w)) = snd w"
proof (cases "IsConnected (fst w)")
  case True
  from Publish_online [OF assms True refl, of tpc p qos] show ?thesis
    by (simp add: publish_error_def True)
next
  case False
  then show ?thesis by (simp add: Publish_offline [OF assms False] publish_error_def)
qed

lemma mput_other: "n' \<noteq> n \<Longrightarrow> mget (mput n s M) n' = mget M n'"
  by simp

lemma for_sessions_publish:
  assumes "\<And>n. calm (at n)"
  shows "distinct ns \<Longrightarrow> (\<And>n. n \<in> set ns \<Longrightarrow> mget (mg_sessions m) n = Some (S n)) \<Longrightarrow>
     fst (for_sessions (\<lambda>n. Publish (at n) tpc p qos) ns m) =
       concat (map (\<lambda>n. case publish_error (at n) (S n) of None \<Rightarrow> [] | Some e \<Rightarrow> [newSessionError n e]) ns)
     \<and> hb_metrics (snd (for_sessions (\<lambda>n. Publish (at n) tpc p qos) ns m)) = hb_metrics m"
proof (induction ns arbitrary: m)
  case Nil
  then show ?case by simp
next
  case (Cons n ns)
  obtain r s' m' where pub: "Publish (at n) tpc p qos (S n, m) = (r, (s', m'))" by (metis prod.exhaust)
  with Publish_calm [OF assms, of n tpc p qos "(S n, m)"]
  have r: "r = publish_error (at n) (S n)" and m': "m' = m" by simp_all
  have look: "mget (mg_sessions m) n = Some (S n)" using Cons.prems(2) by simp
  let ?m1 = "put_back n s' m"
  have "mget (mg_sessions ?m1) k = Some (S k)" if "k \<in> set ns" for k
    using that Cons.prems look by (auto simp: put_back_def)
  with Cons.IH [of ?m1] Cons.prems(1)
  have IH: "fst (for_sessions (\<lambda>n. Publish (at n) tpc p qos) ns ?m1) =
       concat (map (\<lambda>n. case publish_error (at n) (S n) of None \<Rightarrow> [] | Some e \<Rightarrow> [newSessionError n e]) ns)"
    "hb_metrics (snd (for_sessions (\<lambda>n. Publish (at n) tpc p qos) ns ?m1)) = hb_metrics ?m1"
    by simp_all
  have "hb_metrics ?m1 = hb_metrics m" by (simp add: put_back_def)
  with IH look pub r m' show ?case
    by (auto simp: on_named_def case_prod_unfold split: option.split)
qed

subsection \<open>Properties\<close>

text \<open>
  C2. After any run of a new manager, with any interference that keeps it well formed, the session
  table has distinct names, each the name of its session, the counter of active sessions is the
  number of sessions in the table, and the error table is consistent and within its limit.
\<close>

theorem active_sessions_is_table_size:
  assumes "list_all man_rely xs"
  shows "manager_inv (foldl man_step (NewSessionManager now fs c) xs)"
  using assms by (intro man_run_inv NewSessionManager_inv)

definition sample_add :: "goerr option \<Rightarrow> mock_redis add_env" where
  "sample_add answer =
     \<lparr>ad_env = sample_env, ad_mkdir = None, ad_ping = None, ad_tls = (\<lambda>_. Inr None),
      ad_etls = (\<lambda>_. Inr False), ad_watch = None, ad_answer = answer\<rparr>"

theorem active_sessions_is_table_size_witness:
  "manager_inv (foldl man_step (NewSessionManager 0 [] NewMockRedisClient)
     [MAdd (sample_add None) (DefaultOptions (replicate 8 0)),
      MPublishToAll (\<lambda>n. answers []) 5 ''t'' ''x'' 0, MRemove sample_env True ''default''])"
  by (rule active_sessions_is_table_size) (simp add: keeps_def answers_def)



text \<open>
  Removing a session takes it, and only it, out of the table; the name can then be added again.
  Removing an unknown name is an error without any change.
\<close>

theorem RemoveSession_outcome:
  assumes "manager_inv m"
  shows "case RemoveSession en connected name m of
      (Some e, m') \<Rightarrow> e = Sentinel ErrSessionNotFound \<and> m' = m \<and> mget (mg_sessions m) name = None
    | (None, m') \<Rightarrow> (\<exists>s. GetSession m name = Inr s)
        \<and> GetSession m' name = Inl (Sentinel ErrSessionNotFound)
        \<and> (\<forall>n. n \<noteq> name \<longrightarrow> GetSession m' n = GetSession m n)"
proof (cases "mget (mg_sessions m) name")
  case None
  then show ?thesis by (simp add: RemoveSession_def)
next
  case (Some s)
  have "table_is (mg_sessions m) (Disconnect en connected (s, m))"
    by (rule obs_Disconnect [OF table_obs_inv]) (simp add: table_is_def)
  with Some show ?thesis by (simp add: RemoveSession_def Let_def table_is_def GetSession_def)
qed

theorem RemoveSession_outcome_witness:
  "fst (RemoveSession sample_env True ''nobody'' (NewSessionManager 0 [] NewMockRedisClient))
     = Some (Sentinel ErrSessionNotFound)"
  using RemoveSession_outcome [where m = "NewSessionManager 0 [] NewMockRedisClient" and en = sample_env
      and connected = True and name = "''nobody''", OF NewSessionManager_inv]
  by (auto simp: RemoveSession_def NewSessionManager_def)



text \<open>
  A wake-up can be lost: when the session connects after the check and before the handler of
  \<open>WaitForSession\<close> is registered, and nothing more happens, the wait ends with the time-out
  error although the session is connected.
\<close>

theorem WaitForSession_lost_wakeup:
  assumes "GetSession m name = Inr s" and "\<not> IsConnected s"
  shows "fst (WaitForSession before id hid now name m) =
      Some (WithSession name (NewConnectionError ''timeout waiting for session to connect''
              (Some (Sentinel ErrTimeout)) now))"
  using assms by (simp add: WaitForSession_def told_connected_def Let_def)

text \<open>The sample session in a manager of its own.\<close>

definition sample_manager :: "mock_redis manager" where
  "sample_manager = (NewSessionManager 0 [] NewMockRedisClient)\<lparr>mg_sessions := [(''s'', sample_session)]\<rparr>"

lemma sample_GetSession: "GetSession sample_manager ''s'' = Inr sample_session"
  by (simp add: sample_manager_def GetSession_def)

lemma sample_connects:
  "\<exists>s. GetSession (man_step sample_manager (MSession ''s'' (SConnect 1 None))) ''s'' = Inr s \<and> IsConnected s"
proof -
  obtain s' m' where c: "connect 1 None (sample_session, sample_manager) = (s', m')" by (rule prod.exhaust)
  have conn: "se_status s' = stateConnected"
    using arg_cong [OF c, of fst] by (auto simp: connect_def Let_def)
  have "table_is (mg_sessions sample_manager) (connect 1 None (sample_session, sample_manager))"
    by (rule obs_connect [OF table_obs_inv]) (simp add: table_is_def)
  with c have "mg_sessions m' = [(''s'', sample_session)]" by (simp add: table_is_def sample_manager_def)
  with c conn show ?thesis
    by (simp add: sample_manager_def on_named_def put_back_def GetSession_def IsConnected_def)
qed

text \<open>Nothing is told while there are no handlers.\<close>

lemma sample_connect_silent:
  "hb_events (man_step sample_manager (MSession ''s'' (SConnect 1 None))) = newEventManager"
proof -
  have "hb_events (snd (connect 1 None (sample_session, sample_manager))) = newEventManager"
    by (simp add: connect_def setState_def session_event_def emit_hub_def emit_def on_session_def Let_def
        sample_manager_def NewSessionManager_def newEventManager_def)
  then show ?thesis by (simp add: sample_manager_def on_named_def put_back_def case_prod_unfold)
qed

theorem WaitForSession_lost_wakeup_witness:
  "fst (WaitForSession (\<lambda>m. man_step m (MSession ''s'' (SConnect 1 None))) id 3 9 ''s'' sample_manager) \<noteq> None
   \<and> (\<exists>s. GetSession (man_step sample_manager (MSession ''s'' (SConnect 1 None))) ''s'' = Inr s \<and> IsConnected s)"
proof -
  have off: "\<not> IsConnected sample_session" by (simp add: IsConnected_def state_defs)
  have "fst (WaitForSession before id 3 9 ''s'' sample_manager) \<noteq> None" for before
    using WaitForSession_lost_wakeup [OF sample_GetSession off, of before 3 9] by simp
  with sample_connects show ?thesis by blast
qed

text \<open>
  The recovery of a registered error does not act on any session and resolves nothing: it leaves
  the session table and the error table's entries as they are, at most raising the retry count of
  the one error, and never marks an error recovered. The handlers of error notifications are told
  exactly when the session exists and the strategy is to notify.
\<close>

theorem executeRecovery_effect:
  defines "info \<equiv> \<lambda>r m. obj (hb_recovery m) r"
  shows "mg_sessions (snd (executeRecovery r now m)) = mg_sessions m
   \<and> rc_errors (hb_recovery (snd (executeRecovery r now m))) = rc_errors (hb_recovery m)
   \<and> (\<forall>q. obj (hb_recovery (snd (executeRecovery r now m))) q = obj (hb_recovery m) q
        \<or> (q = r \<and> obj (hb_recovery (snd (executeRecovery r now m))) q
             = (info r m)\<lparr>ei_retry := ei_retry (info r m) + 1\<rparr>))
   \<and> (\<exists>e. ev_type e = ''error_notification'' \<and> ev_session e = ei_session (info r m)
        \<and> ev_calls (hb_events (snd (executeRecovery r now m))) = ev_calls (hb_events m) @
            (if mget (mg_sessions m) (ei_session (info r m)) \<noteq> None \<and> ei_strategy (info r m) = StrategyNotify
             then map (\<lambda>h. (h, e)) (handlers_of (hb_events m) ''error_notification'') else []))"
proof -
  let ?m = "snd (executeRecovery r now m)" and ?i = "info r m"
  let ?e = "\<lparr>ev_type = ''error_notification'', ev_session = ei_session ?i,
       ev_data = MapData
         [(''error'', FString (err_text (ei_error ?i))), (''category'', FString (ei_category ?i)),
          (''severity'', FString (ei_severity ?i)), (''time'', FTime (ei_time ?i)),
          (''retry_count'', FInt (ei_retry ?i))], ev_time = now\<rparr>"
  have "mg_sessions ?m = mg_sessions m \<and> rc_errors (hb_recovery ?m) = rc_errors (hb_recovery m)
      \<and> (\<forall>q. obj (hb_recovery ?m) q = obj (hb_recovery m) q
        \<or> (q = r \<and> obj (hb_recovery ?m) q = ?i\<lparr>ei_retry := ei_retry ?i + 1\<rparr>))"
    by (auto simp: info_def executeRecovery_def executeNotify_def emit_hub_def executeRetry_def Let_def
        split: sum.split strategy.split if_splits)
  moreover have "ev_calls (hb_events ?m) = ev_calls (hb_events m) @
      (if mget (mg_sessions m) (ei_session ?i) \<noteq> None \<and> ei_strategy ?i = StrategyNotify
       then map (\<lambda>h. (h, ?e)) (handlers_of (hb_events m) ''error_notification'') else [])"
    by (auto simp: info_def executeRecovery_def executeNotify_def emit_hub_def executeRetry_def Let_def
        GetSession_def split: sum.splits strategy.split if_splits option.splits)
  ultimately show ?thesis by (intro conjI exI [of _ ?e]) simp_all
qed

end
