(* ===== verification/RouteProps.thy ===== *)
theory RouteProps
  imports Routes ManagerProps
begin

text \<open>
  Properties of routes: what reaches the user's function or the channel is the pipeline of filters
  and transformers applied to the messages in order, and how \<open>Stop\<close> meets a delivery.
\<close>

subsection \<open>The pipeline\<close>

text \<open>
  The specification of a route's filters and transformers: an AND filter and a composite
  transformer of their own.
\<close>

definition pipeline :: "json_codec \<Rightarrow> msg_filter list \<Rightarrow> transformer list \<Rightarrow> message \<Rightarrow> message option outcome" where
  "pipeline c fs ts msg =
     (if filter_Match (NewAndFilter fs) (Some msg) then transform c (CompositeTransformer [] ts) (Some msg)
      else Done None)"

lemma transform_loop_all: "transform_loop c ts msg = transform_all c ts (Some msg)"
  by (induction ts arbitrary: msg) (auto split: outcome.split option.split)

lemma finish_by_pipeline:
  "finish_message c now2 msg r =
     (case pipeline c (rt_filters r) (rt_transformers r) msg of
        Panic \<Rightarrow> (True, r)
      | Fail e \<Rightarrow>
          (False, r\<lparr>rt_stats := (rt_stats r)\<lparr>rs_last_error := now2, rs_errors := rs_errors (rt_stats r) + 1\<rparr>\<rparr>)
      | Done None \<Rightarrow> (False, r)
      | Done (Some msg') \<Rightarrow>
          if rt_handler r \<noteq> None then call_handler (rt_handler r) msg' r else offer_message msg' r)"
  by (simp add: finish_message_def filterMessage_def transformMessage_def pipeline_def
      NewAndFilter_def transform_loop_all)

text \<open>A plain listening route is an advanced one without filters and transformers.\<close>

lemma plain_is_advanced:
  "rt_filters r = [] \<Longrightarrow> rt_transformers r = [] \<Longrightarrow> rt_handler r = None \<Longrightarrow>
     processMessage c now now2 tpc p r = listen_function now tpc p r"
  "rt_filters r = [] \<Longrightarrow> rt_transformers r = [] \<Longrightarrow> rt_handler r \<noteq> None \<Longrightarrow>
     processMessage c now now2 tpc p r = handle_function now tpc p r"
  by (simp_all add: processMessage_def finish_message_def filterMessage_def transformMessage_def
      listen_function_def handle_function_def count_message_def)

subsection \<open>Arrivals\<close>

type_synonym arrival = "int \<times> int \<times> string \<times> payload option"

fun arrive :: "json_codec \<Rightarrow> advanced_route \<Rightarrow> arrival \<Rightarrow> advanced_route" where
  "arrive c r (now, now2, tpc, p) = snd (processMessage c now now2 tpc p r)"

fun arrived :: "advanced_route \<Rightarrow> arrival \<Rightarrow> message" where
  "arrived r (now, now2, tpc, p) = route_message now tpc p r"

definition results :: "json_codec \<Rightarrow> advanced_route \<Rightarrow> arrival list \<Rightarrow> message option outcome list" where
  "results c r ds = map (\<lambda>d. pipeline c (rt_filters r) (rt_transformers r) (arrived r d)) ds"

text \<open>The messages that come out of the pipeline, and the number of its errors.\<close>

definition outputs :: "message option outcome list \<Rightarrow> message list" where
  "outputs os = concat (map (\<lambda>x. case x of Done (Some msg) \<Rightarrow> [msg] | _ \<Rightarrow> []) os)"

definition error_count :: "message option outcome list \<Rightarrow> nat" where
  "error_count os = length (filter (\<lambda>x. case x of Fail e \<Rightarrow> True | _ \<Rightarrow> False) os)"

text \<open>What a route passes its messages through and to; only \<open>Stop\<close> and the user change it.\<close>

definition same_setup :: "advanced_route \<Rightarrow> advanced_route \<Rightarrow> bool" where
  "same_setup r r' \<longleftrightarrow>
     rt_filters r' = rt_filters r \<and> rt_transformers r' = rt_transformers r \<and> rt_qos r' = rt_qos r
     \<and> rt_handler r' = rt_handler r \<and> rt_done r' = rt_done r \<and> rt_closed r' = rt_closed r
     \<and> rt_room r' = rt_room r"

lemma arrive_setup: "same_setup r (arrive c r d)"
  by (cases d)
    (auto simp: same_setup_def processMessage_def finish_by_pipeline call_handler_def offer_message_def
      count_message_def split: outcome.split option.split)

lemma results_setup: "same_setup r r' \<Longrightarrow> results c r' ds = results c r ds"
  by (auto simp: results_def same_setup_def route_message_def)

lemma arrive_open:
  assumes "\<not> rt_done r"
  shows "rs_received (rt_stats (arrive c r d)) = rs_received (rt_stats r) + 1
    \<and> rs_errors (rt_stats (arrive c r d)) = rs_errors (rt_stats r)
        + of_nat (error_count (results c r [d]))"
  using assms
  by (cases d)
    (auto simp: processMessage_def finish_by_pipeline call_handler_def offer_message_def results_def
      error_count_def count_message_def route_message_def split: outcome.split option.split)

lemma arrive_handler:
  assumes "\<not> rt_done r" and "rt_handler r = Some g"
  shows "rt_handled (arrive c r d) = rt_handled r @ map (Pair g) (outputs (results c r [d]))
    \<and> rt_chan (arrive c r d) = rt_chan r \<and> rs_dropped (rt_stats (arrive c r d)) = rs_dropped (rt_stats r)"
  using assms
  by (cases d)
    (auto simp: processMessage_def finish_by_pipeline call_handler_def results_def
      outputs_def count_message_def route_message_def split: outcome.split option.split)

lemma arrive_channel:
  assumes "\<not> rt_done r" and "\<not> rt_closed r" and "rt_handler r = None"
    and "length (rt_chan r) \<le> rt_room r"
  shows "rt_handled (arrive c r d) = rt_handled r
    \<and> rt_chan (arrive c r d) = rt_chan r @ take (rt_room r - length (rt_chan r)) (outputs (results c r [d]))
    \<and> rs_dropped (rt_stats (arrive c r d)) = rs_dropped (rt_stats r)
        + of_nat (length (outputs (results c r [d])) - (rt_room r - length (rt_chan r)))"
  using assms
  by (cases d)
    (auto simp: processMessage_def finish_by_pipeline offer_message_def results_def outputs_def
      count_message_def route_message_def split: outcome.split option.split)

lemma results_Cons: "results c r (d # ds) = results c r [d] @ results c r ds"
  by (simp add: results_def)

lemma outputs_append: "outputs (xs @ ys) = outputs xs @ outputs ys"
  by (simp add: outputs_def)

lemma error_count_append: "error_count (xs @ ys) = error_count xs + error_count ys"
  by (simp add: error_count_def)

lemma length_outputs_1: "length (outputs (results c r [d])) \<le> 1"
  by (cases d) (simp add: outputs_def results_def split: outcome.split option.split)

text \<open>A whole run of arrivals.\<close>

lemma run_setup: "same_setup r (foldl (arrive c) r ds)"
proof (induction ds arbitrary: r)
  case Nil
  then show ?case by (simp add: same_setup_def)
next
  case (Cons d ds)
  from arrive_setup [of r c d] Cons.IH [of "arrive c r d"] show ?case by (simp add: same_setup_def)
qed

lemma run_counts:
  "\<not> rt_done r \<Longrightarrow>
     rs_received (rt_stats (foldl (arrive c) r ds)) = rs_received (rt_stats r) + of_nat (length ds)
     \<and> rs_errors (rt_stats (foldl (arrive c) r ds)) = rs_errors (rt_stats r)
         + of_nat (error_count (results c r ds))"
proof (induction ds arbitrary: r)
  case Nil
  then show ?case by (simp add: error_count_def results_def)
next
  case (Cons d ds)
  note st = arrive_setup [of r c d]
  from st Cons.prems have open': "\<not> rt_done (arrive c r d)" by (simp add: same_setup_def)
  have res: "results c r (d # ds) = results c r [d] @ results c (arrive c r d) ds"
    by (simp add: results_Cons [of c r d ds] results_setup [OF st])
  from Cons.IH [OF open'] arrive_open [OF Cons.prems, of c d] show ?case
    by (simp add: res error_count_append)
qed

lemma run_handler:
  "\<not> rt_done r \<Longrightarrow> rt_handler r = Some g \<Longrightarrow>
     rt_handled (foldl (arrive c) r ds) = rt_handled r @ map (Pair g) (outputs (results c r ds))
     \<and> rt_chan (foldl (arrive c) r ds) = rt_chan r
     \<and> rs_dropped (rt_stats (foldl (arrive c) r ds)) = rs_dropped (rt_stats r)"
proof (induction ds arbitrary: r)
  case Nil
  then show ?case by (simp add: outputs_def results_def)
next
  case (Cons d ds)
  note st = arrive_setup [of r c d]
  from st Cons.prems have next': "\<not> rt_done (arrive c r d)" "rt_handler (arrive c r d) = Some g"
    by (simp_all add: same_setup_def)
  have res: "results c r (d # ds) = results c r [d] @ results c (arrive c r d) ds"
    by (simp add: results_Cons [of c r d ds] results_setup [OF st])
  from Cons.IH [OF next'] arrive_handler [OF Cons.prems, of c d] show ?case
    by (simp add: res outputs_append)
qed

lemma run_channel:
  "\<not> rt_done r \<Longrightarrow> \<not> rt_closed r \<Longrightarrow> rt_handler r = None \<Longrightarrow> length (rt_chan r) \<le> rt_room r \<Longrightarrow>
     rt_handled (foldl (arrive c) r ds) = rt_handled r
     \<and> rt_chan (foldl (arrive c) r ds)
         = rt_chan r @ take (rt_room r - length (rt_chan r)) (outputs (results c r ds))
     \<and> rs_dropped (rt_stats (foldl (arrive c) r ds)) = rs_dropped (rt_stats r)
         + of_nat (length (outputs (results c r ds)) - (rt_room r - length (rt_chan r)))"
proof (induction ds arbitrary: r)
  case Nil
  then show ?case by (simp add: outputs_def results_def)
next
  case (Cons d ds)
  let ?o = "outputs (results c r [d])" and ?os = "outputs (results c (arrive c r d) ds)"
  let ?k = "rt_room r - length (rt_chan r)"
  note st = arrive_setup [of r c d] and one = arrive_channel [OF Cons.prems, of c d]
  from one Cons.prems(4) have fits: "length (rt_chan (arrive c r d)) \<le> rt_room (arrive c r d)"
    using st by (simp add: same_setup_def)
  from st Cons.prems have next': "\<not> rt_done (arrive c r d)" "\<not> rt_closed (arrive c r d)"
    "rt_handler (arrive c r d) = None" "rt_room (arrive c r d) = rt_room r"
    by (simp_all add: same_setup_def)
  have res: "outputs (results c r (d # ds)) = ?o @ ?os"
    by (simp add: results_Cons [of c r d ds] results_setup [OF st] outputs_append)
  have left: "rt_room (arrive c r d) - length (rt_chan (arrive c r d)) = ?k - length ?o"
    using one next'(4) by auto
  have drop: "(length ?o - ?k) + (length ?os - (?k - length ?o)) = length (?o @ ?os) - ?k" by auto
  from Cons.IH [OF next'(1-3) fits] one show ?case
    unfolding left res drop [symmetric] by (simp add: of_nat_add)
qed

subsection \<open>Properties\<close>

text \<open>
  C7. An advanced route that is not stopped hands on exactly what its pipeline lets through: over any
  sequence of arrivals, the messages given to the user's function are, in order, the outputs of
  the AND filter followed by the composite transformer; without a function they fill the channel up
  to its capacity and the rest is counted as dropped. Every arrival is counted, and every
  transformer error once.
\<close>

theorem route_runs_the_pipeline:
  assumes "\<not> rt_done r" and "\<not> rt_closed r" and "length (rt_chan r) \<le> rt_room r"
  shows "let r' = foldl (arrive c) r ds; msgs = outputs (results c r ds);
             room = rt_room r - length (rt_chan r)
         in rs_received (rt_stats r') = rs_received (rt_stats r) + of_nat (length ds)
          \<and> rs_errors (rt_stats r') = rs_errors (rt_stats r) + of_nat (error_count (results c r ds))
          \<and> (case rt_handler r of
                Some g \<Rightarrow> rt_handled r' = rt_handled r @ map (Pair g) msgs \<and> rt_chan r' = rt_chan r
              | None \<Rightarrow> rt_chan r' = rt_chan r @ take room msgs
                  \<and> rs_dropped (rt_stats r') = rs_dropped (rt_stats r) + of_nat (length msgs - room))"
  using run_counts [OF assms(1), of c ds] run_handler [OF assms(1), of _ c ds]
    run_channel [OF assms(1,2) _ assms(3), of c ds]
  by (simp add: Let_def split: option.split)

definition sample_route_config :: route_config where
  "sample_route_config =
     \<lparr>rc_topic = ''a/#'', rc_qos = 1, rc_filters = [TopicFilter ''a/+'' None], rc_transformers = [],
      rc_buffer = 1, rc_session = ''s'', rc_handler = None\<rparr>"

text \<open>The topics that match go to a channel with one place; the second match is dropped.\<close>

theorem route_runs_the_pipeline_witness:
  "\<forall>c. let r' = foldl (arrive c) (newAdvancedRoute sample_route_config)
        [(1, 1, ''a/b'', Some ''x''), (2, 2, ''c'', None), (3, 3, ''a/c'', Some ''y'')]
   in rs_received (rt_stats r') = 3 \<and> rs_dropped (rt_stats r') = 1
      \<and> map m_topic (rt_chan r') = [''a/b'']"
proof (rule allI)
  fix c :: json_codec
  let ?ds = "[(1, 1, ''a/b'', Some ''x''), (2, 2, ''c'', None), (3, 3, ''a/c'', Some ''y'')]"
  let ?r = "newAdvancedRoute sample_route_config"
  have m: "TopicMatch ''a/+'' ''a/b''" "\<not> TopicMatch ''a/+'' ''c''" "TopicMatch ''a/+'' ''a/c''"
    by code_simp+
  have out: "outputs (results c ?r ?ds)
      = [route_message 1 ''a/b'' (Some ''x'') ?r, route_message 3 ''a/c'' (Some ''y'') ?r]"
    using m by (simp add: outputs_def results_def pipeline_def NewAndFilter_def TopicFilter_Match_def
        route_message_def newAdvancedRoute_def sample_route_config_def)
  from route_runs_the_pipeline [of ?r c ?ds]
  show "let r' = foldl (arrive c) ?r ?ds
    in rs_received (rt_stats r') = 3 \<and> rs_dropped (rt_stats r') = 1
       \<and> map m_topic (rt_chan r') = [''a/b'']"
    unfolding out
    by (simp add: newAdvancedRoute_def sample_route_config_def zero_stats_def route_message_def Let_def)
qed

text \<open>
  C35. \<open>Stop\<close> races with a delivery. A delivery to a channel route that has passed the test of
  \<open>done\<close> panics with a send on a closed channel when \<open>Stop\<close> comes before its send, and
  never panics there otherwise. Deliveries that start after \<open>Stop\<close> do nothing, and a second
  \<open>Stop\<close> changes neither the route nor the manager.
\<close>

theorem Stop_races_with_delivery:
  assumes "rt_managed r" and "\<not> rt_once r" and "\<not> rt_closed r" and "rt_handler r = None"
    and "pipeline c (rt_filters r) (rt_transformers r) msg = Done (Some msg')"
    and "route_Stop en answer (Some r) m = (Some r', m')"
  shows "fst (finish_message c now msg r') \<and> \<not> fst (finish_message c now msg r)
    \<and> processMessage c now now2 tpc p r' = (False, r')
    \<and> route_Stop en answer (Some r') m' = (Some r', m')"
proof -
  from assms(1,2,6) have r': "r' = r\<lparr>rt_once := True, rt_done := True, rt_closed := True\<rparr>"
    by (auto simp: route_Stop_def)
  then show ?thesis
    using assms(3-5) by (simp add: finish_by_pipeline offer_message_def processMessage_def route_Stop_def)
qed

theorem Stop_races_with_delivery_witness:
  "\<forall>c. \<exists>r' m'. route_Stop sample_env (\<lambda>n. None) (Some (newAdvancedRoute (sample_route_config\<lparr>rc_filters := []\<rparr>)))
       (NewSessionManager 0 [] NewMockRedisClient) = (Some r', m')
     \<and> fst (finish_message c 5 (route_message 4 ''t'' None r') r')"
proof (rule allI)
  fix c :: json_codec
  let ?r = "newAdvancedRoute (sample_route_config\<lparr>rc_filters := []\<rparr>)"
  let ?msg = "route_message 4 ''t'' None ?r"
  obtain r' m' where st: "route_Stop sample_env (\<lambda>n. None) (Some ?r)
      (NewSessionManager 0 [] NewMockRedisClient) = (Some r', m')"
    by (simp add: route_Stop_def newAdvancedRoute_def)
  have r: "rt_managed ?r" "\<not> rt_once ?r" "\<not> rt_closed ?r" "rt_handler ?r = None"
    by (simp_all add: newAdvancedRoute_def sample_route_config_def)
  have out: "pipeline c (rt_filters ?r) (rt_transformers ?r) ?msg = Done (Some ?msg)"
    by (simp add: pipeline_def NewAndFilter_def newAdvancedRoute_def sample_route_config_def)
  have "route_message 4 ''t'' None r' = ?msg"
    using st by (auto simp: route_Stop_def newAdvancedRoute_def route_message_def)
  with Stop_races_with_delivery [OF r out st, of 5] st
  show "\<exists>r' m'. route_Stop sample_env (\<lambda>n. None) (Some ?r) (NewSessionManager 0 [] NewMockRedisClient)
      = (Some r', m') \<and> fst (finish_message c 5 (route_message 4 ''t'' None r') r')" by metis
qed

end
