(* ===== verification/Forwarders.thy ===== *)
theory Forwarders
  imports Managers
begin

text \<open>
  Message forwarding (\<open>forwarder.go\<close>): a forwarder subscribes to topics of a source session,
  queues what arrives in a bounded channel, and a worker goroutine publishes it to a target
  session. The last part is the step relation of a forwarder with its handler calls and workers
  in flight, and the registry of forwarders by name.

  Times, pool objects and topics are values: a pooled message is what its fields hold between
  \<open>GetMessage\<close> and \<open>PutMessage\<close>.
\<close>

subsection \<open>State\<close>

record forwarder_config =
  fc_name :: string
  fc_source :: string
  fc_topics :: "string list"
  fc_target :: string
  fc_map :: "(string, string) gomap option"
  fc_qos :: byte
  fc_buffer :: int
  fc_enabled :: bool

record pooled =
  pm_topic :: string
  pm_payload :: payload
  pm_qos :: byte
  pm_retained :: bool
  pm_time :: int

text \<open>
  \<open>fw_queue\<close> is the content of \<open>messageCh\<close> and \<open>fw_room\<close> its capacity; \<open>fw_closed\<close> is
  whether \<open>stopCh\<close> is closed and \<open>fw_once\<close> whether \<open>stopOnce\<close> has run.
\<close>

record forwarder =
  fw_config :: forwarder_config
  fw_queue :: "pooled list"
  fw_room :: nat
  fw_closed :: bool
  fw_running :: bool
  fw_received :: u64
  fw_sent :: u64
  fw_dropped :: u64
  fw_last_sent :: int
  fw_last_error :: int
  fw_once :: bool
  fw_stopped :: bool

text \<open>The texts of the errors, in the language of the code.\<close>

definition no_source_text :: string where
  "no_source_text = utf8 [230, 186, 144, 228, 188, 154, 232, 175, 157, 228, 184, 141, 232, 131, 189,
    228, 184, 186, 231, 169, 186]"

definition no_topics_text :: string where
  "no_topics_text = utf8 [230, 186, 144, 228, 184, 187, 233, 162, 152, 229, 136, 151, 232, 161, 168,
    228, 184, 141, 232, 131, 189, 228, 184, 186, 231, 169, 186]"

definition no_target_text :: string where
  "no_target_text = utf8 [231, 155, 174, 230, 160, 135, 228, 188, 154, 232, 175, 157, 228, 184, 141,
    232, 131, 189, 228, 184, 186, 231, 169, 186]"

definition started_text :: string where
  "started_text = utf8 [232, 189, 172, 229, 143, 145, 229, 153, 168, 229, 183, 178, 229, 144, 175,
    229, 138, 168]"

definition source_text :: string where
  "source_text = utf8 [230, 151, 160, 230, 179, 149, 232, 142, 183, 229, 143, 150, 230, 186, 144,
    228, 188, 154, 232, 175, 157, 58, 32]"

definition subscribe_text :: "string \<Rightarrow> string" where
  "subscribe_text tpc = utf8 [232, 174, 162, 233, 152, 133, 228, 184, 187, 233, 162, 152, 32] @ tpc
    @ utf8 [32, 229, 164, 177, 232, 180, 165, 58, 32]"

definition name_taken_text :: "string \<Rightarrow> string" where
  "name_taken_text n = utf8 [232, 189, 172, 229, 143, 145, 229, 153, 168, 229, 144, 141, 231, 167,
    176, 32, 39] @ n @ utf8 [39, 32, 229, 183, 178, 229, 173, 152, 229, 156, 168]"

definition no_forwarder_text :: "string \<Rightarrow> string" where
  "no_forwarder_text n = utf8 [232, 189, 172, 229, 143, 145, 229, 153, 168, 32, 39] @ n @ utf8 [39,
    32, 228, 184, 141, 229, 173, 152, 229, 156, 168]"

subsection \<open>Operations\<close>

definition NewForwarder :: "forwarder_config \<Rightarrow> goerr + forwarder" where
  "NewForwarder cfg =
     (if fc_source cfg = [] then Inl (NewErr no_source_text)
      else if length (fc_topics cfg) = 0 then Inl (NewErr no_topics_text)
      else if fc_target cfg = [] then Inl (NewErr no_target_text)
      else
        let bufferSize = (if fc_buffer cfg > 0 then fc_buffer cfg else 100)
        in Inr \<lparr>fw_config = cfg, fw_queue = [], fw_room = nat bufferSize, fw_closed = False,
                fw_running = False, fw_received = 0, fw_sent = 0, fw_dropped = 0,
                fw_last_sent = zero_time, fw_last_error = zero_time, fw_once = False,
                fw_stopped = False\<rparr>)"

text \<open>The subscriptions of \<open>Start\<close>, in the order of the configuration, up to the first failure.\<close>

fun subscribe_sources ::
  "nat \<Rightarrow> (nat \<Rightarrow> nat \<Rightarrow> ('c, ('c, 'a) world) attempt) \<Rightarrow> handler \<Rightarrow> byte \<Rightarrow> string list \<Rightarrow>
     ('c, 'a) world \<Rightarrow> goerr option \<times> ('c, 'a) world" where
  "subscribe_sources j at h qos [] w = (None, w)"
| "subscribe_sources j at h qos (tpc # ts) w =
     (case Subscribe (at j) tpc h qos w of
        (Some e, w1) \<Rightarrow> (Some (WrapErr (subscribe_text tpc @ err_text e) e), w1)
      | (None, w1) \<Rightarrow> subscribe_sources (Suc j) at h qos ts w1)"

definition Start ::
  "(nat \<Rightarrow> nat \<Rightarrow> ('c, 'c mworld) attempt) \<Rightarrow> forwarder \<Rightarrow> 'c manager \<Rightarrow>
     goerr option \<times> forwarder \<times> 'c manager" where
  "Start at f m =
     (if fw_running f then (Some (NewErr started_text), f, m)
      else
        (case GetSession m (fc_source (fw_config f)) of
           Inl e \<Rightarrow> (Some (WrapErr (source_text @ err_text e) e), f, m)
         | Inr s \<Rightarrow>
             (case on_named (fc_source (fw_config f)) s
                (subscribe_sources 0 at (ForwardHandler (fc_name (fw_config f))) (fc_qos (fw_config f))
                   (fc_topics (fw_config f))) m of
                (Some e, m1) \<Rightarrow> (Some e, f, m1)
              | (None, m1) \<Rightarrow> (None, f\<lparr>fw_running := True\<rparr>, m1))))"

fun unsubscribe_sources ::
  "nat \<Rightarrow> (nat \<Rightarrow> 'c env \<times> goerr option) \<Rightarrow> string list \<Rightarrow> ('c, 'a) world \<Rightarrow> ('c, 'a) world" where
  "unsubscribe_sources j an [] w = w"
| "unsubscribe_sources j an (tpc # ts) w =
     unsubscribe_sources (Suc j) an ts (snd (Unsubscribe (fst (an j)) (snd (an j)) [tpc] w))"

definition Stop ::
  "(nat \<Rightarrow> 'c env \<times> goerr option) \<Rightarrow> forwarder \<Rightarrow> 'c manager \<Rightarrow> forwarder \<times> 'c manager" where
  "Stop an f m =
     (if \<not> fw_running f \<or> fw_stopped f then (f, m)
      else if fw_once f then (f, m)
      else
        (f\<lparr>fw_running := False, fw_stopped := True, fw_closed := True, fw_once := True\<rparr>,
         case GetSession m (fc_source (fw_config f)) of
           Inl e \<Rightarrow> m
         | Inr s \<Rightarrow>
             snd (on_named (fc_source (fw_config f)) s
               (\<lambda>w. ((), unsubscribe_sources 0 an (fc_topics (fw_config f)) w)) m)))"

definition IsRunning :: "forwarder \<Rightarrow> bool" where
  "IsRunning f \<longleftrightarrow> fw_running f"

text \<open>
  \<open>handleMessage\<close> in its three parts, between which other goroutines may run: the refusal by a
  stopped forwarder, the acceptance with the pooled copy of the message, and the attempt to
  queue it.
\<close>

definition refuse_message :: "forwarder \<Rightarrow> forwarder" where
  "refuse_message f = f\<lparr>fw_dropped := fw_dropped f + 1\<rparr>"

definition accept_message :: "forwarder \<Rightarrow> forwarder" where
  "accept_message f = f\<lparr>fw_received := fw_received f + 1\<rparr>"

definition pooled_copy :: "int \<Rightarrow> string \<Rightarrow> payload \<Rightarrow> forwarder \<Rightarrow> pooled" where
  "pooled_copy now tpc p f =
     \<lparr>pm_topic = tpc, pm_payload = p, pm_qos = fc_qos (fw_config f), pm_retained = False, pm_time = now\<rparr>"

definition has_room :: "forwarder \<Rightarrow> bool" where
  "has_room f \<longleftrightarrow> length (fw_queue f) < fw_room f"

definition queue_message :: "pooled \<Rightarrow> forwarder \<Rightarrow> forwarder" where
  "queue_message msg f =
     (if has_room f then f\<lparr>fw_queue := fw_queue f @ [msg]\<rparr> else f\<lparr>fw_dropped := fw_dropped f + 1\<rparr>)"

definition handleMessage :: "int \<Rightarrow> string \<Rightarrow> payload \<Rightarrow> forwarder \<Rightarrow> forwarder" where
  "handleMessage now tpc p f =
     (if fw_stopped f then refuse_message f
      else queue_message (pooled_copy now tpc p f) (accept_message f))"

definition target_topic :: "forwarder_config \<Rightarrow> string \<Rightarrow> string" where
  "target_topic cfg tpc =
     (case fc_map cfg of
        None \<Rightarrow> tpc
      | Some tm \<Rightarrow> (case mget tm tpc of None \<Rightarrow> tpc | Some mapped \<Rightarrow> mapped))"

definition forwardMessage ::
  "(nat \<Rightarrow> ('c, 'c mworld) attempt) \<Rightarrow> int \<Rightarrow> pooled \<Rightarrow> forwarder \<Rightarrow> 'c manager \<Rightarrow>
     goerr option \<times> forwarder \<times> 'c manager" where
  "forwardMessage at now msg f m =
     (case PublishTo at now (fc_target (fw_config f)) (target_topic (fw_config f) (pm_topic msg))
             (pm_payload msg) (fc_qos (fw_config f)) m of
        (Some e, m1) \<Rightarrow> (Some e, f\<lparr>fw_last_error := now\<rparr>, m1)
      | (None, m1) \<Rightarrow> (None, f\<lparr>fw_last_sent := now, fw_sent := fw_sent f + 1\<rparr>, m1))"

datatype fwd_value = FwString string | FwCount nat | FwU64 u64 | FwTime int | FwBool bool

definition forwarder_GetMetrics :: "forwarder \<Rightarrow> (string, fwd_value) gomap" where
  "forwarder_GetMetrics f =
     [(''name'', FwString (fc_name (fw_config f))),
      (''source_session'', FwString (fc_source (fw_config f))),
      (''target_session'', FwString (fc_target (fw_config f))),
      (''topics_count'', FwCount (length (fc_topics (fw_config f)))),
      (''received'', FwU64 (fw_received f)),
      (''sent'', FwU64 (fw_sent f)),
      (''dropped'', FwU64 (fw_dropped f)),
      (''last_sent'', FwTime (fw_last_sent f)),
      (''last_error'', FwTime (fw_last_error f)),
      (''running'', FwBool (IsRunning f))]"

subsection \<open>The registry\<close>

type_synonym fwd_registry = "(string, forwarder) gomap"

definition NewForwarderRegistry :: fwd_registry where
  "NewForwarderRegistry = []"

definition fwd_Register ::
  "(nat \<Rightarrow> nat \<Rightarrow> ('c, 'c mworld) attempt) \<Rightarrow> forwarder_config \<Rightarrow> fwd_registry \<Rightarrow> 'c manager \<Rightarrow>
     (goerr + forwarder) \<times> fwd_registry \<times> 'c manager" where
  "fwd_Register at cfg reg m =
     (if mget reg (fc_name cfg) \<noteq> None then (Inl (NewErr (name_taken_text (fc_name cfg))), reg, m)
      else
        (case NewForwarder cfg of
           Inl e \<Rightarrow> (Inl e, reg, m)
         | Inr f \<Rightarrow>
             if fc_enabled cfg
             then (case Start at f m of
                     (Some e, f1, m1) \<Rightarrow> (Inl e, reg, m1)
                   | (None, f1, m1) \<Rightarrow> (Inr f1, mput (fc_name cfg) f1 reg, m1))
             else (Inr f, mput (fc_name cfg) f reg, m)))"

definition fwd_Unregister ::
  "(nat \<Rightarrow> 'c env \<times> goerr option) \<Rightarrow> string \<Rightarrow> fwd_registry \<Rightarrow> 'c manager \<Rightarrow>
     goerr option \<times> fwd_registry \<times> 'c manager" where
  "fwd_Unregister an name reg m =
     (case mget reg name of
        None \<Rightarrow> (Some (NewErr (no_forwarder_text name)), reg, m)
      | Some f \<Rightarrow> (None, mdel name reg, snd (Stop an f m)))"

definition fwd_Get :: "fwd_registry \<Rightarrow> string \<Rightarrow> goerr + forwarder" where
  "fwd_Get reg name =
     (case mget reg name of None \<Rightarrow> Inl (NewErr (no_forwarder_text name)) | Some f \<Rightarrow> Inr f)"

definition fwd_List :: "fwd_registry \<Rightarrow> string list" where
  "fwd_List reg = mkeys reg"

definition GetAllMetrics :: "fwd_registry \<Rightarrow> (string, (string, fwd_value) gomap) gomap" where
  "GetAllMetrics reg = map (\<lambda>(n, f). (n, forwarder_GetMetrics f)) reg"

fun StopAll ::
  "(string \<Rightarrow> nat \<Rightarrow> 'c env \<times> goerr option) \<Rightarrow> fwd_registry \<Rightarrow> 'c manager \<Rightarrow> fwd_registry \<times> 'c manager" where
  "StopAll an [] m = ([], m)"
| "StopAll an ((n, f) # reg) m =
     (case (if IsRunning f then Stop (an n) f m else (f, m)) of
        (f1, m1) \<Rightarrow> (case StopAll an reg m1 of (reg2, m2) \<Rightarrow> ((n, f1) # reg2, m2)))"

end
