(* ===== verification/ForwarderRuns.thy ===== *)
theory ForwarderRuns
  imports Forwarders ManagerProps "HOL-Library.Multiset"
begin

text \<open>
  The concurrent life of one forwarder: calls of its handler by MQTT clients, its worker
  goroutines, \<open>Start\<close> and \<open>Stop\<close>, and everything others do to the manager, as a step relation;
  then what every reachable state satisfies, and what the registry does.
\<close>

subsection \<open>Steps\<close>

text \<open>How an accepted message ended.\<close>

datatype fate = Sent | Failed | Full

text \<open>
  The state of a run: the forwarder and its manager, the handler calls that have accepted a message
  and not yet tried to queue it, the workers (each idle or with the message it took), and, for
  the statements, the messages accepted, the messages queued and the ends of messages, in order.
\<close>

record 'c fwd_run =
  rn_fw :: forwarder
  rn_manager :: "'c manager"
  rn_pending :: "pooled list"
  rn_workers :: "pooled option list"
  rn_in :: "pooled list"
  rn_queued :: "pooled list"
  rn_out :: "(fate \<times> pooled) list"
  rn_refused :: nat
  rn_starts :: nat

definition fresh_run :: "forwarder \<Rightarrow> 'c manager \<Rightarrow> 'c fwd_run" where
  "fresh_run f m =
     \<lparr>rn_fw = f, rn_manager = m, rn_pending = [], rn_workers = [], rn_in = [], rn_queued = [],
      rn_out = [], rn_refused = 0, rn_starts = 0\<rparr>"

text \<open>
  \<open>take\<close>, \<open>forward\<close> and \<open>quit\<close> are the branches of the loop \<open>processMessages\<close>; the choice
  between a closed stop channel and a waiting message is the runtime's.
\<close>

inductive fwd_step :: "'c fwd_run \<Rightarrow> 'c fwd_run \<Rightarrow> bool" where
  refuse: "fw_stopped (rn_fw r) \<Longrightarrow>
    fwd_step r (r\<lparr>rn_fw := refuse_message (rn_fw r), rn_refused := Suc (rn_refused r)\<rparr>)"
| accept: "\<not> fw_stopped (rn_fw r) \<Longrightarrow> msg = pooled_copy now tpc p (rn_fw r) \<Longrightarrow>
    fwd_step r (r\<lparr>rn_fw := accept_message (rn_fw r), rn_pending := msg # rn_pending r,
                  rn_in := rn_in r @ [msg]\<rparr>)"
| queue: "rn_pending r = xs @ msg # ys \<Longrightarrow> has_room (rn_fw r) \<Longrightarrow>
    fwd_step r (r\<lparr>rn_fw := queue_message msg (rn_fw r), rn_pending := xs @ ys,
                  rn_queued := rn_queued r @ [msg]\<rparr>)"
| full: "rn_pending r = xs @ msg # ys \<Longrightarrow> \<not> has_room (rn_fw r) \<Longrightarrow>
    fwd_step r (r\<lparr>rn_fw := queue_message msg (rn_fw r), rn_pending := xs @ ys,
                  rn_out := rn_out r @ [(Full, msg)]\<rparr>)"
| take: "rn_workers r = us @ None # vs \<Longrightarrow> fw_queue (rn_fw r) = msg # q \<Longrightarrow>
    fwd_step r (r\<lparr>rn_fw := (rn_fw r)\<lparr>fw_queue := q\<rparr>, rn_workers := us @ Some msg # vs\<rparr>)"
| forward: "rn_workers r = us @ Some msg # vs \<Longrightarrow>
    forwardMessage at now msg (rn_fw r) (rn_manager r) = (err, f, m) \<Longrightarrow>
    fwd_step r (r\<lparr>rn_fw := f, rn_manager := m, rn_workers := us @ None # vs,
                  rn_out := rn_out r @ [(if err = None then Sent else Failed, msg)]\<rparr>)"
| quit: "rn_workers r = us @ None # vs \<Longrightarrow> fw_closed (rn_fw r) \<Longrightarrow>
    fwd_step r (r\<lparr>rn_workers := us @ vs\<rparr>)"
| start: "Start ats (rn_fw r) (rn_manager r) = (None, f, m) \<Longrightarrow>
    fwd_step r (r\<lparr>rn_fw := f, rn_manager := m, rn_workers := rn_workers r @ [None],
                  rn_starts := Suc (rn_starts r)\<rparr>)"
| start_fails: "Start ats (rn_fw r) (rn_manager r) = (Some e, f, m) \<Longrightarrow>
    fwd_step r (r\<lparr>rn_fw := f, rn_manager := m\<rparr>)"
| stop: "Stop an (rn_fw r) (rn_manager r) = (f, m) \<Longrightarrow>
    fwd_step r (r\<lparr>rn_fw := f, rn_manager := m\<rparr>)"
| others: "fwd_step r (r\<lparr>rn_manager := m\<rparr>)"

abbreviation fwd_reach :: "'c fwd_run \<Rightarrow> 'c fwd_run \<Rightarrow> bool" where
  "fwd_reach \<equiv> fwd_step\<^sup>*\<^sup>*"

lemma queue_message_step:
  assumes "rn_pending r = xs @ msg # ys"
  shows "\<exists>r'. fwd_step r r' \<and> rn_fw r' = queue_message msg (rn_fw r) \<and> rn_manager r' = rn_manager r"
proof (cases "has_room (rn_fw r)")
  case True
  show ?thesis by (rule exI, rule conjI, rule queue [OF assms True]) simp
next
  case False
  show ?thesis by (rule exI, rule conjI, rule full [OF assms False]) simp
qed

text \<open>A call of \<open>handleMessage\<close> that nothing interrupts is a run of the relation.\<close>

lemma handleMessage_is_a_run:
  "\<exists>r'. fwd_reach r r' \<and> rn_fw r' = handleMessage now tpc p (rn_fw r) \<and> rn_manager r' = rn_manager r"
proof (cases "fw_stopped (rn_fw r)")
  case True
  from refuse [OF this] have "fwd_reach r (r\<lparr>rn_fw := refuse_message (rn_fw r), rn_refused := Suc (rn_refused r)\<rparr>)"
    by (rule r_into_rtranclp)
  with True show ?thesis by (force simp: handleMessage_def)
next
  case False
  let ?msg = "pooled_copy now tpc p (rn_fw r)"
  let ?r1 = "r\<lparr>rn_fw := accept_message (rn_fw r), rn_pending := ?msg # rn_pending r,
      rn_in := rn_in r @ [?msg]\<rparr>"
  have step1: "fwd_step r ?r1" using False by (intro accept) simp_all
  have pend: "rn_pending ?r1 = [] @ ?msg # rn_pending r" by simp
  from queue_message_step [OF pend] obtain r2 where r2: "fwd_step ?r1 r2"
    "rn_fw r2 = queue_message ?msg (rn_fw ?r1)" "rn_manager r2 = rn_manager ?r1" by blast
  from step1 r2(1) have "fwd_reach r r2" by (rule rtranclp_trans [OF r_into_rtranclp r_into_rtranclp])
  with r2 False show ?thesis by (auto simp: handleMessage_def)
qed

subsection \<open>What the operations change\<close>

lemma Start_forwarder:
  "Start ats f m = (e, f', m') \<Longrightarrow> f' = (if e = None then f\<lparr>fw_running := True\<rparr> else f)
     \<and> (e = None \<longrightarrow> \<not> fw_running f)"
  by (auto simp: Start_def split: if_splits sum.splits option.splits prod.splits)

lemma Stop_forwarder:
  "Stop an f m = (f', m') \<Longrightarrow>
     f' = (if fw_running f \<and> \<not> fw_stopped f \<and> \<not> fw_once f
           then f\<lparr>fw_running := False, fw_stopped := True, fw_closed := True, fw_once := True\<rparr> else f)"
  by (auto simp: Stop_def split: if_splits)

lemma forwardMessage_forwarder:
  "forwardMessage at now msg f m = (e, f', m') \<Longrightarrow>
     f' = (if e = None then f\<lparr>fw_last_sent := now, fw_sent := fw_sent f + 1\<rparr>
           else f\<lparr>fw_last_error := now\<rparr>)"
  by (auto simp: forwardMessage_def split: prod.splits option.splits)

subsection \<open>Accounting\<close>

definition in_hand :: "pooled option list \<Rightarrow> pooled list" where
  "in_hand ws = concat (map (\<lambda>w. case w of None \<Rightarrow> [] | Some msg \<Rightarrow> [msg]) ws)"

lemma in_hand_simps [simp]:
  "in_hand [] = []" "in_hand (None # ws) = in_hand ws" "in_hand (Some msg # ws) = msg # in_hand ws"
  "in_hand (us @ vs) = in_hand us @ in_hand vs"
  by (simp_all add: in_hand_def)

definition ends :: "fate \<Rightarrow> (fate \<times> pooled) list \<Rightarrow> pooled list" where
  "ends x out = map snd (filter (\<lambda>e. fst e = x) out)"

lemma ends_simps [simp]:
  "ends x [] = []" "ends x (out @ [(y, msg)]) = ends x out @ (if x = y then [msg] else [])"
  by (auto simp: ends_def)

text \<open>
  Every accepted message is in one place, the counters are the lengths of the histories, and the
  channel holds at most its capacity.
\<close>

definition fwd_inv :: "nat \<Rightarrow> 'c fwd_run \<Rightarrow> bool" where
  "fwd_inv room r \<longleftrightarrow>
     (let f = rn_fw r
      in mset (rn_in r) = mset (rn_pending r) + mset (fw_queue f) + mset (in_hand (rn_workers r))
                          + mset (map snd (rn_out r))
       \<and> fw_received f = of_nat (length (rn_in r))
       \<and> fw_sent f = of_nat (length (ends Sent (rn_out r)))
       \<and> fw_dropped f = of_nat (rn_refused r + length (ends Full (rn_out r)))
       \<and> fw_room f = room \<and> length (fw_queue f) \<le> room)"

lemma fwd_inv_step: "fwd_step r r' \<Longrightarrow> fwd_inv room r \<Longrightarrow> fwd_inv room r'"
proof (induction rule: fwd_step.induct)
  case (start ats r f m)
  from Start_forwarder [OF start(1)] start(2) show ?case by (simp add: fwd_inv_def Let_def)
next
  case (start_fails ats r e f m)
  from Start_forwarder [OF start_fails(1)] start_fails(2) show ?case by (simp add: fwd_inv_def Let_def)
next
  case (stop an r f m)
  from Stop_forwarder [OF stop(1)] stop(2) show ?case by (simp add: fwd_inv_def Let_def)
next
  case (forward r us msg vs at now err f m)
  from forwardMessage_forwarder [OF forward(2)] forward(1,3) show ?case
    by (simp add: fwd_inv_def Let_def)
qed (simp_all add: fwd_inv_def Let_def refuse_message_def accept_message_def queue_message_def has_room_def)

lemma fwd_inv_reach: "fwd_reach r r' \<Longrightarrow> fwd_inv room r \<Longrightarrow> fwd_inv room r'"
  by (induction rule: rtranclp_induct) (auto intro: fwd_inv_step)

lemma NewForwarder_fields:
  "NewForwarder cfg = Inr f \<Longrightarrow>
     fw_config f = cfg \<and> fw_queue f = [] \<and> fw_received f = 0 \<and> fw_sent f = 0 \<and> fw_dropped f = 0
     \<and> \<not> fw_running f \<and> \<not> fw_stopped f \<and> \<not> fw_closed f \<and> \<not> fw_once f
     \<and> fw_room f = nat (if fc_buffer cfg > 0 then fc_buffer cfg else 100)"
  by (auto simp: NewForwarder_def Let_def split: if_splits)

lemma fresh_run_inv: "NewForwarder cfg = Inr f \<Longrightarrow> fwd_inv (fw_room f) (fresh_run f m)"
  by (drule NewForwarder_fields) (simp add: fwd_inv_def fresh_run_def Let_def)

subsection \<open>Order\<close>

definition handled :: "(fate \<times> pooled) list \<Rightarrow> pooled list" where
  "handled out = map snd (filter (\<lambda>e. fst e \<noteq> Full) out)"

lemma handled_simps [simp]:
  "handled [] = []" "handled (out @ [(x, msg)]) = handled out @ (if x = Full then [] else [msg])"
  by (auto simp: handled_def)

text \<open>With one worker started, there is one at most, and it works through the queue in order.\<close>

definition fwd_order :: "'c fwd_run \<Rightarrow> bool" where
  "fwd_order r \<longleftrightarrow>
     (rn_starts r \<le> 1 \<longrightarrow>
        length (rn_workers r) \<le> rn_starts r
        \<and> rn_queued r = handled (rn_out r) @ in_hand (rn_workers r) @ fw_queue (rn_fw r))"

lemma short_list: "length (us @ w # vs) \<le> n \<Longrightarrow> n \<le> 1 \<Longrightarrow> us = [] \<and> vs = []"
  by (cases us; cases vs) auto

lemma fwd_order_step: "fwd_step r r' \<Longrightarrow> fwd_order r \<Longrightarrow> fwd_order r'"
proof (induction rule: fwd_step.induct)
  case (start ats r f m)
  from Start_forwarder [OF start(1)] start(2) show ?case by (auto simp: fwd_order_def)
next
  case (start_fails ats r e f m)
  from Start_forwarder [OF start_fails(1)] start_fails(2) show ?case by (simp add: fwd_order_def)
next
  case (stop an r f m)
  from Stop_forwarder [OF stop(1)] stop(2) show ?case by (simp add: fwd_order_def)
next
  case (forward r us msg vs at now err f m)
  from forwardMessage_forwarder [OF forward(2)] forward(1,3) short_list [of us "Some msg" vs "rn_starts r"]
  show ?case by (auto simp: fwd_order_def)
next
  case (take r us vs msg q)
  with short_list [of us None vs "rn_starts r"] show ?case by (auto simp: fwd_order_def)
qed (auto simp: fwd_order_def refuse_message_def accept_message_def queue_message_def)

lemma fwd_order_reach: "fwd_reach r r' \<Longrightarrow> fwd_order r \<Longrightarrow> fwd_order r'"
  by (induction rule: rtranclp_induct) (auto intro: fwd_order_step)

subsection \<open>After Stop\<close>

text \<open>A stopped forwarder stays stopped, its once has run, and it accepts nothing.\<close>

definition dead :: "pooled list \<Rightarrow> 'c fwd_run \<Rightarrow> bool" where
  "dead accepted r \<longleftrightarrow> fw_stopped (rn_fw r) \<and> rn_in r = accepted"

lemma dead_step: "fwd_step r r' \<Longrightarrow> dead a r \<Longrightarrow> dead a r'"
proof (induction rule: fwd_step.induct)
  case (start ats r f m)
  from Start_forwarder [OF start(1)] start(2) show ?case by (simp add: dead_def)
next
  case (start_fails ats r e f m)
  from Start_forwarder [OF start_fails(1)] start_fails(2) show ?case by (simp add: dead_def)
next
  case (stop an r f m)
  from Stop_forwarder [OF stop(1)] stop(2) show ?case by (auto simp: dead_def)
next
  case (forward r us msg vs at now err f m)
  from forwardMessage_forwarder [OF forward(2)] forward(1,3) show ?case by (simp add: dead_def)
qed (simp_all add: dead_def refuse_message_def queue_message_def)

lemma dead_reach: "fwd_reach r r' \<Longrightarrow> dead a r \<Longrightarrow> dead a r'"
  by (induction rule: rtranclp_induct) (auto intro: dead_step)

subsection \<open>Starting\<close>

text \<open>How many of the topics from number \<open>j\<close> on are subscribed before the first refusal.\<close>

definition granted :: "(nat \<Rightarrow> nat \<Rightarrow> ('c, 'w) attempt) \<Rightarrow> nat \<Rightarrow> nat \<Rightarrow> nat" where
  "granted at j k = length (takeWhile (\<lambda>i. length (failures (at i)) < 3) [j..<j + k])"

lemma granted_0 [simp]: "granted at j 0 = 0"
  by (simp add: granted_def)

lemma granted_Suc [simp]:
  "granted at j (Suc k) = (if length (failures (at j)) < 3 then Suc (granted at (Suc j) k) else 0)"
proof -
  have "[j..<j + Suc k] = j # [Suc j..<Suc j + k]" by (simp add: upt_rec)
  then show ?thesis by (simp add: granted_def)
qed

lemma granted_le: "granted at j k \<le> k"
  unfolding granted_def by (metis add_diff_cancel_left' length_takeWhile_le length_upt)

lemma calm_keeps: "calm at \<Longrightarrow> keeps P at"
  by (simp add: calm_def keeps_def)

lemma failures_last: "\<not> length (failures at) < 3 \<Longrightarrow> last (failures at) \<noteq> None"
  using failures_cases [of at] by auto

lemma subscribe_sources_online:
  assumes "\<And>j. calm (at j)"
  shows "IsConnected (fst w) \<Longrightarrow>
    (fst (subscribe_sources j at h qos ts w) = None \<longleftrightarrow> granted at j (length ts) = length ts)
    \<and> se_handlers (fst (snd (subscribe_sources j at h qos ts w)))
        = fold (\<lambda>t. AddMessageHandler t h) (take (granted at j (length ts)) ts) (se_handlers (fst w))"
proof (induction ts arbitrary: j w)
  case Nil
  then show ?case by simp
next
  case (Cons t ts)
  obtain r w1 where sub: "Subscribe (at j) t h qos w = (r, w1)" by (rule prod.exhaust)
  note on = Subscribe_online [OF assms [of j] Cons.prems, of t h qos w1]
  show ?case
  proof (cases "length (failures (at j)) < 3")
    case True
    with on sub have "r = None" "IsConnected (fst w1)"
      "se_handlers (fst w1) = AddMessageHandler t h (se_handlers (fst w))"
      by (simp_all add: IsConnected_def)
    with Cons.IH [of w1 "Suc j"] sub True show ?thesis by simp
  next
    case False
    with on sub failures_last [OF False] have "r \<noteq> None" "se_handlers (fst w1) = se_handlers (fst w)"
      by auto
    with sub False show ?thesis by auto
  qed
qed

lemma obs_subscribe_sources:
  assumes "obs_inv P" and "\<And>j. keeps P (at j)"
  shows "P w \<Longrightarrow> P (snd (subscribe_sources j at h qos ts w))"
proof (induction ts arbitrary: j w)
  case Nil
  then show ?case by simp
next
  case (Cons t ts)
  with obs_Subscribe [OF assms(1,2) Cons.prems, of j t h qos] show ?case
    by (auto split: prod.split option.split)
qed

lemma Start_by_sources:
  assumes "\<not> fw_running f" and "GetSession m (fc_source (fw_config f)) = Inr s"
    and "subscribe_sources 0 at (ForwardHandler (fc_name (fw_config f))) (fc_qos (fw_config f))
           (fc_topics (fw_config f)) (s, m) = (r, (s', m1))"
  shows "Start at f m =
      (r, if r = None then f\<lparr>fw_running := True\<rparr> else f, put_back (fc_source (fw_config f)) s' m1)"
  using assms by (simp add: Start_def on_named_def split: option.split)

lemma GetSession_put_back:
  "mget (mg_sessions m) n \<noteq> None \<Longrightarrow> GetSession (put_back n s m) n = Inr s"
  by (auto simp: put_back_def GetSession_def)

lemma handlers_after_fold:
  "GetMessageHandler (fold (\<lambda>t. AddMessageHandler t h) ts r)
     = (\<lambda>t. if t \<in> set ts then Some h else GetMessageHandler r t)"
  by (induction ts arbitrary: r) (auto simp: registry.look_put)

subsection \<open>Properties\<close>

text \<open>
  C3. A forwarder accounts for every message: in any state its handler calls, workers, restarts and
  the rest of the manager can reach, each accepted message is exactly once in a handler call, in
  the channel, with a worker, or sent, failed or dropped; the counters are the numbers of
  these (in 64 bits); and the channel never holds more than the configured number of messages.
\<close>

theorem forwarder_accounts_for_messages:
  assumes "NewForwarder cfg = Inr f" and "fwd_reach (fresh_run f m) r"
  shows "mset (rn_in r) = mset (rn_pending r) + mset (fw_queue (rn_fw r)) + mset (in_hand (rn_workers r))
                        + mset (map snd (rn_out r))
    \<and> fw_received (rn_fw r) = of_nat (length (rn_in r))
    \<and> fw_sent (rn_fw r) = of_nat (length (ends Sent (rn_out r)))
    \<and> fw_dropped (rn_fw r) = of_nat (rn_refused r + length (ends Full (rn_out r)))
    \<and> length (fw_queue (rn_fw r)) \<le> nat (if fc_buffer cfg > 0 then fc_buffer cfg else 100)"
  using fwd_inv_reach [OF assms(2) fresh_run_inv [OF assms(1)]] NewForwarder_fields [OF assms(1)]
  by (simp add: fwd_inv_def Let_def)

definition sample_config :: forwarder_config where
  "sample_config =
     \<lparr>fc_name = ''f'', fc_source = ''s'', fc_topics = [''a'', ''b''], fc_target = ''d'',
      fc_map = Some [(''a'', ''z'')], fc_qos = 1, fc_buffer = 1, fc_enabled = True\<rparr>"

definition sample_forwarder :: forwarder where
  "sample_forwarder =
     \<lparr>fw_config = sample_config, fw_queue = [], fw_room = 1, fw_closed = False, fw_running = False,
      fw_received = 0, fw_sent = 0, fw_dropped = 0, fw_last_sent = zero_time,
      fw_last_error = zero_time, fw_once = False, fw_stopped = False\<rparr>"

lemma sample_NewForwarder: "NewForwarder sample_config = Inr sample_forwarder"
  by (simp add: NewForwarder_def sample_config_def sample_forwarder_def)

theorem forwarder_accounts_for_messages_witness:
  "\<exists>r. fwd_reach (fresh_run sample_forwarder (NewSessionManager 0 [] NewMockRedisClient)) r
     \<and> rn_fw r = handleMessage 5 ''a'' ''x'' sample_forwarder
     \<and> fw_received (rn_fw r) = of_nat (length (rn_in r)) \<and> length (fw_queue (rn_fw r)) \<le> 1"
proof -
  let ?r0 = "fresh_run sample_forwarder (NewSessionManager 0 [] NewMockRedisClient)"
  obtain r where r: "fwd_reach ?r0 r" "rn_fw r = handleMessage 5 ''a'' ''x'' (rn_fw ?r0)"
    using handleMessage_is_a_run by blast
  with forwarder_accounts_for_messages [OF sample_NewForwarder r(1)] show ?thesis
    by (intro exI [of _ r]) (simp add: fresh_run_def sample_config_def)
qed


lemma sample_run:
  fixes m :: "'c manager"
  shows "\<exists>r. fwd_reach (fresh_run sample_forwarder m) r \<and> rn_starts r = 0
    \<and> rn_queued r = [pooled_copy 5 ''a'' ''x'' sample_forwarder]"
proof -
  let ?r0 = "fresh_run sample_forwarder m"
  let ?msg = "pooled_copy 5 ''a'' ''x'' (rn_fw ?r0)"
  let ?r1 = "?r0\<lparr>rn_fw := accept_message (rn_fw ?r0), rn_pending := ?msg # rn_pending ?r0,
      rn_in := rn_in ?r0 @ [?msg]\<rparr>"
  let ?r2 = "?r1\<lparr>rn_fw := queue_message ?msg (rn_fw ?r1), rn_pending := [] @ [],
      rn_queued := rn_queued ?r1 @ [?msg]\<rparr>"
  have "fwd_step ?r0 ?r1" by (rule accept) (simp_all add: fresh_run_def sample_forwarder_def)
  moreover have "fwd_step ?r1 ?r2"
    by (rule queue) (simp_all add: fresh_run_def has_room_def accept_message_def sample_forwarder_def)
  ultimately have "fwd_reach ?r0 ?r2" by (rule rtranclp_trans [OF r_into_rtranclp r_into_rtranclp])
  then show ?thesis by (intro exI [of _ ?r2] conjI) (simp_all add: fresh_run_def)
qed


text \<open>A manager with a connected session to forward from.\<close>

definition source_session :: session where
  "source_session = fresh_session 0 (DefaultOptions [])
     DefaultConnectProps (MemStore []) \<lparr>se_name := ''s'', se_status := stateConnected\<rparr>"

definition source_manager :: "mock_redis manager" where
  "source_manager = (NewSessionManager 0 [] NewMockRedisClient)\<lparr>mg_sessions := [(''s'', source_session)]\<rparr>"

lemma source_facts:
  "GetSession source_manager ''s'' = Inr source_session" "IsConnected source_session"
  "se_handlers source_session = newHandlerRegistry"
  by (simp_all add: source_manager_def GetSession_def source_session_def fresh_session_def IsConnected_def)


text \<open>The sample forwarder after \<open>Stop\<close> is started again, with success, and does nothing any more.\<close>

definition stopped_forwarder :: forwarder where
  "stopped_forwarder = sample_forwarder\<lparr>fw_closed := True, fw_once := True, fw_stopped := True\<rparr>"

lemma granted_all: "(\<And>j. length (failures (at j)) < 3) \<Longrightarrow> granted at j k = k"
  by (induction k arbitrary: j) simp_all

lemma no_failures: "failures (answers []) = []"
  by (simp add: failures_def upt_3 answers_def)

lemma restart_succeeds:
  "\<exists>m'. Start (\<lambda>j. answers []) stopped_forwarder source_manager
     = (None, stopped_forwarder\<lparr>fw_running := True\<rparr>, m')"
proof -
  let ?h = "ForwardHandler (fc_name (fw_config stopped_forwarder))"
  obtain r s' m1 where sub: "subscribe_sources 0 (\<lambda>j. answers []) ?h (fc_qos (fw_config stopped_forwarder))
      (fc_topics (fw_config stopped_forwarder)) (source_session, source_manager) = (r, (s', m1))"
    by (metis prod.exhaust)
  from subscribe_sources_online [where at = "\<lambda>j. answers []" and w = "(source_session, source_manager)"
      and j = 0 and h = ?h and qos = "fc_qos (fw_config stopped_forwarder)"
      and ts = "fc_topics (fw_config stopped_forwarder)"] sub
  have "r = None" by (simp add: source_facts granted_all no_failures)
  have start: "\<not> fw_running stopped_forwarder"
    "GetSession source_manager (fc_source (fw_config stopped_forwarder)) = Inr source_session"
    by (simp_all add: stopped_forwarder_def sample_forwarder_def sample_config_def source_facts)
  from Start_by_sources [OF start sub] \<open>r = None\<close> show ?thesis by auto
qed


text \<open>
  C28. \<open>Start\<close> of a forwarder that does not run, on a connected source session and without
  interference, subscribes its topics in order up to the first refusal. It succeeds, and the
  forwarder runs, exactly if none is refused; otherwise the forwarder is as before, but the
  topics before the refused one stay subscribed with the forwarder's handler.
\<close>

theorem Start_outcome:
  assumes "\<not> fw_running f" and "GetSession m (fc_source (fw_config f)) = Inr s" and "IsConnected s"
    and "\<And>j. calm (at j)" and "Start at f m = (e, f', m')"
    and "n = granted at 0 (length (fc_topics (fw_config f)))"
  shows "(e = None \<longleftrightarrow> n = length (fc_topics (fw_config f)))
    \<and> f' = (if e = None then f\<lparr>fw_running := True\<rparr> else f)
    \<and> (\<exists>s'. GetSession m' (fc_source (fw_config f)) = Inr s'
         \<and> GetMessageHandler (se_handlers s') = (\<lambda>t. if t \<in> set (take n (fc_topics (fw_config f)))
             then Some (ForwardHandler (fc_name (fw_config f))) else GetMessageHandler (se_handlers s) t))"
proof -
  let ?src = "fc_source (fw_config f)" and ?h = "ForwardHandler (fc_name (fw_config f))"
  obtain r s' m1 where sub: "subscribe_sources 0 at ?h (fc_qos (fw_config f)) (fc_topics (fw_config f)) (s, m)
      = (r, (s', m1))" by (metis prod.exhaust)
  from subscribe_sources_online [where at = at and w = "(s, m)" and j = 0 and h = ?h
      and qos = "fc_qos (fw_config f)" and ts = "fc_topics (fw_config f)", OF assms(4)]
    sub assms(3,6)
  have res: "r = None \<longleftrightarrow> n = length (fc_topics (fw_config f))"
    and hs: "se_handlers s' = fold (\<lambda>t. AddMessageHandler t ?h) (take n (fc_topics (fw_config f))) (se_handlers s)"
    by simp_all
  have "table_is (mg_sessions m) (snd (subscribe_sources 0 at ?h (fc_qos (fw_config f)) (fc_topics (fw_config f)) (s, m)))"
    by (rule obs_subscribe_sources [OF table_obs_inv calm_keeps [OF assms(4)]]) (simp add: table_is_def)
  with sub have "mg_sessions m1 = mg_sessions m" by (simp add: table_is_def)
  with assms(2) have "mget (mg_sessions m1) ?src \<noteq> None" by (simp add: GetSession_Inr)
  then have look: "GetSession (put_back ?src s' m1) ?src = Inr s'" by (rule GetSession_put_back)
  have "Start at f m = (r, if r = None then f\<lparr>fw_running := True\<rparr> else f, put_back ?src s' m1)"
    by (rule Start_by_sources [OF assms(1,2) sub])
  with assms(5) res look show ?thesis
    by (auto simp: hs handlers_after_fold)
qed

text \<open>The second of two topics is refused three times: the first one stays subscribed.\<close>

definition second_refused :: "nat \<Rightarrow> nat \<Rightarrow> (mock_redis, 'w) attempt" where
  "second_refused j = answers (if j = 1 then replicate 3 (Some (NewErr ''denied'')) else [])"

theorem Start_outcome_witness:
  "\<exists>e m' s'. Start second_refused sample_forwarder source_manager = (Some e, sample_forwarder, m')
     \<and> GetSession m' ''s'' = Inr s'
     \<and> GetMessageHandler (se_handlers s') ''a'' = Some (ForwardHandler ''f'')
     \<and> GetMessageHandler (se_handlers s') ''b'' = None"
proof -
  have f: "\<not> fw_running sample_forwarder" "fc_source (fw_config sample_forwarder) = ''s''"
    "fc_topics (fw_config sample_forwarder) = [''a'', ''b'']" "fc_name (fw_config sample_forwarder) = ''f''"
    by (simp_all add: sample_forwarder_def sample_config_def)
  have g: "1 = granted second_refused 0 (length (fc_topics (fw_config sample_forwarder)))"
    by (simp add: f second_refused_def failures_def upt_3 answers_def numeral_2_eq_2)
  obtain e f' m' where st: "Start second_refused sample_forwarder source_manager = (e, f', m')"
    by (metis prod.exhaust)
  have none: "GetMessageHandler newHandlerRegistry t = None" for t
    by (simp add: GetMessageHandler_def newHandlerRegistry_def)
  have "\<And>j. calm (second_refused j)" by (simp add: second_refused_def)
  from Start_outcome [OF f(1) source_facts(1) [folded f(2)] source_facts(2) this st g]
  show ?thesis
    by (auto simp: f source_facts st none)
qed

end
