(* ===== verification/Persistence.thy ===== *)
theory Persistence
  imports SessionProps
begin

text \<open>
  Persistent sessions: what \<open>saveState\<close> stores and what \<open>restoreState\<close> makes of it, over each of
  the three stores, the Redis store over any client \<open>cl\<close> that is up (theories Stores and GoRedis).
\<close>

subsection \<open>The store of a session, when it works\<close>

definition store_healthy :: "'c redis_client \<Rightarrow> 'c env \<Rightarrow> ('c, 'a) world \<Rightarrow> bool" where
  "store_healthy cl en w \<longleftrightarrow>
     (case se_store (fst w) of
        MemStore m \<Rightarrow> True
      | FilStore dir \<Rightarrow> en_fault en = NoFault \<and> plain_name (se_name (fst w))
      | RedStore rs \<Rightarrow> en_redis en = cl \<and> client_up cl (hb_redis (snd w)))"

text \<open>Two worlds in which a session finds the same stored state.\<close>

definition same_backend :: "('c, 'a) world \<Rightarrow> ('c, 'a) world \<Rightarrow> bool" where
  "same_backend v w \<longleftrightarrow>
     se_name (fst v) = se_name (fst w) \<and> se_store (fst v) = se_store (fst w)
     \<and> hb_files (snd v) = hb_files (snd w) \<and> hb_redis (snd v) = hb_redis (snd w)"

lemma load_same: "same_backend v w \<Longrightarrow> store_LoadState en v = store_LoadState en w"
  by (cases v; cases w) (auto simp: same_backend_def store_LoadState_def split: sstore.split)

lemma healthy_same: "same_backend v w \<Longrightarrow> store_healthy cl en v \<longleftrightarrow> store_healthy cl en w"
  by (simp add: same_backend_def store_healthy_def split: sstore.split)

lemma healthy_after_save:
  "store_healthy cl en w \<Longrightarrow> store_healthy cl en' w \<Longrightarrow> store_healthy cl en' (snd (store_SaveState en (Some st) w))"
  by (cases w; cases "se_store (fst w)")
    (auto simp: store_healthy_def store_SaveState_def MemoryStore_SaveState_def case_prod_unfold
      client_up_save)

lemma store_then_load_save:
  assumes "store_healthy cl en w" and "store_healthy cl en' w" and "json_storable st"
  shows "fst (store_SaveState en (Some st) w) = None
    \<and> store_LoadState en' (snd (store_SaveState en (Some st) w)) = Inr (Some st)"
  using assms
  by (cases w; cases "se_store (fst w)")
    (auto simp: store_healthy_def store_SaveState_def store_LoadState_def case_prod_unfold
      mstore.load_after_save mstore.save_succeeds fstore.load_after_save fstore.save_succeeds
      client_save_then_load)

lemma store_then_load_delete:
  assumes "store_healthy cl en w"
  shows "store_LoadState en (snd (store_DeleteState en w)) = Inr None"
  using assms
  by (cases w; cases "se_store (fst w)")
    (auto simp: store_healthy_def store_DeleteState_def store_LoadState_def case_prod_unfold
      mstore.load_after_delete fstore.load_after_delete client_delete_then_load)

lemma zero_time_ok: "time_ok zero_time"
  by (simp add: time_ok_def zero_time_def second_def)

text \<open>The names that are stored with a session are UTF-8.\<close>

definition names_ok :: "session \<Rightarrow> bool" where
  "names_ok s \<longleftrightarrow>
     list_all valid_utf8 (GetSubscribedTopics s) \<and> valid_utf8 (op_client_id (se_opts s))"

lemma collect_state_storable:
  "time_ok now \<Longrightarrow> time_ok (session_expiry now s) \<Longrightarrow> names_ok s \<Longrightarrow> json_storable (collect_state now s)"
  by (simp add: json_storable_def collect_state_def state_ok_def state_times_ok_def opt_ok_def messages_ok_def
      fits_i64_def zero_time_ok names_ok_def GetSubscribedTopics_def GetAllTopics_def list_all_iff)

lemma collect_no_nil [simp]: "\<not> has_nil_message (collect_state now s)"
  by (simp add: has_nil_message_def collect_state_def)

subsection \<open>Resubscribing\<close>

definition restored_registry :: "string list \<Rightarrow> handler_registry \<Rightarrow> handler_registry" where
  "restored_registry tpcs h = fold (\<lambda>t. AddMessageHandler t (RestoredHandler t)) tpcs h"

lemma restored_lookup:
  "GetMessageHandler (restored_registry tpcs h) t =
     (if t \<in> set tpcs then Some (RestoredHandler t) else GetMessageHandler h t)"
  by (induction tpcs arbitrary: h) (auto simp: restored_registry_def registry.look_put)

lemma Subscribe_first:
  assumes "IsConnected (fst w)" and "at_error (at 0) = None"
  shows "Subscribe at tpc f qos w = (None, subscribed (at_env (at 0)) tpc f (on_session (record_call (CSubscribe tpc qos f)) w))"
  using assms by (simp add: subscribe_steps IsConnected_def)

lemma subscribed_fields:
  "se_calls (fst (subscribed en tpc f u)) = se_calls (fst u)"
  "se_status (fst (subscribed en tpc f u)) = se_status (fst u)"
  "se_sequence (fst (subscribed en tpc f u)) = se_sequence (fst u)"
  "se_opts (fst (subscribed en tpc f u)) = se_opts (fst u)"
  "se_name (fst (subscribed en tpc f u)) = se_name (fst u)"
  "se_handlers (fst (subscribed en tpc f u)) = AddMessageHandler tpc f (se_handlers (fst u))"
  using fst_subscribed [of en tpc f u] by auto

lemma resubscribe_all:
  assumes "IsConnected (fst w)" and "\<And>j. at_error (at j 0) = None"
  shows "se_handlers (fst (resubscribe j at ts w)) = restored_registry (map ts_topic ts) (se_handlers (fst w))
    \<and> se_calls (fst (resubscribe j at ts w))
        = se_calls (fst w) @ map (\<lambda>t. CSubscribe (ts_topic t) (ts_qos t) (RestoredHandler (ts_topic t))) ts
    \<and> se_sequence (fst (resubscribe j at ts w)) = se_sequence (fst w)
    \<and> se_opts (fst (resubscribe j at ts w)) = se_opts (fst w)"
  using assms(1)
proof (induction ts arbitrary: j w)
  case Nil
  then show ?case by (simp add: restored_registry_def)
next
  case (Cons t ts)
  let ?w1 = "subscribed (at_env (at j 0)) (ts_topic t) (RestoredHandler (ts_topic t))
      (on_session (record_call (CSubscribe (ts_topic t) (ts_qos t) (RestoredHandler (ts_topic t)))) w)"
  have "IsConnected (fst ?w1)" using Cons.prems by (simp add: IsConnected_def subscribed_fields)
  from Cons.IH [OF this, of "Suc j"] Cons.prems show ?case
    by (simp add: Subscribe_first assms(2) subscribed_fields restored_registry_def)
qed

text \<open>A connected session that finds the state saved in another world.\<close>

definition successor :: "('c, 'a) world \<Rightarrow> ('c, 'a) world \<Rightarrow> bool" where
  "successor v w \<longleftrightarrow> same_backend v w \<and> IsConnected (fst v)"

lemma restore_after_save:
  assumes "store_healthy cl en w" and "store_healthy cl en' w" and "time_ok (en_now en)"
    and "time_ok (session_expiry (en_now en) (fst w))" and "names_ok (fst w)"
    and "saveState en w = (r, w')" and "successor v w'"
    and "en_now en' \<le> session_expiry (en_now en) (fst w)"
  shows "restoreState en' at v =
     (Returned None,
      resubscribe 0 at (map (\<lambda>t. \<lparr>ts_topic = t, ts_qos = 0\<rparr>) (GetSubscribedTopics (fst w)))
        (on_session (\<lambda>s. s\<lparr>se_sequence := se_sequence (fst w)\<rparr>) v))"
proof -
  let ?st = "collect_state (en_now en) (fst w)"
  have w': "w' = snd (store_SaveState en (Some ?st) w)" using assms(6) by (simp add: saveState_def)
  have "json_storable ?st" using assms(3,4,5) by (rule collect_state_storable)
  from store_then_load_save [OF assms(1,2) this] have "store_LoadState en' w' = Inr (Some ?st)" by (simp add: w')
  with assms(7) load_same have load: "store_LoadState en' v = Inr (Some ?st)"
    unfolding successor_def by metis
  have conn: "IsConnected ((fst v)\<lparr>se_sequence := q\<rparr>)" for q
    using assms(7) by (simp add: successor_def IsConnected_def)
  have sel: "st_expiry ?st = session_expiry (en_now en) (fst w)" "st_sequence ?st = se_sequence (fst w)"
    "st_topics ?st = Some (map (\<lambda>t. \<lparr>ts_topic = t, ts_qos = 0\<rparr>) (GetSubscribedTopics (fst w)))"
    by (simp_all add: collect_state_def GetSubscribedTopics_def GetAllTopics_def)
  from load assms(8) conn show ?thesis
    by (simp add: restoreState_def sel Let_def)
qed

lemma restore_result:
  assumes "store_healthy cl en w" and "store_healthy cl en' w" and "time_ok (en_now en)"
    and "time_ok (session_expiry (en_now en) (fst w))" and "names_ok (fst w)"
    and "saveState en w = (r, w')" and "successor v w'"
    and "en_now en' \<le> session_expiry (en_now en) (fst w)"
    and "\<And>j. at_error (at j 0) = None"
    and "restoreState en' at v = (r2, w2)"
  shows "r2 = Returned None
    \<and> se_handlers (fst w2) = restored_registry (GetSubscribedTopics (fst w)) (se_handlers (fst v))
    \<and> se_calls (fst w2)
        = se_calls (fst v) @ map (\<lambda>t. CSubscribe t 0 (RestoredHandler t)) (GetSubscribedTopics (fst w))
    \<and> se_sequence (fst w2) = se_sequence (fst w) \<and> se_opts (fst w2) = se_opts (fst v)"
proof -
  let ?v = "on_session (\<lambda>s. s\<lparr>se_sequence := se_sequence (fst w)\<rparr>) v"
  let ?ts = "map (\<lambda>t. \<lparr>ts_topic = t, ts_qos = 0\<rparr>) (GetSubscribedTopics (fst w))"
  have "IsConnected (fst ?v)" using assms(7) by (simp add: successor_def IsConnected_def)
  from resubscribe_all [of ?v at 0 ?ts, OF this assms(9)] restore_after_save [OF assms(1-8), of at] assms(10)
  show ?thesis by (auto simp: comp_def)
qed

lemma IsSubscribed_topics: "IsSubscribed s t \<longleftrightarrow> t \<in> set (GetSubscribedTopics s)"
  by (simp add: IsSubscribed_def GetSubscribedTopics_def GetAllTopics_def mget_None_iff)

subsection \<open>Properties\<close>

text \<open>
  C5. Subscriptions survive a restart: what \<open>saveState\<close> wrote for a session, a connected session
  of the same name over the same store restores before the expiry. If the broker accepts, it
  subscribes again to exactly the saved topics, in their order, has a handler for each of them,
  keeps its other handlers and takes over the sequence number. The QoS of every restored
  subscription is zero and its handler is the logging stub, whatever they were.
\<close>

theorem subscriptions_survive_restart:
  assumes "store_healthy cl en w" and "store_healthy cl en' w" and "time_ok (en_now en)"
    and "time_ok (session_expiry (en_now en) (fst w))" and "names_ok (fst w)"
    and "saveState en w = (r, w')" and "successor v w'"
    and "en_now en' \<le> session_expiry (en_now en) (fst w)"
    and "\<And>j. at_error (at j 0) = None"
  shows "\<exists>w2. restoreState en' at v = (Returned None, w2)
    \<and> (\<forall>t. GetMessageHandler (se_handlers (fst w2)) t =
          (if IsSubscribed (fst w) t then Some (RestoredHandler t) else GetMessageHandler (se_handlers (fst v)) t))
    \<and> se_calls (fst w2)
        = se_calls (fst v) @ map (\<lambda>t. CSubscribe t 0 (RestoredHandler t)) (GetSubscribedTopics (fst w))
    \<and> se_sequence (fst w2) = se_sequence (fst w)"
proof -
  obtain r2 w2 where rw: "restoreState en' at v = (r2, w2)" by (rule prod.exhaust)
  from restore_result [OF assms rw] rw show ?thesis
    by (intro exI [of _ w2]) (simp add: restored_lookup IsSubscribed_topics)
qed

text \<open>A connected session with two subscriptions, and the same name started anew.\<close>

definition busy_session :: session where
  "busy_session = sample_session\<lparr>se_status := stateConnected, se_sequence := 9,
     se_opts := (se_opts sample_session)\<lparr>op_connect := Some (DefaultConnectProps\<lparr>cp_persistent := True\<rparr>)\<rparr>,
     se_handlers := AddMessageHandler ''b'' (UserHandler 2) (AddMessageHandler ''a'' (UserHandler 1) newHandlerRegistry)\<rparr>"

lemma busy_ok:
  "store_healthy cl sample_env (busy_session, sample_hub)"
  "time_ok (en_now sample_env)" "time_ok (session_expiry (en_now sample_env) busy_session)"
  "en_now sample_env \<le> session_expiry (en_now sample_env) busy_session"
  "cp_persistent (sprops busy_session)" "cp_resume (sprops busy_session)"
  "GetSubscribedTopics busy_session = [''a'', ''b'']"
  by (auto simp: store_healthy_def busy_session_def plain_name_def time_ok_def session_expiry_def second_def
      sprops_def props_of_def DefaultConnectProps_def sample_session_def fresh_session_def
      DefaultOptions_def DefaultStorageOptions_def store_type_defs sample_env_def
      GetSubscribedTopics_def GetAllTopics_def newHandlerRegistry_def)

lemma busy_names: "names_ok busy_session"
  by (simp add: names_ok_def busy_ok(7))
    (simp add: busy_session_def sample_session_def fresh_session_def DefaultOptions_def)

theorem subscriptions_survive_restart_witness:
  "\<exists>w' w2. saveState sample_env (busy_session, sample_hub) = (None, w')
     \<and> restoreState sample_env (\<lambda>j. answers []) (sample_session\<lparr>se_status := stateConnected\<rparr>, snd w')
         = (Returned None, w2)
     \<and> se_calls (fst w2) = [CSubscribe ''a'' 0 (RestoredHandler ''a''), CSubscribe ''b'' 0 (RestoredHandler ''b'')]"
proof -
  let ?w = "(busy_session, sample_hub)" and ?s2 = "sample_session\<lparr>se_status := stateConnected\<rparr>"
  obtain r w' where sv: "saveState sample_env ?w = (r, w')" by (rule prod.exhaust)
  have st: "json_storable (collect_state (en_now sample_env) busy_session)"
    by (rule collect_state_storable) (rule busy_ok busy_names)+
  have r: "r = None" using store_then_load_save [OF busy_ok(1) busy_ok(1) st] sv by (simp add: saveState_def)
  have "se_store (fst w') = FilStore ''d'' \<and> se_name (fst w') = ''s''"
    using sv by (auto simp: saveState_def store_SaveState_def busy_session_def split: prod.splits)
  then have "successor (?s2, snd w') w'" by (simp add: successor_def same_backend_def IsConnected_def)
  from subscriptions_survive_restart [OF busy_ok(1) busy_ok(1,2) _ _ sv this, of "\<lambda>j. answers []"] busy_ok(3,4,7) busy_names
  show ?thesis using sv r by (auto simp: answers_def)
qed

text \<open>
  C36. The same on a reconnect of the session that saved: \<open>handleConnect\<close> of a persistent session
  that resumes its subscriptions replaces the handler the user registered for each saved topic by
  the stub that only logs, so that the messages no longer reach the user.
\<close>

theorem reconnect_replaces_handlers:
  assumes "store_healthy cl en w" and "store_healthy cl en' w" and "time_ok (en_now en)"
    and "time_ok (session_expiry (en_now en) (fst w))" and "names_ok (fst w)"
    and "en_now en' \<le> session_expiry (en_now en) (fst w)"
    and "cp_persistent (sprops (fst w))" and "cp_resume (sprops (fst w))"
    and "op_topics (se_opts (fst w)) = []"
    and "\<And>j. at_error (ra j 0) = None"
    and "IsSubscribed (fst w) t"
  shows "GetMessageHandler (se_handlers (fst (snd (handleConnect en' ra pa (snd (saveState en w)))))) t
    = Some (RestoredHandler t)"
proof -
  obtain r w' where sv: "saveState en w = (r, w')" by (rule prod.exhaust)
  have keep: "se_opts (fst w') = se_opts (fst w)"
    using sv store_SaveState_obs(3) [of en "Some (collect_state (en_now en) (fst w))" w]
    by (simp add: saveState_def)
  define w2 where "w2 = on_session (\<lambda>s. s\<lparr>se_reconnects := 0, se_next := 0\<rparr>) (setState (en_now en') stateConnected w')"
  have suc: "successor w2 w'"
    by (cases w') (simp add: w2_def successor_def IsConnected_def same_backend_def setState_def Let_def emit_hub_def)
  obtain r3 w3 where res: "restoreState en' ra w2 = (r3, w3)" by (rule prod.exhaust)
  from restore_result [OF assms(1-5) sv suc assms(6,10) res]
  have r3: "r3 = Returned None" and h3: "GetMessageHandler (se_handlers (fst w3)) t = Some (RestoredHandler t)"
    and o3: "se_opts (fst w3) = se_opts (fst w)"
    using assms(11) keep by (simp_all add: restored_lookup IsSubscribed_topics w2_def)
  have "handleConnect en' ra pa w' = finish_connect (en_now en') False w3"
    using assms(7,8,9) res r3 o3 by (simp add: handleConnect_def w2_def [symmetric] Let_def sprops_def keep)
  then show ?thesis using h3 sv by simp
qed

theorem reconnect_replaces_handlers_witness:
  "IsSubscribed busy_session ''a'' \<and> GetMessageHandler (se_handlers busy_session) ''a'' = Some (UserHandler 1)
   \<and> GetMessageHandler (se_handlers (fst (snd (handleConnect sample_env (\<lambda>j. answers []) (\<lambda>j. answers [])
        (snd (saveState sample_env (busy_session, sample_hub))))))) ''a'' = Some (RestoredHandler ''a'')"
proof -
  have sub: "IsSubscribed busy_session ''a''" by (simp add: IsSubscribed_topics busy_ok)
  have nop: "op_topics (se_opts busy_session) = []"
    by (simp add: busy_session_def sample_session_def fresh_session_def DefaultOptions_def)
  have "GetMessageHandler (se_handlers busy_session) ''a'' = Some (UserHandler 1)"
    by (simp add: busy_session_def registry.look_put)
  then show ?thesis
    using sub reconnect_replaces_handlers [OF busy_ok(1) busy_ok(1,2), of "\<lambda>j. answers []" "''a''" "\<lambda>j. answers []"]
      busy_ok(3,4,5,6) nop busy_names
    by (simp add: answers_def)
qed

text \<open>
  An expired state is not restored: it is deleted from the store, nothing is sent to the
  broker, and the session's handlers and sequence number are as before.
\<close>

theorem expired_state_deleted:
  assumes "store_healthy cl en w" and "store_LoadState en w = Inr (Some st)"
    and "\<not> IsZero (st_expiry st)" and "en_now en > st_expiry st"
  shows "\<exists>w'. restoreState en at w = (Returned None, w') \<and> store_LoadState en w' = Inr None
    \<and> se_calls (fst w') = se_calls (fst w) \<and> se_handlers (fst w') = se_handlers (fst w)
    \<and> se_sequence (fst w') = se_sequence (fst w) \<and> se_status (fst w') = se_status (fst w)"
proof -
  obtain r w' where del: "store_DeleteState en w = (r, w')" by (rule prod.exhaust)
  from store_DeleteState_frame [OF del] have eq: "fst w' = (fst w)\<lparr>se_store := se_store (fst w')\<rparr>" by blast
  have "restoreState en at w = (Returned None, w')"
    using assms(2-4) del by (simp add: restoreState_def)
  moreover have "store_LoadState en w' = Inr None" using store_then_load_delete [OF assms(1)] del by simp
  moreover have "se_calls (fst w') = se_calls (fst w)" "se_handlers (fst w') = se_handlers (fst w)"
    "se_sequence (fst w') = se_sequence (fst w)" "se_status (fst w') = se_status (fst w)"
    by (subst eq, simp)+
  ultimately show ?thesis by blast
qed

theorem expired_state_deleted_witness:
  "\<exists>w'. restoreState sample_env (\<lambda>j. answers [])
        (busy_session\<lparr>se_store := MemStore [(''s'', Some (sample_state\<lparr>st_expiry := 99\<rparr>))]\<rparr>, sample_hub)
      = (Returned None, w') \<and> store_LoadState sample_env w' = Inr None"
proof -
  let ?w = "(busy_session\<lparr>se_store := MemStore [(''s'', Some (sample_state\<lparr>st_expiry := 99\<rparr>))]\<rparr>, sample_hub)"
  have "store_LoadState sample_env ?w = Inr (Some (sample_state\<lparr>st_expiry := 99\<rparr>))"
    by (simp add: store_LoadState_def MemoryStore_LoadState_def busy_session_def)
  moreover have "\<not> IsZero 99" by (simp add: IsZero_def zero_time_def second_def)
  moreover have "store_healthy mock_client sample_env ?w" by (simp add: store_healthy_def)
  ultimately show ?thesis using expired_state_deleted [of mock_client sample_env ?w] by fastforce
qed

text \<open>
  A subscription that cannot be renewed after a restart is lost for good: when the broker
  accepts the first of two saved topics and refuses the second, the state stored afterwards lists
  the first topic only, since every successful subscription saves the registry built so far.
\<close>

theorem refused_topic_forgotten:
  assumes "store_healthy cl en w" and "store_healthy cl en' w" and "store_LoadState en w = Inr (Some st)"
    and "st_topics st = Some [\<lparr>ts_topic = a, ts_qos = qa\<rparr>, \<lparr>ts_topic = b, ts_qos = qb\<rparr>]"
    and "IsConnected (fst w)" and "se_handlers (fst w) = newHandlerRegistry"
    and "cp_persistent (sprops (fst w))" and "en_now en \<le> st_expiry st"
    and "at_error (at 0 0) = None" and "at_env (at 0 0) = en'"
    and "calm (at 1)" and "length (failures (at 1)) = 3"
    and "time_ok (en_now en')" and "time_ok (session_expiry (en_now en') (fst w))"
    and "valid_utf8 a" and "valid_utf8 (op_client_id (se_opts (fst w)))"
  shows "\<exists>st'. store_LoadState en' (snd (restoreState en at w)) = Inr (Some st')
    \<and> st_topics st' = Some [\<lparr>ts_topic = a, ts_qos = 0\<rparr>]"
proof -
  let ?w1 = "on_session (\<lambda>s. s\<lparr>se_sequence := st_sequence st\<rparr>) w"
  let ?w2 = "on_session (record_call (CSubscribe a qa (RestoredHandler a))) ?w1"
  let ?w3 = "on_session (\<lambda>s. s\<lparr>se_handlers := AddMessageHandler a (RestoredHandler a) (se_handlers s)\<rparr>) ?w2"
  let ?st' = "collect_state (en_now en') (fst ?w3)"
  let ?w4 = "subscribed en' a (RestoredHandler a) ?w2"
  have w4: "?w4 = snd (store_SaveState en' (Some ?st') ?w3)"
    using assms(7) by (simp add: subscribed_def save_if_persistent_def saveState_def sprops_def)
  have "IsConnected (fst ?w1)" using assms(5) by (simp add: IsConnected_def)
  then have first: "snd (Subscribe (at 0) a (RestoredHandler a) qa ?w1) = ?w4"
    using assms(9,10) by (simp add: Subscribe_first)
  have conn4: "IsConnected (fst ?w4)" using assms(5) by (simp add: IsConnected_def subscribed_fields)
  define w5 where "w5 = snd (Subscribe (at 1) b (RestoredHandler b) qb ?w4)"
  from Subscribe_online [OF assms(11) conn4 w5_def [symmetric]] assms(12)
  have w5: "se_store (fst w5) = se_store (fst ?w4)" "snd w5 = snd ?w4" by simp_all
  have nm: "obs_inv (\<lambda>u. se_name (fst u) = n)" for n
    using prim_name by (auto simp: obs_inv_def)
  have "keeps (\<lambda>u. se_name (fst u) = n) (at 1)" for n
    using assms(11) by (simp add: keeps_def calm_def)
  from obs_Subscribe [OF nm this] have "se_name (fst w5) = se_name (fst ?w4)" unfolding w5_def by blast
  with w5 have bk: "same_backend w5 ?w4" by (simp add: same_backend_def)
  have "session_expiry (en_now en') (fst ?w3) = session_expiry (en_now en') (fst w)"
    by (simp add: session_expiry_def sprops_def)
  with assms(14) have "time_ok (session_expiry (en_now en') (fst ?w3))" by argo
  moreover have "names_ok (fst ?w3)"
    using assms(6,15,16)
    by (simp add: names_ok_def GetSubscribedTopics_def GetAllTopics_def AddMessageHandler_def newHandlerRegistry_def)
  ultimately have js: "json_storable ?st'" by (rule collect_state_storable [OF assms(13)])
  have "same_backend ?w3 w" by (simp add: same_backend_def)
  then have h3: "store_healthy cl en' ?w3" using assms(2) by (simp only: healthy_same)
  have "store_LoadState en' ?w4 = Inr (Some ?st')"
    unfolding w4 by (rule conjunct2 [OF store_then_load_save [OF h3 h3 js]])
  then have load: "store_LoadState en' w5 = Inr (Some ?st')" unfolding load_same [OF bk] .
  have "st_topics ?st' = Some [\<lparr>ts_topic = a, ts_qos = 0\<rparr>]"
    using assms(6) by (simp add: collect_state_def newHandlerRegistry_def)
  moreover have "snd (restoreState en at w) = w5"
  proof -
    have "resubscribe 0 at [\<lparr>ts_topic = a, ts_qos = qa\<rparr>, \<lparr>ts_topic = b, ts_qos = qb\<rparr>] ?w1 = w5"
      using first by (simp add: w5_def)
    moreover have "IsConnected ((fst w)\<lparr>se_sequence := q\<rparr>)" for q
      using assms(5) by (simp add: IsConnected_def)
    ultimately show ?thesis using assms(3,4,8) by (simp add: restoreState_def Let_def)
  qed
  ultimately show ?thesis using load by blast
qed

text \<open>The broker accepts the first topic and refuses the second three times.\<close>

definition refusing :: "nat \<Rightarrow> nat \<Rightarrow> (mock_redis, 'w) attempt" where
  "refusing j = answers (if j = 1 then replicate 3 (Some (NewErr ''refused'')) else [])"

definition restarted_session :: session where
  "restarted_session = busy_session\<lparr>se_handlers := newHandlerRegistry,
     se_store := MemStore [(''s'', Some (sample_state\<lparr>st_expiry := 200,
       st_topics := Some [\<lparr>ts_topic = ''a'', ts_qos = 1\<rparr>, \<lparr>ts_topic = ''b'', ts_qos = 1\<rparr>]\<rparr>))]\<rparr>"

theorem refused_topic_forgotten_witness:
  "\<exists>st'. store_LoadState sample_env (snd (restoreState sample_env refusing (restarted_session, sample_hub)))
      = Inr (Some st') \<and> st_topics st' = Some [\<lparr>ts_topic = ''a'', ts_qos = 0\<rparr>]"
proof -
  let ?w = "(restarted_session, sample_hub)" and ?st = "sample_state\<lparr>st_expiry := 200,
       st_topics := Some [\<lparr>ts_topic = ''a'', ts_qos = 1\<rparr>, \<lparr>ts_topic = ''b'', ts_qos = 1\<rparr>]\<rparr>"
  have load: "store_LoadState sample_env ?w = Inr (Some ?st)"
    by (simp add: store_LoadState_def MemoryStore_LoadState_def restarted_session_def busy_session_def)
  have fails: "length (failures (refusing 1)) = 3" "calm (refusing 1)" "at_error (refusing 0 0) = None"
    "at_env (refusing 0 0) = sample_env"
    by (simp_all add: failures_def upt_3 refusing_def answers_def numeral_3_eq_3 calm_def)
  have heal: "store_healthy mock_client sample_env ?w" by (simp add: store_healthy_def restarted_session_def)
  have sess: "IsConnected restarted_session" "se_handlers restarted_session = newHandlerRegistry"
    "cp_persistent (sprops restarted_session)"
    "session_expiry (en_now sample_env) restarted_session = session_expiry (en_now sample_env) busy_session"
    using busy_ok(5)
    by (simp_all add: restarted_session_def busy_session_def IsConnected_def session_expiry_def sprops_def)
  show ?thesis
    using refused_topic_forgotten [OF heal heal load, of "''a''" 1 "''b''" 1 refusing] fails sess busy_ok(2,3)
      busy_names by (simp add: names_ok_def restarted_session_def)
qed

end
