(* ===== verification/EnhancedAuth.thy ===== *)
theory EnhancedAuth
  imports Sessions
begin

text \<open>
  The enhanced authentication of MQTT 5.0 (\<open>mqtt5_auth.go\<close>): four providers behind the
  interface \<open>AuthProvider\<close>, and the manager that drives one of them. The interface is a
  record of methods, as the code calls a provider through its method table, so the manager is
  the same for every provider; the contract the four of them share is the locale
  \<open>auth_mechanism\<close>. The HMAC of the standard library is a parameter.
\<close>

subsection \<open>States and the interface\<close>

datatype auth_state = AuthStateNone | AuthStateInProgress | AuthStateSuccess | AuthStateFailed

text \<open>A method that changes its receiver returns it; the time is an argument where a method asks for it.\<close>

record 'p auth_provider =
  ap_method :: "'p \<Rightarrow> string"
  ap_initialize :: "int \<Rightarrow> 'p \<Rightarrow> (goerr + payload) \<times> 'p"
  ap_challenge :: "payload \<Rightarrow> 'p \<Rightarrow> (goerr + payload) \<times> 'p"
  ap_complete :: "payload \<Rightarrow> 'p \<Rightarrow> (goerr + bool) \<times> 'p"

definition auth_failure :: "string \<Rightarrow> string \<Rightarrow> goerr" where
  "auth_failure method msg = AuthError method msg None"

subsection \<open>Plain\<close>

definition AuthMethodPlain :: string where "AuthMethodPlain = ''PLAIN''"
definition AuthMethodSHA256 :: string where "AuthMethodSHA256 = ''SHA-256''"
definition AuthMethodOAuth2 :: string where "AuthMethodOAuth2 = ''oauth2''"
definition AuthMethodJWT :: string where "AuthMethodJWT = ''jwt''"

record plain_auth =
  pa_username :: string
  pa_password :: string
  pa_state :: auth_state

definition NewPlainAuthProvider :: "string \<Rightarrow> string \<Rightarrow> plain_auth" where
  "NewPlainAuthProvider user pass = \<lparr>pa_username = user, pa_password = pass, pa_state = AuthStateNone\<rparr>"

definition plain_data :: "string \<Rightarrow> string \<Rightarrow> payload" where
  "plain_data user pass = user @ char_of (0::nat) # pass"

definition Plain_Initialize :: "plain_auth \<Rightarrow> (goerr + payload) \<times> plain_auth" where
  "Plain_Initialize p =
     (Inr (plain_data (pa_username p) (pa_password p)), p\<lparr>pa_state := AuthStateInProgress\<rparr>)"

definition Plain_HandleChallenge :: "payload \<Rightarrow> plain_auth \<Rightarrow> (goerr + payload) \<times> plain_auth" where
  "Plain_HandleChallenge bs p =
     (Inl (auth_failure AuthMethodPlain ''plain authentication does not support challenge-response''), p)"

definition Plain_Complete :: "payload \<Rightarrow> plain_auth \<Rightarrow> (goerr + bool) \<times> plain_auth" where
  "Plain_Complete bs p =
     (if length bs = 0 then (Inr True, p\<lparr>pa_state := AuthStateSuccess\<rparr>)
      else (Inl (auth_failure AuthMethodPlain ''authentication failed''), p\<lparr>pa_state := AuthStateFailed\<rparr>))"

definition plain_provider :: "plain_auth auth_provider" where
  "plain_provider =
     \<lparr>ap_method = (\<lambda>p. AuthMethodPlain), ap_initialize = (\<lambda>now. Plain_Initialize),
      ap_challenge = Plain_HandleChallenge, ap_complete = Plain_Complete\<rparr>"

subsection \<open>SHA-256\<close>

record sha_auth =
  sa_username :: string
  sa_password :: string
  sa_salt :: payload
  sa_state :: auth_state

definition NewSHA256AuthProvider :: "string \<Rightarrow> string \<Rightarrow> sha_auth" where
  "NewSHA256AuthProvider user pass =
     \<lparr>sa_username = user, sa_password = pass, sa_salt = [], sa_state = AuthStateNone\<rparr>"

definition SHA256_Initialize :: "sha_auth \<Rightarrow> (goerr + payload) \<times> sha_auth" where
  "SHA256_Initialize p = (Inr (sa_username p), p\<lparr>sa_state := AuthStateInProgress\<rparr>)"

definition SHA256_HandleChallenge ::
  "(payload \<Rightarrow> payload \<Rightarrow> payload) \<Rightarrow> payload \<Rightarrow> sha_auth \<Rightarrow> (goerr + payload) \<times> sha_auth" where
  "SHA256_HandleChallenge hmac bs p =
     (if length bs = 0 then (Inl (auth_failure AuthMethodSHA256 ''empty challenge data''), p)
      else let p1 = p\<lparr>sa_salt := bs\<rparr> in (Inr (hmac (sa_password p1) (sa_salt p1)), p1))"

definition SHA256_Complete :: "payload \<Rightarrow> sha_auth \<Rightarrow> (goerr + bool) \<times> sha_auth" where
  "SHA256_Complete bs p =
     (if length bs = 0 then (Inr True, p\<lparr>sa_state := AuthStateSuccess\<rparr>)
      else (Inl (auth_failure AuthMethodSHA256 ''authentication failed''), p\<lparr>sa_state := AuthStateFailed\<rparr>))"

definition sha_provider :: "(payload \<Rightarrow> payload \<Rightarrow> payload) \<Rightarrow> sha_auth auth_provider" where
  "sha_provider hmac =
     \<lparr>ap_method = (\<lambda>p. AuthMethodSHA256), ap_initialize = (\<lambda>now. SHA256_Initialize),
      ap_challenge = SHA256_HandleChallenge hmac, ap_complete = SHA256_Complete\<rparr>"

subsection \<open>JWT\<close>

record jwt_auth =
  ja_token :: string
  ja_state :: auth_state

definition NewJWTAuthProvider :: "string \<Rightarrow> jwt_auth" where
  "NewJWTAuthProvider token = \<lparr>ja_token = token, ja_state = AuthStateNone\<rparr>"

definition JWT_Initialize :: "jwt_auth \<Rightarrow> (goerr + payload) \<times> jwt_auth" where
  "JWT_Initialize p = (Inr (ja_token p), p\<lparr>ja_state := AuthStateInProgress\<rparr>)"

definition JWT_HandleChallenge :: "payload \<Rightarrow> jwt_auth \<Rightarrow> (goerr + payload) \<times> jwt_auth" where
  "JWT_HandleChallenge bs p =
     (Inl (auth_failure AuthMethodJWT ''JWT authentication does not support challenge-response''), p)"

definition JWT_Complete :: "payload \<Rightarrow> jwt_auth \<Rightarrow> (goerr + bool) \<times> jwt_auth" where
  "JWT_Complete bs p =
     (if length bs = 0 then (Inr True, p\<lparr>ja_state := AuthStateSuccess\<rparr>)
      else (Inl (auth_failure AuthMethodJWT ''authentication failed''), p\<lparr>ja_state := AuthStateFailed\<rparr>))"

definition jwt_provider :: "jwt_auth auth_provider" where
  "jwt_provider =
     \<lparr>ap_method = (\<lambda>p. AuthMethodJWT), ap_initialize = (\<lambda>now. JWT_Initialize),
      ap_challenge = JWT_HandleChallenge, ap_complete = JWT_Complete\<rparr>"

subsection \<open>OAuth 2.0\<close>

record oauth_auth =
  oa_access :: string
  oa_refresh :: string
  oa_expires :: int
  oa_state :: auth_state

definition NewOAuth2AuthProvider :: "int \<Rightarrow> string \<Rightarrow> string \<Rightarrow> int \<Rightarrow> oauth_auth" where
  "NewOAuth2AuthProvider now access refresh expiresIn =
     \<lparr>oa_access = access, oa_refresh = refresh, oa_expires = now + expiresIn, oa_state = AuthStateNone\<rparr>"

definition OAuth2_Initialize :: "int \<Rightarrow> oauth_auth \<Rightarrow> (goerr + payload) \<times> oauth_auth" where
  "OAuth2_Initialize now p =
     (if \<not> IsZero (oa_expires p) \<and> now > oa_expires p
      then (Inl (auth_failure AuthMethodOAuth2 ''access token expired''), p)
      else (Inr (oa_access p), p\<lparr>oa_state := AuthStateInProgress\<rparr>))"

definition OAuth2_HandleChallenge :: "payload \<Rightarrow> oauth_auth \<Rightarrow> (goerr + payload) \<times> oauth_auth" where
  "OAuth2_HandleChallenge bs p =
     (Inl (auth_failure AuthMethodOAuth2 ''OAuth 2.0 authentication does not support challenge-response''), p)"

definition OAuth2_Complete :: "payload \<Rightarrow> oauth_auth \<Rightarrow> (goerr + bool) \<times> oauth_auth" where
  "OAuth2_Complete bs p =
     (if length bs = 0 then (Inr True, p\<lparr>oa_state := AuthStateSuccess\<rparr>)
      else (Inl (auth_failure AuthMethodOAuth2 ''authentication failed''), p\<lparr>oa_state := AuthStateFailed\<rparr>))"

definition oauth_provider :: "oauth_auth auth_provider" where
  "oauth_provider =
     \<lparr>ap_method = (\<lambda>p. AuthMethodOAuth2), ap_initialize = OAuth2_Initialize,
      ap_challenge = OAuth2_HandleChallenge, ap_complete = OAuth2_Complete\<rparr>"

subsection \<open>The manager\<close>

record 'p auth_manager =
  am_provider :: "'p option"
  am_state :: auth_state

definition NewMQTT5AuthManager :: "'p option \<Rightarrow> 'p auth_manager" where
  "NewMQTT5AuthManager p = \<lparr>am_provider = p, am_state = AuthStateNone\<rparr>"

definition StartAuth ::
  "'p auth_provider \<Rightarrow> int \<Rightarrow> 'p auth_manager \<Rightarrow> (goerr + string \<times> payload) \<times> 'p auth_manager" where
  "StartAuth ap now m =
     (case am_provider m of
        None \<Rightarrow> (Inl (NewErr ''no authentication provider configured''), m)
      | Some p \<Rightarrow>
          (case ap_initialize ap now p of
             (Inl e, p1) \<Rightarrow> (Inl e, m\<lparr>am_provider := Some p1\<rparr>)
           | (Inr bs, p1) \<Rightarrow>
               (Inr (ap_method ap p1, bs), m\<lparr>am_provider := Some p1, am_state := AuthStateInProgress\<rparr>)))"

definition HandleAuth ::
  "'p auth_provider \<Rightarrow> payload \<Rightarrow> 'p auth_manager \<Rightarrow> (goerr + payload) \<times> 'p auth_manager" where
  "HandleAuth ap bs m =
     (case am_provider m of
        None \<Rightarrow> (Inl (NewErr ''no authentication provider configured''), m)
      | Some p \<Rightarrow>
          if am_state m \<noteq> AuthStateInProgress then (Inl (NewErr ''authentication not in progress''), m)
          else (case ap_challenge ap bs p of (r, p1) \<Rightarrow> (r, m\<lparr>am_provider := Some p1\<rparr>)))"

definition CompleteAuth ::
  "'p auth_provider \<Rightarrow> payload \<Rightarrow> 'p auth_manager \<Rightarrow> (goerr + bool) \<times> 'p auth_manager" where
  "CompleteAuth ap bs m =
     (case am_provider m of
        None \<Rightarrow> (Inl (NewErr ''no authentication provider configured''), m)
      | Some p \<Rightarrow>
          if am_state m \<noteq> AuthStateInProgress then (Inl (NewErr ''authentication not in progress''), m)
          else
            (case ap_complete ap bs p of
               (Inl e, p1) \<Rightarrow> (Inl e, m\<lparr>am_provider := Some p1, am_state := AuthStateFailed\<rparr>)
             | (Inr success, p1) \<Rightarrow>
                 (Inr success, m\<lparr>am_provider := Some p1,
                    am_state := (if success then AuthStateSuccess else AuthStateFailed)\<rparr>)))"

definition GetState :: "'p auth_manager \<Rightarrow> auth_state" where
  "GetState m = am_state m"

definition GetMethod :: "'p auth_provider \<Rightarrow> 'p auth_manager \<Rightarrow> string" where
  "GetMethod ap m = (case am_provider m of None \<Rightarrow> [] | Some p \<Rightarrow> ap_method ap p)"

text \<open>
  \<open>Session.WithEnhancedAuth\<close> drives a manager of its own, which nothing keeps; a nil provider
  (\<open>None\<close>) fails in \<open>StartAuth\<close>, after the MQTT 5.0 options have been put in place.
\<close>

definition session_WithEnhancedAuth ::
  "'p auth_provider \<Rightarrow> int \<Rightarrow> 'p option \<Rightarrow> session \<Rightarrow> session \<times> 'p option" where
  "session_WithEnhancedAuth ap now provider s =
     (let s1 = (if op_mqtt5 (se_opts s) = None
                then s\<lparr>se_opts := WithMQTT5 DefaultMQTT5Config (se_opts s)\<rparr> else s)
      in case StartAuth ap now (NewMQTT5AuthManager provider) of
           (Inl e, m) \<Rightarrow> (s1, am_provider m)
         | (Inr (method, bs), m) \<Rightarrow>
             (s1\<lparr>se_opts := WithEnhancedAuth (Some (NewMQTT5Auth method (Some bs))) (se_opts s1)\<rparr>,
              am_provider m))"

text \<open>
  \<open>generateRandomBytes\<close>: a negative length panics in \<open>make\<close>; \<open>rd\<close> is what reading that
  many bytes from the random source gives.
\<close>

definition generateRandomBytes :: "(nat \<Rightarrow> goerr + payload) \<Rightarrow> int \<Rightarrow> payload outcome" where
  "generateRandomBytes rd n =
     (if n < 0 then Panic
      else case rd (nat n) of Inl e \<Rightarrow> Fail e | Inr bs \<Rightarrow> Done bs)"

subsection \<open>The contract of a provider\<close>

text \<open>
  What the four providers promise the manager: a successful \<open>Initialize\<close> puts the provider in
  progress and a failed one changes no state, a challenge changes no state, and \<open>Complete\<close> ends
  in success exactly for an empty answer and in failure, with an error, for any other.
\<close>

locale auth_mechanism =
  fixes ap :: "'p auth_provider"
    and pstate :: "'p \<Rightarrow> auth_state"
  assumes init: "pstate (snd (ap_initialize ap now p)) =
      (case fst (ap_initialize ap now p) of Inl e \<Rightarrow> pstate p | Inr bs \<Rightarrow> AuthStateInProgress)"
    and challenge: "pstate (snd (ap_challenge ap bs p)) = pstate p"
    and complete_ok: "ap_complete ap [] p = (r, p') \<Longrightarrow> r = Inr True \<and> pstate p' = AuthStateSuccess"
    and complete_bad: "bs \<noteq> [] \<Longrightarrow> ap_complete ap bs p = (r, p') \<Longrightarrow>
      (\<exists>e. r = Inl e) \<and> pstate p' = AuthStateFailed"
begin

text \<open>The state the manager shows is the state of its provider.\<close>

definition agree :: "'p auth_manager \<Rightarrow> bool" where
  "agree m \<longleftrightarrow> (\<exists>p. am_provider m = Some p \<and> pstate p = am_state m)"

lemma StartAuth_agree: "agree m \<Longrightarrow> agree (snd (StartAuth ap now m))"
  using init [of now "the (am_provider m)"]
  by (auto simp: agree_def StartAuth_def split: prod.split sum.split)

lemma HandleAuth_agree: "agree m \<Longrightarrow> agree (snd (HandleAuth ap bs m))"
  using challenge [of bs "the (am_provider m)"]
  by (auto simp: agree_def HandleAuth_def split: prod.split)

lemma CompleteAuth_agree: "agree m \<Longrightarrow> agree (snd (CompleteAuth ap bs m))"
  using complete_ok complete_bad [of bs]
  by (cases "bs = []") (fastforce simp: agree_def CompleteAuth_def split: prod.split sum.split)+

lemma CompleteAuth_result:
  "am_provider m \<noteq> None \<Longrightarrow>
     am_state (snd (CompleteAuth ap bs m)) =
       (if am_state m \<noteq> AuthStateInProgress then am_state m
        else if bs = [] then AuthStateSuccess else AuthStateFailed)"
  using complete_ok complete_bad [of bs]
  by (cases "bs = []") (fastforce simp: CompleteAuth_def split: prod.split sum.split)+

end

text \<open>
  A mechanism whose \<open>Initialize\<close> accepts by a test of the time that the run does not change
  (the expiry of a token).
\<close>

locale timed_mechanism = auth_mechanism +
  fixes valid :: "int \<Rightarrow> 'a \<Rightarrow> bool"
  assumes accepts: "(case fst (ap_initialize ap now p) of Inl e \<Rightarrow> False | Inr bs \<Rightarrow> True) \<longleftrightarrow> valid now p"
    and valid_initialize: "valid t (snd (ap_initialize ap now p)) = valid t p"
    and valid_challenge: "valid t (snd (ap_challenge ap bs p)) = valid t p"
    and valid_complete: "valid t (snd (ap_complete ap bs p)) = valid t p"
begin

lemma StartAuth_result:
  "am_provider m = Some p \<Longrightarrow>
     am_state (snd (StartAuth ap now m)) = (if valid now p then AuthStateInProgress else am_state m)"
  using accepts [of now p] by (auto simp: StartAuth_def split: prod.split sum.split)

definition tracks :: "'a \<Rightarrow> 'a auth_manager \<Rightarrow> bool" where
  "tracks p0 m \<longleftrightarrow> (\<exists>p. am_provider m = Some p \<and> (\<forall>t. valid t p = valid t p0))"

lemma StartAuth_tracks: "tracks p0 m \<Longrightarrow> tracks p0 (snd (StartAuth ap now m))"
  using valid_initialize [of _ now "the (am_provider m)"]
  by (auto simp: tracks_def StartAuth_def split: prod.split sum.split)

lemma HandleAuth_tracks: "tracks p0 m \<Longrightarrow> tracks p0 (snd (HandleAuth ap bs m))"
  using valid_challenge [of _ bs "the (am_provider m)"]
  by (auto simp: tracks_def HandleAuth_def split: prod.split)

lemma CompleteAuth_tracks: "tracks p0 m \<Longrightarrow> tracks p0 (snd (CompleteAuth ap bs m))"
  using valid_complete [of _ bs "the (am_provider m)"]
  by (auto simp: tracks_def CompleteAuth_def split: prod.split sum.split)

end

subsection \<open>The providers keep the contract\<close>

lemmas auth_defs =
  plain_provider_def Plain_Initialize_def Plain_HandleChallenge_def Plain_Complete_def
  sha_provider_def SHA256_Initialize_def SHA256_HandleChallenge_def SHA256_Complete_def
  jwt_provider_def JWT_Initialize_def JWT_HandleChallenge_def JWT_Complete_def
  oauth_provider_def OAuth2_Initialize_def OAuth2_HandleChallenge_def OAuth2_Complete_def

definition token_valid :: "int \<Rightarrow> oauth_auth \<Rightarrow> bool" where
  "token_valid now p \<longleftrightarrow> IsZero (oa_expires p) \<or> now \<le> oa_expires p"

interpretation plain: timed_mechanism plain_provider pa_state "\<lambda>now p. True"
  by unfold_locales (auto simp: auth_defs)

interpretation sha: timed_mechanism "sha_provider hmac" sa_state "\<lambda>now p. True" for hmac
  by unfold_locales (auto simp: auth_defs Let_def)

interpretation jwt: timed_mechanism jwt_provider ja_state "\<lambda>now p. True"
  by unfold_locales (auto simp: auth_defs)

interpretation oauth: timed_mechanism oauth_provider oa_state token_valid
  by unfold_locales (auto simp: auth_defs token_valid_def)

subsection \<open>Runs\<close>

datatype auth_call = CallStart int | CallHandle payload | CallComplete payload

fun auth_step :: "'p auth_provider \<Rightarrow> 'p auth_manager \<Rightarrow> auth_call \<Rightarrow> 'p auth_manager" where
  "auth_step ap m (CallStart now) = snd (StartAuth ap now m)"
| "auth_step ap m (CallHandle bs) = snd (HandleAuth ap bs m)"
| "auth_step ap m (CallComplete bs) = snd (CompleteAuth ap bs m)"

text \<open>The specification: an automaton over the four states.\<close>

fun auth_fsm :: "(int \<Rightarrow> bool) \<Rightarrow> auth_state \<Rightarrow> auth_call \<Rightarrow> auth_state" where
  "auth_fsm ok s (CallStart now) = (if ok now then AuthStateInProgress else s)"
| "auth_fsm ok s (CallHandle bs) = s"
| "auth_fsm ok s (CallComplete bs) =
     (if s \<noteq> AuthStateInProgress then s else if bs = [] then AuthStateSuccess else AuthStateFailed)"

context timed_mechanism
begin

lemma step_refines:
  assumes "tracks p0 m"
  shows "am_state (auth_step ap m x) = auth_fsm (\<lambda>now. valid now p0) (am_state m) x"
proof (cases x)
  case (CallStart now)
  from assms obtain p where "am_provider m = Some p" "\<forall>t. valid t p = valid t p0"
    by (auto simp: tracks_def)
  with StartAuth_result [of m p now] CallStart show ?thesis by simp
next
  case (CallHandle bs)
  with assms show ?thesis by (auto simp: tracks_def HandleAuth_def split: prod.split)
next
  case (CallComplete bs)
  with assms CompleteAuth_result [of m bs] show ?thesis by (auto simp: tracks_def)
qed

lemma run_refines:
  "tracks p0 m \<Longrightarrow> agree m \<Longrightarrow>
     am_state (foldl (auth_step ap) m xs) = foldl (auth_fsm (\<lambda>now. valid now p0)) (am_state m) xs
     \<and> agree (foldl (auth_step ap) m xs)"
proof (induction xs arbitrary: m)
  case Nil
  then show ?case by simp
next
  case (Cons x xs)
  have "tracks p0 (auth_step ap m x)" using Cons.prems(1)
    by (cases x) (simp_all add: StartAuth_tracks HandleAuth_tracks CompleteAuth_tracks)
  moreover have "agree (auth_step ap m x)" using Cons.prems(2)
    by (cases x) (simp_all add: StartAuth_agree HandleAuth_agree CompleteAuth_agree)
  ultimately show ?case
    using Cons.IH [of "auth_step ap m x"] step_refines [OF Cons.prems(1), of x] by simp
qed

lemma manager_refines:
  assumes "pstate p = AuthStateNone"
  shows "let m = foldl (auth_step ap) (NewMQTT5AuthManager (Some p)) xs;
             st = foldl (auth_fsm (\<lambda>now. valid now p)) AuthStateNone xs
         in GetState m = st \<and> map_option pstate (am_provider m) = Some st"
  using run_refines [of p "NewMQTT5AuthManager (Some p)" xs] assms
  by (auto simp: tracks_def agree_def NewMQTT5AuthManager_def GetState_def Let_def)

end

lemma fsm_started:
  "foldl (auth_fsm ok) s ys = AuthStateInProgress \<Longrightarrow> s \<noteq> AuthStateInProgress \<Longrightarrow>
     \<exists>as now bs. ys = as @ CallStart now # bs \<and> ok now"
proof (induction ys rule: rev_induct)
  case Nil
  then show ?case by simp
next
  case (snoc y ys)
  then show ?case by (cases y) (force split: if_splits)+
qed

lemma fsm_success:
  "foldl (auth_fsm ok) s xs = AuthStateSuccess \<Longrightarrow> s = AuthStateNone \<Longrightarrow>
     \<exists>as now bs cs. xs = as @ CallStart now # bs @ CallComplete [] # cs \<and> ok now"
proof (induction xs rule: rev_induct)
  case Nil
  then show ?case by simp
next
  case (snoc x xs)
  show ?case
  proof (cases "foldl (auth_fsm ok) s xs = AuthStateSuccess")
    case True
    with snoc.IH snoc.prems(2) show ?thesis by force
  next
    case False
    with snoc.prems(1) have x: "x = CallComplete []" "foldl (auth_fsm ok) s xs = AuthStateInProgress"
      by (cases x; auto split: if_splits)+
    from fsm_started [OF x(2)] x(1) snoc.prems(2) show ?thesis by force
  qed
qed

subsection \<open>Properties\<close>

text \<open>
  C14. With each of the four providers the authentication manager refines one automaton over the
  four states, whatever sequence of calls is made: the state it shows and the state of its
  provider both are the automaton's (for OAuth 2.0 a start is accepted while the token is valid).
\<close>

theorem auth_manager_refines_automaton:
  "(let m = foldl (auth_step plain_provider) (NewMQTT5AuthManager (Some (NewPlainAuthProvider user pass))) xs;
        st = foldl (auth_fsm (\<lambda>now. True)) AuthStateNone xs
    in GetState m = st \<and> map_option pa_state (am_provider m) = Some st)
   \<and> (let m = foldl (auth_step (sha_provider hmac))
                (NewMQTT5AuthManager (Some (NewSHA256AuthProvider user pass))) xs;
          st = foldl (auth_fsm (\<lambda>now. True)) AuthStateNone xs
      in GetState m = st \<and> map_option sa_state (am_provider m) = Some st)
   \<and> (let m = foldl (auth_step jwt_provider) (NewMQTT5AuthManager (Some (NewJWTAuthProvider token))) xs;
          st = foldl (auth_fsm (\<lambda>now. True)) AuthStateNone xs
      in GetState m = st \<and> map_option ja_state (am_provider m) = Some st)
   \<and> (let p = NewOAuth2AuthProvider t0 access refresh expires;
          m = foldl (auth_step oauth_provider) (NewMQTT5AuthManager (Some p)) xs;
          st = foldl (auth_fsm (\<lambda>now. token_valid now p)) AuthStateNone xs
      in GetState m = st \<and> map_option oa_state (am_provider m) = Some st)"
  using plain.manager_refines [of "NewPlainAuthProvider user pass" xs]
    sha.manager_refines [of "NewSHA256AuthProvider user pass" hmac xs]
    jwt.manager_refines [of "NewJWTAuthProvider token" xs]
    oauth.manager_refines [of "NewOAuth2AuthProvider t0 access refresh expires" xs]
  by (simp add: Let_def NewPlainAuthProvider_def NewSHA256AuthProvider_def NewJWTAuthProvider_def
      NewOAuth2AuthProvider_def)

text \<open>
  An OAuth 2.0 authentication succeeds only by an accepted start, with a token that had not
  expired at that time, and an empty final answer after it.
\<close>

theorem oauth_success_needs_valid_token:
  assumes "GetState (foldl (auth_step oauth_provider) (NewMQTT5AuthManager (Some p)) xs) = AuthStateSuccess"
    and "oa_state p = AuthStateNone"
  shows "\<exists>as now bs cs. xs = as @ CallStart now # bs @ CallComplete [] # cs
    \<and> (IsZero (oa_expires p) \<or> now \<le> oa_expires p)"
proof -
  from oauth.manager_refines [OF assms(2), of xs] assms(1)
  have "foldl (auth_fsm (\<lambda>now. token_valid now p)) AuthStateNone xs = AuthStateSuccess"
    by (simp add: Let_def)
  from fsm_success [OF this refl] show ?thesis by (simp add: token_valid_def)
qed

theorem oauth_success_needs_valid_token_witness:
  "\<exists>as now bs cs. [CallStart 50, CallComplete []] = as @ CallStart now # bs @ CallComplete [] # cs
     \<and> (IsZero 100 \<or> now \<le> 100)"
proof -
  let ?p = "NewOAuth2AuthProvider 40 ''token'' [] 60"
  have "GetState (foldl (auth_step oauth_provider) (NewMQTT5AuthManager (Some ?p))
      [CallStart 50, CallComplete []]) = AuthStateSuccess"
    by (simp add: GetState_def StartAuth_def CompleteAuth_def NewMQTT5AuthManager_def auth_defs
        NewOAuth2AuthProvider_def)
  from oauth_success_needs_valid_token [OF this] show ?thesis by (simp add: NewOAuth2AuthProvider_def)
qed

text \<open>
  The plain provider's data determines the credentials when the user name holds no NUL byte:
  the part before the first NUL is the user name and the rest the password. Without that, two
  different pairs of credentials are sent as the same bytes.
\<close>

theorem plain_data_roundtrip:
  assumes "char_of (0::nat) \<notin> set user"
  shows "(takeWhile (\<lambda>x. x \<noteq> char_of (0::nat)) (plain_data user pass),
          tl (dropWhile (\<lambda>x. x \<noteq> char_of (0::nat)) (plain_data user pass))) = (user, pass)
    \<and> (\<exists>user' pass'. (user', pass') \<noteq> (user @ [char_of (0::nat)], pass)
         \<and> plain_data user' pass' = plain_data (user @ [char_of (0::nat)]) pass)"
proof -
  have ne: "x \<in> set user \<Longrightarrow> x \<noteq> char_of (0::nat)" for x using assms by metis
  have "plain_data user (char_of (0::nat) # pass) = plain_data (user @ [char_of (0::nat)]) pass"
    by (simp add: plain_data_def)
  moreover have "(user, char_of (0::nat) # pass) \<noteq> (user @ [char_of (0::nat)], pass)" by simp
  ultimately have "\<exists>user' pass'. (user', pass') \<noteq> (user @ [char_of (0::nat)], pass)
      \<and> plain_data user' pass' = plain_data (user @ [char_of (0::nat)]) pass" by blast
  moreover have "takeWhile (\<lambda>x. x \<noteq> char_of (0::nat)) (plain_data user pass) = user"
    unfolding plain_data_def by (subst takeWhile_append2) (use ne in auto)
  moreover have "dropWhile (\<lambda>x. x \<noteq> char_of (0::nat)) (plain_data user pass) = char_of (0::nat) # pass"
    unfolding plain_data_def by (subst dropWhile_append2) (use ne in auto)
  ultimately show ?thesis by simp
qed

theorem plain_data_roundtrip_witness:
  "takeWhile (\<lambda>x. x \<noteq> char_of (0::nat)) (plain_data ''bob'' ''pw'') = ''bob''"
proof -
  have "char_of (0::nat) \<notin> set ''bob''" by code_simp
  from plain_data_roundtrip [OF this, of "''pw''"] show ?thesis by simp
qed

text \<open>
  Configuring enhanced authentication on a session does not reach its MQTT client: the client
  is configured with the same options as without it, for any provider, and the provider is left in
  progress for good, since the manager that could complete it is dropped. Without a provider the
  only trace is the MQTT 5.0 options.
\<close>

theorem enhanced_auth_not_sent:
  "client_options_of tls (se_opts (fst (session_WithEnhancedAuth ap now provider s)))
     = client_options_of tls (se_opts s)
   \<and> map_option pa_state (snd (session_WithEnhancedAuth plain_provider now (Some plain) s))
        = Some AuthStateInProgress
   \<and> se_opts (fst (session_WithEnhancedAuth ap now None s)) = ensure_mqtt5 (se_opts s)"
proof -
  have keep: "client_options_of tls (WithMQTT5 DefaultMQTT5Config opt) = client_options_of tls opt" for opt
    by (simp add: client_options_of_def WithMQTT5_def props_of_def Let_def)
  have auth: "client_options_of tls (WithEnhancedAuth a opt) = client_options_of tls opt" for a opt
    using keep [of opt]
    by (simp add: WithEnhancedAuth_def on_mqtt5_def ensure_mqtt5_def Let_def client_options_of_def props_of_def)
  show ?thesis
    by (auto simp: session_WithEnhancedAuth_def Let_def keep auth StartAuth_def NewMQTT5AuthManager_def
        auth_defs ensure_mqtt5_def split: prod.split sum.split option.split)
qed

end
