(* ===== verification/RecoveryRuns.thy ===== *)
theory RecoveryRuns
  imports Recovery
begin

text \<open>
  Concurrent calls of \<open>RegisterError\<close> (\<open>error_recovery.go\<close>). A call tests the counter, and
  on a full table clears the recovered errors and evicts the oldest one, before it takes the lock
  again and inserts; other goroutines run between these parts. The step relation interleaves the
  parts of any number of callers with the other operations, each atomic as the code's lock makes
  it.
\<close>

subsection \<open>Steps\<close>

datatype reg_phase = Idle | Testing | Clearing | Evicting | Inserting

record caller =
  cl_session :: string
  cl_error :: goerr
  cl_category :: category
  cl_now :: int
  cl_phase :: reg_phase

definition goto :: "nat \<Rightarrow> reg_phase \<Rightarrow> caller list \<Rightarrow> caller list" where
  "goto i ph cs = cs[i := (cs ! i)\<lparr>cl_phase := ph\<rparr>]"

fun registers :: "rc_op \<Rightarrow> bool" where
  "registers (OpRegister s e c now) = True"
| "registers _ = False"

inductive reg_step :: "recovery \<times> caller list \<Rightarrow> recovery \<times> caller list \<Rightarrow> bool" where
  call: "i < length cs \<Longrightarrow> cl_phase (cs ! i) = Idle \<Longrightarrow> cl_phase c = Testing \<Longrightarrow>
    reg_step (rm, cs) (rm, cs[i := c])"
| full: "i < length cs \<Longrightarrow> cl_phase (cs ! i) = Testing \<Longrightarrow> rc_count rm \<ge> int (rc_limit rm) \<Longrightarrow>
    reg_step (rm, cs) (rm, goto i Clearing cs)"
| room: "i < length cs \<Longrightarrow> cl_phase (cs ! i) = Testing \<Longrightarrow> \<not> rc_count rm \<ge> int (rc_limit rm) \<Longrightarrow>
    reg_step (rm, cs) (rm, goto i Inserting cs)"
| clear: "i < length cs \<Longrightarrow> cl_phase (cs ! i) = Clearing \<Longrightarrow>
    reg_step (rm, cs) (snd (ClearRecoveredErrors rm), goto i Evicting cs)"
| evict: "i < length cs \<Longrightarrow> cl_phase (cs ! i) = Evicting \<Longrightarrow>
    reg_step (rm, cs) (evict_oldest rm, goto i Inserting cs)"
| insert: "i < length cs \<Longrightarrow> cl_phase (cs ! i) = Inserting \<Longrightarrow>
    reg_step (rm, cs)
      (snd (insert_error (cl_session (cs ! i)) (cl_error (cs ! i)) (cl_category (cs ! i)) (cl_now (cs ! i)) rm),
       goto i Idle cs)"
| other: "\<not> registers x \<Longrightarrow> reg_step (rm, cs) (rc_step rm x, cs)"

abbreviation reg_reach :: "recovery \<times> caller list \<Rightarrow> recovery \<times> caller list \<Rightarrow> bool" where
  "reg_reach \<equiv> reg_step\<^sup>*\<^sup>*"

subsection \<open>The bound\<close>

definition inserting :: "caller list \<Rightarrow> nat" where
  "inserting cs = length (filter (\<lambda>c. cl_phase c = Inserting) cs)"

lemma inserting_update:
  "i < length cs \<Longrightarrow>
     inserting (cs[i := c]) + of_bool (cl_phase (cs ! i) = Inserting) = inserting cs + of_bool (cl_phase c = Inserting)"
proof (induction cs arbitrary: i)
  case Nil
  then show ?case by simp
next
  case (Cons d cs)
  show ?case
  proof (cases i)
    case 0
    then show ?thesis by (simp add: inserting_def)
  next
    case (Suc j)
    with Cons.IH [of j] Cons.prems show ?thesis by (simp add: inserting_def)
  qed
qed

lemma inserting_le: "inserting cs \<le> length cs"
  unfolding inserting_def by (rule length_filter_le)

lemma inserting_goto:
  "i < length cs \<Longrightarrow>
     inserting (goto i ph cs) + of_bool (cl_phase (cs ! i) = Inserting) = inserting cs + of_bool (ph = Inserting)"
  using inserting_update [of i cs "(cs ! i)\<lparr>cl_phase := ph\<rparr>"] by (simp add: goto_def)

lemma length_goto [simp]: "length (goto i ph cs) = length cs"
  by (simp add: goto_def)

lemma evict_oldest_any:
  assumes ok: "table_ok rm" and lim: "0 < rc_limit rm"
  shows "table_ok (evict_oldest rm) \<and> rc_limit (evict_oldest rm) = rc_limit rm
    \<and> (if length (rc_errors rm) \<ge> rc_limit rm
       then Suc (length (rc_errors (evict_oldest rm))) = length (rc_errors rm)
       else length (rc_errors (evict_oldest rm)) = length (rc_errors rm))"
proof (cases "length (rc_errors rm) \<ge> rc_limit rm")
  case False
  with ok show ?thesis by (simp add: evict_oldest_def)
next
  case True
  from evict_oldest_full [OF ok True lim] obtain k r where kr: "mget (rc_errors rm) k = Some r"
    "evict_oldest rm = rm\<lparr>rc_errors := mdel k (rc_errors rm), rc_count := rc_count rm - 1\<rparr>" by auto
  from ok have "wf_map (rc_errors rm)" by (simp add: table_ok_def)
  from length_mdel_old [OF this kr(1)]
  have len: "Suc (length (mdel k (rc_errors rm))) = length (rc_errors rm)" .
  have "table_ok (evict_oldest rm)" using ok len kr(2)
    by (auto simp: table_ok_def entry_ok_def obj_def distinct_snd_mdel dest: in_set_mdel)
  with len kr(2) True show ?thesis by simp
qed

lemma other_length:
  "\<not> registers x \<Longrightarrow> table_ok rm \<Longrightarrow>
     table_ok (rc_step rm x) \<and> length (rc_errors (rc_step rm x)) \<le> length (rc_errors rm)"
proof (cases x)
  case OpClear
  assume "table_ok rm"
  with OpClear show ?thesis by (simp add: table_ok_Clear length_filter_le)
next
  case (OpMark s c e)
  assume "table_ok rm"
  with OpMark show ?thesis by (auto simp: MarkErrorRecovered_def table_ok_same_identity split: option.splits)
next
  case (OpRetry r)
  assume "table_ok rm"
  with OpRetry show ?thesis by (auto simp: executeRetry_def Let_def table_ok_same_identity)
next
  case (OpSetMax c n)
  assume "table_ok rm"
  with OpSetMax show ?thesis by (simp add: SetMaxRetries_def table_ok_def entry_ok_def obj_def)
qed simp

text \<open>The entries and the callers that are about to insert stay below the limit plus the callers.\<close>

fun crowd :: "nat \<Rightarrow> nat \<Rightarrow> recovery \<times> caller list \<Rightarrow> bool" where
  "crowd lim n (rm, cs) \<longleftrightarrow>
     table_ok rm \<and> rc_limit rm = lim \<and> 0 < lim \<and> length cs = n
     \<and> length (rc_errors rm) + inserting cs < lim + n"

lemma crowd_step: "reg_step w w' \<Longrightarrow> crowd lim n w \<Longrightarrow> crowd lim n w'"
proof (induction rule: reg_step.induct)
  case (call i cs c rm)
  with inserting_update [of i cs c] show ?case by simp
next
  case (full i cs rm)
  with inserting_goto [of i cs Clearing] show ?case by simp
next
  case (room i cs rm)
  from room inserting_goto [of i cs Inserting] inserting_le [of "goto i Inserting cs"]
  show ?case by (auto simp: table_ok_def)
next
  case (clear i cs rm)
  have "length (rc_errors (snd (ClearRecoveredErrors rm))) \<le> length (rc_errors rm)"
    by (simp add: length_filter_le)
  with clear inserting_goto [of i cs Evicting] show ?case
    by (auto simp: table_ok_Clear simp del: ClearRecovered_fields(4))
next
  case (evict i cs rm)
  from evict have ok: "table_ok rm" "0 < rc_limit rm" by simp_all
  from evict evict_oldest_any [OF ok] inserting_goto [of i cs Inserting] inserting_le [of "goto i Inserting cs"]
  show ?case by (auto split: if_splits)
next
  case (insert i cs rm)
  from insert insert_error_table_ok [of rm "cl_session (cs ! i)" "cl_error (cs ! i)" "cl_category (cs ! i)" "cl_now (cs ! i)"]
    insert_error_length [of "cl_session (cs ! i)" "cl_error (cs ! i)" "cl_category (cs ! i)" "cl_now (cs ! i)" rm]
    inserting_goto [of i cs Idle]
  show ?case by auto
next
  case (other x rm cs)
  with other_length [of x rm] show ?case by auto
qed

lemma crowd_reach: "reg_reach w w' \<Longrightarrow> crowd lim n w \<Longrightarrow> crowd lim n w'"
  by (induction rule: rtranclp_induct) (auto intro: crowd_step)

lemma insert_error_new:
  "mget (rc_errors rm) (error_id s c e) = None \<Longrightarrow>
     rc_errors (snd (insert_error s e c now rm)) = rc_errors rm @ [(error_id s c e, length (rc_objs rm))]"
  by (simp add: insert_error_def Let_def mput_new)

subsection \<open>Properties\<close>

text \<open>
  C9. With \<open>n\<close> goroutines that register errors at the same time, in any interleaving with one
  another and with the other operations, the table of a new recovery manager never holds more than
  100 + n - 1 errors, and its counter is the size of the table.
\<close>

theorem concurrent_errors_bounded:
  assumes "reg_reach (NewRecoveryManager, cs) (rm, cs')" and "list_all (\<lambda>c. cl_phase c = Idle) cs"
  shows "length (rc_errors rm) \<le> 100 + length cs - 1 \<and> rc_count rm = int (length (rc_errors rm))"
proof -
  have "inserting cs = 0" using assms(2) by (auto simp: inserting_def list_all_iff filter_empty_conv)
  then have "crowd 100 (length cs) (NewRecoveryManager, cs)"
    using NewRecoveryManager_inv by (simp add: recovery_inv_def NewRecoveryManager_def)
  from crowd_reach [OF assms(1) this] show ?thesis by (auto simp: table_ok_def)
qed

definition idle_caller :: "string \<Rightarrow> caller" where
  "idle_caller s =
     \<lparr>cl_session = s, cl_error = NewErr ''down'', cl_category = CategoryConnection, cl_now = 7, cl_phase = Idle\<rparr>"

theorem concurrent_errors_bounded_witness:
  "length (rc_errors (rc_step NewRecoveryManager OpClear)) \<le> 101"
proof -
  have "reg_reach (NewRecoveryManager, [idle_caller ''a'', idle_caller ''b''])
      (rc_step NewRecoveryManager OpClear, [idle_caller ''a'', idle_caller ''b''])"
    by (rule r_into_rtranclp, rule other) simp
  from concurrent_errors_bounded [OF this] show ?thesis by (simp add: idle_caller_def)
qed

text \<open>
  The bound is reached: two goroutines that register new errors while the table has one free
  place can both find it free, and leave the table with one entry more than its limit.
\<close>

theorem concurrent_errors_overshoot:
  assumes "table_ok rm" and "Suc (length (rc_errors rm)) = rc_limit rm"
    and "mget (rc_errors rm) (error_id (cl_session a) (cl_category a) (cl_error a)) = None"
    and "mget (rc_errors rm) (error_id (cl_session b) (cl_category b) (cl_error b)) = None"
    and "error_id (cl_session a) (cl_category a) (cl_error a)
           \<noteq> error_id (cl_session b) (cl_category b) (cl_error b)"
    and "cl_phase a = Testing" and "cl_phase b = Testing"
  shows "\<exists>rm' cs'. reg_reach (rm, [a, b]) (rm', cs') \<and> length (rc_errors rm') = Suc (rc_limit rm)"
proof -
  let ?ins = "\<lambda>c rm. snd (insert_error (cl_session c) (cl_error c) (cl_category c) (cl_now c) rm)"
  let ?a = "a\<lparr>cl_phase := Inserting\<rparr>" and ?b = "b\<lparr>cl_phase := Inserting\<rparr>"
  have free: "\<not> rc_count rm \<ge> int (rc_limit rm)" using assms(1,2) by (simp add: table_ok_def)
  have "reg_step (rm, [a, b]) (rm, [?a, b])"
    using room [of 0 "[a, b]" rm] assms(6) free by (simp add: goto_def)
  moreover have "reg_step (rm, [?a, b]) (rm, [?a, ?b])"
    using room [of 1 "[?a, b]" rm] assms(7) free by (simp add: goto_def)
  moreover have "reg_step (rm, [?a, ?b]) (?ins a rm, [a\<lparr>cl_phase := Idle\<rparr>, ?b])"
    using insert [of 0 "[?a, ?b]" rm] by (simp add: goto_def)
  moreover have "reg_step (?ins a rm, [a\<lparr>cl_phase := Idle\<rparr>, ?b])
      (?ins b (?ins a rm), [a\<lparr>cl_phase := Idle\<rparr>, b\<lparr>cl_phase := Idle\<rparr>])"
    using insert [of 1 "[a\<lparr>cl_phase := Idle\<rparr>, ?b]" "?ins a rm"] by (simp add: goto_def)
  ultimately have "reg_reach (rm, [a, b]) (?ins b (?ins a rm), [a\<lparr>cl_phase := Idle\<rparr>, b\<lparr>cl_phase := Idle\<rparr>])"
    by (meson converse_rtranclp_into_rtranclp rtranclp.rtrancl_refl)
  moreover have "length (rc_errors (?ins b (?ins a rm))) = Suc (rc_limit rm)"
    using assms(2-5) by (simp add: insert_error_new map_add_def)
  ultimately show ?thesis by blast
qed

text \<open>A table with 99 entries, made by registering 99 errors.\<close>

definition nearly_full :: "nat \<Rightarrow> recovery" where
  "nearly_full n = foldl rc_step NewRecoveryManager
     (map (\<lambda>i. OpRegister (replicate i CHR ''x'') (Some (NewErr ''down'')) CategoryConnection 1) [0..<n])"

lemma nearly_full:
  "n \<le> 100 \<Longrightarrow> recovery_inv (nearly_full n) \<and> rc_limit (nearly_full n) = 100
     \<and> mkeys (rc_errors (nearly_full n))
         = map (\<lambda>i. error_id (replicate i CHR ''x'') CategoryConnection (NewErr ''down'')) [0..<n]"
proof (induction n)
  case 0
  then show ?case using NewRecoveryManager_inv by (simp add: nearly_full_def NewRecoveryManager_def)
next
  case (Suc n)
  let ?rm = "nearly_full n" and ?k = "\<lambda>i. error_id (replicate i CHR ''x'') CategoryConnection (NewErr ''down'')"
  from Suc have inv: "recovery_inv ?rm" "rc_limit ?rm = 100"
    and keys: "mkeys (rc_errors ?rm) = map ?k [0..<n]" by simp_all
  have len: "length (rc_errors ?rm) = n" using arg_cong [OF keys, of length] by simp
  have next': "nearly_full (Suc n) =
      rc_step ?rm (OpRegister (replicate n CHR ''x'') (Some (NewErr ''down'')) CategoryConnection 1)"
    by (simp add: nearly_full_def)
  have "?k n \<noteq> ?k i" if "i < n" for i
    using that arg_cong [of "?k n" "?k i" length] by (auto simp: error_id_def)
  then have new: "mget (rc_errors ?rm) (?k n) = None"
    by (metis (no_types, lifting) mget_None_iff keys imageE atLeastLessThan_iff set_map set_upt)
  have "make_room ?rm = ?rm"
    using inv len Suc.prems by (simp add: make_room_def recovery_inv_def table_ok_def)
  with new have "mkeys (rc_errors (nearly_full (Suc n))) = map ?k [0..<Suc n]"
    by (simp add: next' RegisterError_def insert_error_def Let_def mput_new keys)
  moreover have "recovery_inv (nearly_full (Suc n))" unfolding next' by (rule rc_step_inv [OF inv(1)])
  moreover have "rc_limit (nearly_full (Suc n)) = 100" unfolding next' rc_step_limit by (rule inv(2))
  ultimately show ?case by blast
qed

theorem concurrent_errors_overshoot_witness:
  "\<exists>rm' cs'. reg_reach (nearly_full 99, [idle_caller ''a'' \<lparr>cl_phase := Testing\<rparr>, idle_caller ''b'' \<lparr>cl_phase := Testing\<rparr>])
       (rm', cs') \<and> length (rc_errors rm') = 101"
proof -
  let ?a = "idle_caller ''a'' \<lparr>cl_phase := Testing\<rparr>" and ?b = "idle_caller ''b'' \<lparr>cl_phase := Testing\<rparr>"
  let ?k = "\<lambda>s. error_id s CategoryConnection (NewErr ''down'')"
  have keys: "mkeys (rc_errors (nearly_full 99)) = map (\<lambda>i. ?k (replicate i CHR ''x'')) [0..<99]"
    and inv: "recovery_inv (nearly_full 99)" "rc_limit (nearly_full 99) = 100"
    using nearly_full [of 99] by simp_all
  have none: "mget (rc_errors (nearly_full 99)) (?k [c]) = None" if "c \<noteq> CHR ''x''" "c \<noteq> CHR '':''" for c
  proof -
    have "?k [c] \<noteq> ?k (replicate i CHR ''x'')" for i
      using that by (cases i) (auto simp: error_id_def)
    then show ?thesis unfolding mget_None_iff keys by auto
  qed
  have "\<exists>rm' cs'. reg_reach (nearly_full 99, [?a, ?b]) (rm', cs')
      \<and> length (rc_errors rm') = Suc (rc_limit (nearly_full 99))"
  proof (rule concurrent_errors_overshoot)
    show "table_ok (nearly_full 99)" using inv(1) by (simp add: recovery_inv_def)
    show "Suc (length (rc_errors (nearly_full 99))) = rc_limit (nearly_full 99)"
      using arg_cong [OF keys, of length] inv(2) by simp
  qed (use none in \<open>simp_all add: idle_caller_def error_id_def\<close>)
  with inv(2) show ?thesis by simp
qed

end
