(* ===== verification/Pools.thy ===== *)
theory Pools
  imports Metrics Codec
begin

text \<open>
  The object pools (\<open>object_pool.go\<close>): messages, byte buffers of three sizes, metrics and timers.
  Objects are shared by reference, so a pool is a heap of objects and a list of the free ones,
  each under the class of its pool. \<open>sync.Pool\<close> gives back any free object of the class or a new
  one (the argument \<open>c\<close> is its choice) and may forget free objects at any time.

  A slice with spare room is the bytes it shows and the capacity of its array.
\<close>

subsection \<open>sync.Pool\<close>

record ('k, 'o) pools =
  po_heap :: "'o list"
  po_free :: "('k \<times> nat) list"

definition obj_at :: "('k, 'o) pools \<Rightarrow> nat \<Rightarrow> 'o" where
  "obj_at ps a = po_heap ps ! a"

definition set_obj :: "nat \<Rightarrow> 'o \<Rightarrow> ('k, 'o) pools \<Rightarrow> ('k, 'o) pools" where
  "set_obj a x ps = ps\<lparr>po_heap := (po_heap ps)[a := x]\<rparr>"

definition pool_Get :: "nat option \<Rightarrow> 'k \<Rightarrow> 'o \<Rightarrow> ('k, 'o) pools \<Rightarrow> nat \<times> ('k, 'o) pools" where
  "pool_Get c k new ps =
     (case c of
        Some i \<Rightarrow>
          if i < length (po_free ps) \<and> fst (po_free ps ! i) = k
          then (snd (po_free ps ! i), ps\<lparr>po_free := take i (po_free ps) @ drop (Suc i) (po_free ps)\<rparr>)
          else (length (po_heap ps), ps\<lparr>po_heap := po_heap ps @ [new]\<rparr>)
      | None \<Rightarrow> (length (po_heap ps), ps\<lparr>po_heap := po_heap ps @ [new]\<rparr>))"

definition pool_Put :: "'k \<Rightarrow> nat \<Rightarrow> ('k, 'o) pools \<Rightarrow> ('k, 'o) pools" where
  "pool_Put k a ps = ps\<lparr>po_free := (k, a) # po_free ps\<rparr>"

text \<open>
  The two shapes of use: take an object and prepare it; prepare an object and put it in the pool of
  its class, if it has one.
\<close>

definition get_object ::
  "('k \<Rightarrow> 'o) \<Rightarrow> ('o \<Rightarrow> 'o) \<Rightarrow> nat option \<Rightarrow> 'k \<Rightarrow> ('k, 'o) pools \<Rightarrow> nat \<times> ('k, 'o) pools" where
  "get_object fresh prepare c k ps =
     (case pool_Get c k (fresh k) ps of (a, ps1) \<Rightarrow> (a, set_obj a (prepare (obj_at ps1 a)) ps1))"

definition put_object ::
  "('o \<Rightarrow> 'o) \<Rightarrow> ('o \<Rightarrow> 'k option) \<Rightarrow> nat \<Rightarrow> ('k, 'o) pools \<Rightarrow> ('k, 'o) pools" where
  "put_object reset kind a ps =
     (let x = reset (obj_at ps a); ps1 = set_obj a x ps
      in case kind x of None \<Rightarrow> ps1 | Some k \<Rightarrow> pool_Put k a ps1)"

subsection \<open>Messages\<close>

record pool_message =
  pl_topic :: string
  pl_bytes :: payload
  pl_cap :: nat
  pl_qos :: byte
  pl_retained :: bool
  pl_time :: int

definition message_Reset :: "pool_message \<Rightarrow> pool_message" where
  "message_Reset m = m\<lparr>pl_topic := [], pl_bytes := [], pl_qos := 0, pl_retained := False, pl_time := zero_time\<rparr>"

definition SetPayload :: "payload \<Rightarrow> pool_message \<Rightarrow> pool_message" where
  "SetPayload bs m =
     (if pl_cap m \<ge> length bs then m\<lparr>pl_bytes := bs\<rparr>
      else let newCap = (if pl_cap m > 0 then max (length bs) (pl_cap m * 3 div 2) else length bs)
           in m\<lparr>pl_bytes := bs, pl_cap := newCap\<rparr>)"

definition new_message :: "unit \<Rightarrow> pool_message" where
  "new_message u = \<lparr>pl_topic = [], pl_bytes = [], pl_cap = 1024, pl_qos = 0, pl_retained = False,
     pl_time = zero_time\<rparr>"

type_synonym message_pool = "(unit, pool_message) pools"

definition GetMessage :: "nat option \<Rightarrow> message_pool \<Rightarrow> nat \<times> message_pool" where
  "GetMessage c ps = get_object new_message message_Reset c () ps"

definition PutMessage :: "nat option \<Rightarrow> message_pool \<Rightarrow> message_pool" where
  "PutMessage msg ps = (case msg of None \<Rightarrow> ps | Some a \<Rightarrow> put_object message_Reset (\<lambda>m. Some ()) a ps)"

definition Clone :: "nat option \<Rightarrow> nat \<Rightarrow> message_pool \<Rightarrow> nat \<times> message_pool" where
  "Clone c a ps =
     (case GetMessage c ps of
        (b, ps1) \<Rightarrow>
          (b, set_obj b ((SetPayload (pl_bytes (obj_at ps1 a)) (obj_at ps1 b))
                \<lparr>pl_topic := pl_topic (obj_at ps1 a), pl_qos := pl_qos (obj_at ps1 a),
                 pl_retained := pl_retained (obj_at ps1 a), pl_time := pl_time (obj_at ps1 a)\<rparr>) ps1))"

subsection \<open>Buffers\<close>

record pool_buffer =
  pb_data :: payload
  pb_cap :: nat

definition buffer_Reset :: "pool_buffer \<Rightarrow> pool_buffer" where
  "buffer_Reset b = b\<lparr>pb_data := []\<rparr>"

definition buffer_Bytes :: "pool_buffer \<Rightarrow> payload" where
  "buffer_Bytes b = pb_data b"

text \<open>\<open>append\<close> keeps the array while it has room; the capacity \<open>grown\<close> of a new one is the runtime's.\<close>

definition buffer_Write :: "nat \<Rightarrow> payload \<Rightarrow> pool_buffer \<Rightarrow> nat \<times> pool_buffer" where
  "buffer_Write grown bs b =
     (let n = length (pb_data b) + length bs
      in (length bs, b\<lparr>pb_data := pb_data b @ bs,
                        pb_cap := (if n \<le> pb_cap b then pb_cap b else max n grown)\<rparr>))"

definition buffer_Grow :: "nat \<Rightarrow> pool_buffer \<Rightarrow> pool_buffer" where
  "buffer_Grow n b =
     (if pb_cap b - length (pb_data b) < n
      then let newCap = length (pb_data b) + n
           in b\<lparr>pb_cap := (if newCap < pb_cap b * 2 then pb_cap b * 2 else newCap)\<rparr>
      else b)"

datatype buffer_size = Small | Medium | Large

fun size_of :: "buffer_size \<Rightarrow> nat" where
  "size_of Small = 512"
| "size_of Medium = 4096"
| "size_of Large = 32768"

definition new_buffer :: "buffer_size \<Rightarrow> pool_buffer" where
  "new_buffer k = \<lparr>pb_data = [], pb_cap = size_of k\<rparr>"

type_synonym buffer_pool = "(buffer_size, pool_buffer) pools"

definition size_for :: "int \<Rightarrow> buffer_size" where
  "size_for n = (if n \<le> 512 then Small else if n \<le> 4096 then Medium else Large)"

definition GetBuffer :: "nat option \<Rightarrow> int \<Rightarrow> buffer_pool \<Rightarrow> nat \<times> buffer_pool" where
  "GetBuffer c expectedSize ps = get_object new_buffer id c (size_for expectedSize) ps"

definition size_class :: "pool_buffer \<Rightarrow> buffer_size option" where
  "size_class b =
     (if pb_cap b = 512 then Some Small else if pb_cap b = 4096 then Some Medium
      else if pb_cap b = 32768 then Some Large else None)"

definition PutBuffer :: "nat option \<Rightarrow> buffer_pool \<Rightarrow> buffer_pool" where
  "PutBuffer buf ps = (case buf of None \<Rightarrow> ps | Some a \<Rightarrow> put_object buffer_Reset size_class a ps)"

subsection \<open>Metrics\<close>

text \<open>Metrics are reset when they are taken, and the time at which a new one is made is \<open>t0\<close>.\<close>

type_synonym metrics_pool = "(unit, metrics) pools"
type_synonym session_metrics_pool = "(unit, session_metrics) pools"

definition pool_GetMetrics :: "int \<Rightarrow> nat option \<Rightarrow> metrics_pool \<Rightarrow> nat \<times> metrics_pool" where
  "pool_GetMetrics now c ps = get_object (\<lambda>u. newMetrics now) (metrics_reset now) c () ps"

definition PutMetrics :: "nat option \<Rightarrow> metrics_pool \<Rightarrow> metrics_pool" where
  "PutMetrics m ps = (case m of None \<Rightarrow> ps | Some a \<Rightarrow> put_object id (\<lambda>m. Some ()) a ps)"

definition GetSessionMetrics :: "int \<Rightarrow> nat option \<Rightarrow> session_metrics_pool \<Rightarrow> nat \<times> session_metrics_pool" where
  "GetSessionMetrics now c ps = get_object (\<lambda>u. newSessionMetrics now) (sm_reset now) c () ps"

definition PutSessionMetrics :: "nat option \<Rightarrow> session_metrics_pool \<Rightarrow> session_metrics_pool" where
  "PutSessionMetrics m ps = (case m of None \<Rightarrow> ps | Some a \<Rightarrow> put_object id (\<lambda>m. Some ()) a ps)"

subsection \<open>Timers\<close>

text \<open>
  A pooled timer: whether the runtime's timer is set, whether its channel holds a tick, and the
  flag \<open>active\<close> of the pool. A timer that fires delivers a tick and is no longer set. Since Go 1.23
  (the module asks for 1.24) \<open>Reset\<close> and \<open>Stop\<close> of a timer also discard a tick that nobody has
  received. What they return, whether the timer was set, is not used.
\<close>

record pool_timer =
  tm_set :: bool
  tm_tick :: bool
  tm_active :: bool

definition new_timer :: "unit \<Rightarrow> pool_timer" where
  "new_timer u = \<lparr>tm_set = True, tm_tick = False, tm_active = False\<rparr>"

definition timer_Reset :: "pool_timer \<Rightarrow> pool_timer" where
  "timer_Reset t = t\<lparr>tm_active := True, tm_set := True, tm_tick := False\<rparr>"

definition timer_Stop :: "pool_timer \<Rightarrow> pool_timer" where
  "timer_Stop t = t\<lparr>tm_active := False, tm_set := False, tm_tick := False\<rparr>"

definition timer_fires :: "pool_timer \<Rightarrow> pool_timer" where
  "timer_fires t = (if tm_set t then t\<lparr>tm_set := False, tm_tick := True\<rparr> else t)"

type_synonym timer_pool = "(unit, pool_timer) pools"

definition GetTimer :: "nat option \<Rightarrow> timer_pool \<Rightarrow> nat \<times> timer_pool" where
  "GetTimer c ps = get_object new_timer timer_Reset c () ps"

definition PutTimer :: "nat option \<Rightarrow> timer_pool \<Rightarrow> timer_pool" where
  "PutTimer t ps =
     (case t of None \<Rightarrow> ps
      | Some a \<Rightarrow>
          if \<not> tm_active (obj_at ps a)
          then put_object (\<lambda>t. (timer_Stop t)\<lparr>tm_tick := False\<rparr>) (\<lambda>t. Some ()) a ps
          else ps)"

subsection \<open>Statistics\<close>

text \<open>The statistics, which no operation of the pools counts in.\<close>

record pool_stats =
  ps_message_hits :: u64
  ps_message_misses :: u64
  ps_buffer_hits :: u64
  ps_buffer_misses :: u64
  ps_metrics_hits :: u64
  ps_metrics_misses :: u64
  ps_timer_hits :: u64
  ps_timer_misses :: u64

definition poolStats :: pool_stats where
  "poolStats =
     \<lparr>ps_message_hits = 0, ps_message_misses = 0, ps_buffer_hits = 0, ps_buffer_misses = 0,
      ps_metrics_hits = 0, ps_metrics_misses = 0, ps_timer_hits = 0, ps_timer_misses = 0\<rparr>"

definition GetPoolStats :: "pool_stats \<Rightarrow> pool_stats" where
  "GetPoolStats st = st"

definition ResetPoolStats :: "pool_stats \<Rightarrow> pool_stats" where
  "ResetPoolStats st = poolStats"

subsection \<open>Ownership\<close>

text \<open>
  The life of a pool: goroutines take objects, use those they own, and give those they own back;
  the runtime forgets free objects. \<open>rel\<close> says what a use may do to an object.
\<close>

inductive own_step ::
  "(nat option \<Rightarrow> 'i \<Rightarrow> ('k, 'o) pools \<Rightarrow> nat \<times> ('k, 'o) pools) \<Rightarrow> (nat \<Rightarrow> ('k, 'o) pools \<Rightarrow> ('k, 'o) pools) \<Rightarrow>
     ('o \<Rightarrow> 'o \<Rightarrow> bool) \<Rightarrow> nat list \<times> ('k, 'o) pools \<Rightarrow> nat list \<times> ('k, 'o) pools \<Rightarrow> bool"
  for getf putf rel where
  get: "getf c i ps = (a, ps') \<Longrightarrow> own_step getf putf rel (owned, ps) (a # owned, ps')"
| put: "a \<in> set owned \<Longrightarrow> own_step getf putf rel (owned, ps) (remove1 a owned, putf a ps)"
| use: "a \<in> set owned \<Longrightarrow> rel (obj_at ps a) x \<Longrightarrow> own_step getf putf rel (owned, ps) (owned, set_obj a x ps)"
| forget: "own_step getf putf rel (owned, ps) (owned, ps\<lparr>po_free := filter keep (po_free ps)\<rparr>)"

definition empty_pools :: "('k, 'o) pools" where
  "empty_pools = \<lparr>po_heap = [], po_free = []\<rparr>"

text \<open>
  What the objects of a pool promise: a fresh object is clean, a clean object prepared is usable, a
  usable one stays usable, and one that is reset for its class is clean.
\<close>

locale pool_contract =
  fixes fresh :: "'k \<Rightarrow> 'o"
    and prepare :: "'o \<Rightarrow> 'o"
    and reset :: "'o \<Rightarrow> 'o"
    and kind :: "'o \<Rightarrow> 'k option"
    and clean :: "'k \<Rightarrow> 'o \<Rightarrow> bool"
    and usable :: "'o \<Rightarrow> bool"
    and rel :: "'o \<Rightarrow> 'o \<Rightarrow> bool"
  assumes fresh_clean: "clean k (fresh k)"
    and prepared: "clean k x \<Longrightarrow> usable (prepare x)"
    and used: "usable x \<Longrightarrow> rel x y \<Longrightarrow> usable y"
    and reset_clean: "usable x \<Longrightarrow> kind (reset x) = Some k \<Longrightarrow> clean k (reset x)"
begin

definition pools_ok :: "nat list \<times> ('k, 'o) pools \<Rightarrow> bool" where
  "pools_ok w \<longleftrightarrow>
     distinct (fst w) \<and> distinct (map snd (po_free (snd w)))
     \<and> set (fst w) \<inter> snd ` set (po_free (snd w)) = {}
     \<and> (\<forall>a \<in> set (fst w). a < length (po_heap (snd w)) \<and> usable (obj_at (snd w) a))
     \<and> (\<forall>q \<in> set (po_free (snd w)). snd q < length (po_heap (snd w)) \<and> clean (fst q) (obj_at (snd w) (snd q)))"

lemma pools_okD:
  assumes "pools_ok (owned, ps)"
  shows "distinct owned" and "distinct (map snd (po_free ps))"
    and "set owned \<inter> snd ` set (po_free ps) = {}"
    and "\<And>a. a \<in> set owned \<Longrightarrow> a < length (po_heap ps)" and "\<And>a. a \<in> set owned \<Longrightarrow> usable (obj_at ps a)"
    and "\<And>q. q \<in> set (po_free ps) \<Longrightarrow> snd q < length (po_heap ps)"
    and "\<And>q. q \<in> set (po_free ps) \<Longrightarrow> clean (fst q) (obj_at ps (snd q))"
  using assms by (simp_all add: pools_ok_def)

lemma pools_okI:
  assumes "distinct owned" and "distinct (map snd (po_free ps))"
    and "set owned \<inter> snd ` set (po_free ps) = {}"
    and "\<And>a. a \<in> set owned \<Longrightarrow> a < length (po_heap ps)" and "\<And>a. a \<in> set owned \<Longrightarrow> usable (obj_at ps a)"
    and "\<And>q. q \<in> set (po_free ps) \<Longrightarrow> snd q < length (po_heap ps)"
    and "\<And>q. q \<in> set (po_free ps) \<Longrightarrow> clean (fst q) (obj_at ps (snd q))"
  shows "pools_ok (owned, ps)"
  using assms by (simp add: pools_ok_def)

lemma obj_at_set_obj [simp]:
  "a < length (po_heap ps) \<Longrightarrow> obj_at (set_obj a x ps) b = (if b = a then x else obj_at ps b)"
  by (simp add: obj_at_def set_obj_def)

lemma set_obj_fields [simp]:
  "po_free (set_obj a x ps) = po_free ps" "length (po_heap (set_obj a x ps)) = length (po_heap ps)"
  by (simp_all add: set_obj_def)

text \<open>An owned object may be replaced by any usable one.\<close>

lemma set_owned_ok:
  assumes ok: "pools_ok (owned, ps)" and a: "a \<in> set owned" and x: "usable x"
  shows "pools_ok (owned, set_obj a x ps)"
proof -
  note o = pools_okD [OF ok]
  have lt: "a < length (po_heap ps)" by (rule o(4) [OF a])
  have free: "snd q \<noteq> a" if "q \<in> set (po_free ps)" for q using that a o(3) by blast
  show ?thesis
    by (rule pools_okI) (use o lt x free in \<open>simp_all\<close>)
qed

lemma use_ok:
  "pools_ok (owned, ps) \<Longrightarrow> a \<in> set owned \<Longrightarrow> rel (obj_at ps a) x \<Longrightarrow> pools_ok (owned, set_obj a x ps)"
  by (rule set_owned_ok) (auto intro: used pools_okD(5))

lemma obj_grown: "a < length (po_heap ps) \<Longrightarrow> obj_at (ps\<lparr>po_heap := po_heap ps @ [x]\<rparr>) a = obj_at ps a"
  by (simp add: obj_at_def nth_append)

text \<open>
  What \<open>pool_Get\<close> gives: a clean object of the class that nobody owns and that is not free any
  more.
\<close>

lemma pool_Get_free:
  assumes ok: "pools_ok (owned, ps)" and split: "po_free ps = xs @ (k, a) # ys"
  shows "clean k (obj_at ps a) \<and> a < length (po_heap ps) \<and> a \<notin> set owned
    \<and> a \<notin> snd ` set (xs @ ys) \<and> pools_ok (owned, ps\<lparr>po_free := xs @ ys\<rparr>)"
proof -
  note o = pools_okD [OF ok]
  have q: "(k, a) \<in> set (po_free ps)" and sub: "set (xs @ ys) \<subseteq> set (po_free ps)" using split by auto
  have d: "distinct (map snd (xs @ (k, a) # ys))" using o(2) split by simp
  then have out: "a \<notin> snd ` set (xs @ ys)" and d': "distinct (map snd (xs @ ys))" by auto
  have obj: "obj_at (ps\<lparr>po_free := xs @ ys\<rparr>) b = obj_at ps b" for b by (simp add: obj_at_def)
  have "pools_ok (owned, ps\<lparr>po_free := xs @ ys\<rparr>)"
  proof (rule pools_okI)
    show "set owned \<inter> snd ` set (po_free (ps\<lparr>po_free := xs @ ys\<rparr>)) = {}" using o(3) sub by auto
    fix q
    assume "q \<in> set (po_free (ps\<lparr>po_free := xs @ ys\<rparr>))"
    with sub have "q \<in> set (po_free ps)" by auto
    from o(6,7) [OF this] show "snd q < length (po_heap (ps\<lparr>po_free := xs @ ys\<rparr>))"
      and "clean (fst q) (obj_at (ps\<lparr>po_free := xs @ ys\<rparr>) (snd q))" by (simp_all add: obj)
  qed (use o(1,4,5) d' obj in simp_all)
  with o(3) o(6,7) [OF q] q out show ?thesis by force
qed

lemma pool_Get_fresh:
  assumes ok: "pools_ok (owned, ps)"
  shows "pools_ok (owned, ps\<lparr>po_heap := po_heap ps @ [x]\<rparr>) \<and> length (po_heap ps) \<notin> set owned
    \<and> length (po_heap ps) \<notin> snd ` set (po_free ps)"
proof -
  note o = pools_okD [OF ok]
  have "pools_ok (owned, ps\<lparr>po_heap := po_heap ps @ [x]\<rparr>)"
    by (rule pools_okI) (use o in \<open>simp_all add: obj_grown less_Suc_eq\<close>)
  with o(4,6) show ?thesis by force
qed

lemma pool_Get_ok:
  assumes ok: "pools_ok (owned, ps)" and g: "pool_Get c k (fresh k) ps = (a, ps1)"
  shows "clean k (obj_at ps1 a) \<and> a < length (po_heap ps1) \<and> a \<notin> set owned \<and> a \<notin> snd ` set (po_free ps1)
    \<and> pools_ok (owned, ps1)"
proof (cases "\<exists>i. c = Some i \<and> i < length (po_free ps) \<and> fst (po_free ps ! i) = k")
  case True
  then obtain i where i: "c = Some i" "i < length (po_free ps)" "fst (po_free ps ! i) = k" by blast
  let ?f = "take i (po_free ps) @ drop (Suc i) (po_free ps)"
  have a: "snd (po_free ps ! i) = a" and ps1: "ps1 = ps\<lparr>po_free := ?f\<rparr>" using g i by (auto simp: pool_Get_def)
  from id_take_nth_drop [OF i(2)] i(3) a
  have "po_free ps = take i (po_free ps) @ (k, a) # drop (Suc i) (po_free ps)" by (metis prod.collapse)
  from pool_Get_free [OF ok this] show ?thesis by (simp add: ps1 obj_at_def)
next
  case False
  with g have "a = length (po_heap ps)" "ps1 = ps\<lparr>po_heap := po_heap ps @ [fresh k]\<rparr>"
    by (auto simp: pool_Get_def split: option.splits if_splits)
  with pool_Get_fresh [OF ok] show ?thesis by (simp add: obj_at_def fresh_clean)
qed

lemma adopt_ok:
  assumes ok: "pools_ok (owned, ps)" and a: "a < length (po_heap ps)" "a \<notin> set owned"
    "a \<notin> snd ` set (po_free ps)" and x: "usable x"
  shows "pools_ok (a # owned, set_obj a x ps)"
proof -
  note o = pools_okD [OF ok]
  have free: "snd q \<noteq> a" if "q \<in> set (po_free ps)" for q using that a(3) by blast
  show ?thesis
    by (rule pools_okI) (use o a x free in \<open>auto simp del: obj_at_set_obj simp: obj_at_set_obj [OF a(1)]\<close>)
qed

lemma get_object_ok:
  assumes ok: "pools_ok (owned, ps)" and g: "get_object fresh prepare c k ps = (a, ps')"
  shows "pools_ok (a # owned, ps') \<and> a \<notin> set owned \<and> (\<exists>x. clean k x \<and> obj_at ps' a = prepare x)"
proof -
  obtain ps1 where g1: "pool_Get c k (fresh k) ps = (a, ps1)" and ps': "ps' = set_obj a (prepare (obj_at ps1 a)) ps1"
    using g by (auto simp: get_object_def split: prod.splits)
  from pool_Get_ok [OF ok g1] have a: "clean k (obj_at ps1 a)" "a < length (po_heap ps1)" "a \<notin> set owned"
    "a \<notin> snd ` set (po_free ps1)" "pools_ok (owned, ps1)" by blast+
  from adopt_ok [OF a(5,2-4) prepared [OF a(1)]] a show ?thesis unfolding ps' by auto
qed

lemma release_ok:
  assumes ok: "pools_ok (owned, ps)" and a: "a \<in> set owned"
  shows "pools_ok (remove1 a owned, set_obj a x ps)"
proof -
  note o = pools_okD [OF ok]
  have lt: "a < length (po_heap ps)" by (rule o(4) [OF a])
  have free: "snd q \<noteq> a" if "q \<in> set (po_free ps)" for q using that a o(3) by blast
  have sub: "set (remove1 a owned) = set owned - {a}" using o(1) by (rule set_remove1_eq)
  show ?thesis
    by (rule pools_okI) (use o lt free sub in \<open>auto simp: distinct_remove1\<close>)
qed

lemma donate_ok:
  assumes ok: "pools_ok (owned, ps)" and a: "a < length (po_heap ps)" "a \<notin> set owned"
    "a \<notin> snd ` set (po_free ps)" and x: "clean k (obj_at ps a)"
  shows "pools_ok (owned, pool_Put k a ps)"
proof -
  note o = pools_okD [OF ok]
  show ?thesis
    by (rule pools_okI) (use o a x in \<open>auto simp: pool_Put_def obj_at_def\<close>)
qed

lemma put_object_ok:
  assumes ok: "pools_ok (owned, ps)" and a: "a \<in> set owned"
  shows "pools_ok (remove1 a owned, put_object reset kind a ps)"
proof -
  note o = pools_okD [OF ok]
  let ?x = "reset (obj_at ps a)" and ?ps = "set_obj a (reset (obj_at ps a)) ps"
  have lt: "a < length (po_heap ps)" by (rule o(4) [OF a])
  have rel: "pools_ok (remove1 a owned, ?ps)" by (rule release_ok [OF ok a])
  show ?thesis
  proof (cases "kind ?x")
    case None
    with rel show ?thesis by (simp add: put_object_def Let_def)
  next
    case (Some k)
    have "clean k (obj_at ?ps a)" using reset_clean [OF o(5) [OF a] Some] lt by simp
    moreover have "a \<notin> set (remove1 a owned)" using o(1) by simp
    moreover have "a \<notin> snd ` set (po_free ?ps)" using o(3) a by auto
    ultimately have "pools_ok (remove1 a owned, pool_Put k a ?ps)"
      using donate_ok [OF rel, of a k] lt by simp
    with Some show ?thesis by (simp add: put_object_def Let_def)
  qed
qed

lemma forget_ok:
  assumes "pools_ok (owned, ps)"
  shows "pools_ok (owned, ps\<lparr>po_free := filter keep (po_free ps)\<rparr>)"
proof -
  note o = pools_okD [OF assms]
  have obj: "obj_at (ps\<lparr>po_free := fs\<rparr>) b = obj_at ps b" for b fs by (simp add: obj_at_def)
  have "distinct (map snd (filter keep (po_free ps)))" using o(2) by (auto simp: distinct_map inj_on_def)
  then show ?thesis
    by (intro pools_okI) (use o in \<open>auto simp: obj\<close>)
qed

lemma own_step_ok:
  assumes "own_step getf putf rel w w'" and "pools_ok w"
    and "\<And>c i ps. \<exists>k. getf c i ps = get_object fresh prepare c k ps"
    and "\<And>a ps. putf a ps = put_object reset kind a ps"
  shows "pools_ok w'"
  using assms
proof (induction rule: own_step.induct)
  case (get c i ps a ps' owned)
  from get(3) [of c i ps] obtain k where "get_object fresh prepare c k ps = (a, ps')"
    using get(1) by auto
  from get_object_ok [OF get(2) this] show ?case by blast
next
  case (put a owned ps)
  from put_object_ok [OF put(2,1)] put(4) show ?case by simp
next
  case (use a owned ps x)
  from use_ok [OF use(3,1,2)] show ?case .
next
  case (forget owned ps keep)
  from forget_ok [OF forget(1)] show ?case .
qed

lemma own_run_ok:
  assumes "(own_step getf putf rel)\<^sup>*\<^sup>* ([], empty_pools) w"
    and "\<And>c i ps. \<exists>k. getf c i ps = get_object fresh prepare c k ps"
    and "\<And>a ps. putf a ps = put_object reset kind a ps"
  shows "pools_ok w"
  using assms(1)
proof (induction rule: rtranclp_induct)
  case base
  show ?case by (simp add: pools_ok_def empty_pools_def)
next
  case (step y z)
  from own_step_ok [OF step(2,3) assms(2,3)] show ?case .
qed

end

subsection \<open>The pools keep the contract\<close>

definition message_fits :: "pool_message \<Rightarrow> bool" where
  "message_fits m \<longleftrightarrow> length (pl_bytes m) \<le> pl_cap m"

definition buffer_fits :: "pool_buffer \<Rightarrow> bool" where
  "buffer_fits b \<longleftrightarrow> length (pb_data b) \<le> pb_cap b"

interpretation messages: pool_contract new_message message_Reset message_Reset "\<lambda>m. Some ()"
  "\<lambda>k. message_fits" message_fits "\<lambda>m m'. message_fits m'"
  by unfold_locales (auto simp: message_fits_def new_message_def message_Reset_def)

interpretation buffers: pool_contract new_buffer id buffer_Reset size_class
  "\<lambda>k b. pb_data b = [] \<and> pb_cap b = size_of k" buffer_fits "\<lambda>b b'. buffer_fits b'"
  by unfold_locales
    (auto simp: buffer_fits_def new_buffer_def buffer_Reset_def size_class_def split: if_splits)

interpretation metrics_objects: pool_contract "\<lambda>u. newMetrics now" "metrics_reset now" id "\<lambda>m. Some ()"
  "\<lambda>k m. True" "\<lambda>m. True" "\<lambda>m m'. True" for now
  by unfold_locales auto

interpretation session_metrics_objects: pool_contract "\<lambda>u. newSessionMetrics now" "sm_reset now" id "\<lambda>m. Some ()"
  "\<lambda>k m. True" "\<lambda>m. True" "\<lambda>m m'. True" for now
  by unfold_locales auto

interpretation timers: pool_contract new_timer timer_Reset "\<lambda>t. (timer_Stop t)\<lparr>tm_tick := False\<rparr>" "\<lambda>t. Some ()"
  "\<lambda>k t. \<not> tm_tick t \<and> \<not> tm_active t" "\<lambda>t. True" "\<lambda>t t'. True"
  by unfold_locales (auto simp: new_timer_def timer_Stop_def)

text \<open>The operations of an owner are uses the contract allows.\<close>

lemma message_uses:
  "message_fits m \<Longrightarrow> message_fits (SetPayload bs m)" "message_fits m \<Longrightarrow> message_fits (message_Reset m)"
  by (auto simp: message_fits_def SetPayload_def message_Reset_def Let_def)

lemma buffer_uses:
  "buffer_fits b \<Longrightarrow> buffer_fits (snd (buffer_Write grown bs b))" "buffer_fits b \<Longrightarrow> buffer_fits (buffer_Grow n b)"
  by (auto simp: buffer_fits_def buffer_Write_def buffer_Grow_def Let_def)

abbreviation message_run :: "nat list \<times> message_pool \<Rightarrow> bool" where
  "message_run w \<equiv> (own_step (\<lambda>c (i::unit). GetMessage c) (\<lambda>a. PutMessage (Some a))
     (\<lambda>m m'. message_fits m'))\<^sup>*\<^sup>* ([], empty_pools) w"

abbreviation buffer_run :: "nat list \<times> buffer_pool \<Rightarrow> bool" where
  "buffer_run w \<equiv> (own_step GetBuffer (\<lambda>a. PutBuffer (Some a)) (\<lambda>b b'. buffer_fits b'))\<^sup>*\<^sup>* ([], empty_pools) w"

lemma message_run_ok: "message_run w \<Longrightarrow> messages.pools_ok w"
  by (erule messages.own_run_ok) (simp_all add: GetMessage_def PutMessage_def)

lemma buffer_run_ok: "buffer_run w \<Longrightarrow> buffers.pools_ok w"
  by (erule buffers.own_run_ok) (auto simp: GetBuffer_def PutBuffer_def)

subsection \<open>Properties\<close>



text \<open>
  Over any life of the buffer pools, growing and writing included, the buffer \<open>GetBuffer\<close>
  returns is empty, has no other owner, and has room for the expected size exactly when that
  size is at most 32768: a larger request gets a buffer that is too small.
\<close>

theorem GetBuffer_capacity:
  assumes "buffer_run (owned, ps)" and "GetBuffer c n ps = (a, ps')"
  shows "a \<notin> set owned \<and> pb_data (obj_at ps' a) = []
    \<and> (n \<le> int (pb_cap (obj_at ps' a)) \<longleftrightarrow> n \<le> 32768)"
proof -
  from buffers.get_object_ok [OF buffer_run_ok [OF assms(1)] assms(2) [unfolded GetBuffer_def]]
  have "a \<notin> set owned" "pb_data (obj_at ps' a) = []" "pb_cap (obj_at ps' a) = size_of (size_for n)"
    by auto
  then show ?thesis by (auto simp: size_for_def)
qed

theorem GetBuffer_capacity_witness:
  "\<not> 40000 \<le> int (pb_cap (obj_at (snd (GetBuffer None 40000 empty_pools)) (fst (GetBuffer None 40000 empty_pools))))"
proof -
  obtain a ps' where g: "GetBuffer None 40000 empty_pools = (a, ps')" by (rule prod.exhaust)
  from GetBuffer_capacity [OF rtranclp.rtrancl_refl g] g show ?thesis by simp
qed

text \<open>
  \<open>Clone\<close> is a deep copy: the clone of an owned message is another object that nobody owns,
  with the same topic, payload, QoS, flag and time, and the original is as before.
\<close>

theorem Clone_is_deep:
  assumes "message_run (owned, ps)" and "a \<in> set owned" and "Clone c a ps = (b, ps')"
  shows "b \<noteq> a \<and> b \<notin> set owned \<and> obj_at ps' a = obj_at ps a
    \<and> (\<exists>room. obj_at ps' b = (obj_at ps a)\<lparr>pl_cap := room\<rparr>)"
proof -
  obtain ps1 where g: "GetMessage c ps = (b, ps1)" using assms(3) by (auto simp: Clone_def split: prod.splits)
  note o = messages.pools_okD [OF message_run_ok [OF assms(1)]]
  from messages.get_object_ok [OF message_run_ok [OF assms(1)] g [unfolded GetMessage_def]]
  have ok: "messages.pools_ok (b # owned, ps1)" and b: "b \<notin> set owned" by blast+
  have ba: "b \<noteq> a" using b assms(2) by blast
  have lt: "a < length (po_heap ps)" by (rule o(4) [OF assms(2)])
  have same: "obj_at ps1 a = obj_at ps a"
    using g lt ba by (auto simp: GetMessage_def get_object_def pool_Get_def obj_at_def set_obj_def nth_append
        split: option.splits if_splits)
  have ltb: "b < length (po_heap ps1)" by (rule messages.pools_okD(4) [OF ok]) simp
  have ps': "ps' = set_obj b ((SetPayload (pl_bytes (obj_at ps a)) (obj_at ps1 b))
      \<lparr>pl_topic := pl_topic (obj_at ps a), pl_qos := pl_qos (obj_at ps a),
       pl_retained := pl_retained (obj_at ps a), pl_time := pl_time (obj_at ps a)\<rparr>) ps1"
    using assms(3) g by (simp add: Clone_def same)
  have "obj_at ps' a = obj_at ps a" using ltb ba by (simp add: ps' same)
  moreover have "\<exists>room. obj_at ps' b = (obj_at ps a)\<lparr>pl_cap := room\<rparr>"
    using ltb by (intro exI [of _ "pl_cap (SetPayload (pl_bytes (obj_at ps a)) (obj_at ps1 b))"]
        pool_message.equality) (simp_all add: ps' SetPayload_def Let_def)
  ultimately show ?thesis using ba b by blast
qed

theorem Clone_is_deep_witness:
  "\<exists>ps. message_run ([0], ps) \<and> (\<forall>c. fst (Clone c 0 ps) \<noteq> 0)"
proof -
  let ?p1 = "\<lparr>po_heap = [message_Reset (new_message ())], po_free = []\<rparr> :: message_pool"
  have run: "message_run ([0], ?p1)"
    by (rule r_into_rtranclp, rule own_step.get [where c = None and i = "()"])
       (simp add: GetMessage_def get_object_def pool_Get_def empty_pools_def set_obj_def obj_at_def)
  have "fst (Clone c 0 ?p1) \<noteq> 0" for c
    using Clone_is_deep [OF run, of 0 c "fst (Clone c 0 ?p1)" "snd (Clone c 0 ?p1)"] by simp
  with run show ?thesis by blast
qed

text \<open>
  A timer that has fired is never recycled: \<open>PutTimer\<close> of a timer that was taken and ran to its
  end does nothing, since only \<open>Stop\<close> clears the flag it tests.
\<close>

theorem fired_timer_not_recycled:
  assumes "timers.pools_ok (owned, ps)" and "GetTimer c ps = (a, ps1)"
  shows "PutTimer (Some a) (set_obj a (timer_fires (obj_at ps1 a)) ps1)
    = set_obj a (timer_fires (obj_at ps1 a)) ps1"
proof -
  from timers.get_object_ok [OF assms(1) assms(2) [unfolded GetTimer_def]]
  have ok: "timers.pools_ok (a # owned, ps1)" and t: "\<exists>t. obj_at ps1 a = timer_Reset t" by blast+
  have "a < length (po_heap ps1)" by (rule timers.pools_okD(4) [OF ok]) simp
  with t show ?thesis by (auto simp: PutTimer_def timer_fires_def timer_Reset_def)
qed

theorem fired_timer_not_recycled_witness:
  "po_free (PutTimer (Some 0) (set_obj 0 (timer_fires (obj_at (snd (GetTimer None empty_pools)) 0))
     (snd (GetTimer None empty_pools)))) = []"
proof -
  have ok: "timers.pools_ok ([], empty_pools)" by (simp add: timers.pools_ok_def empty_pools_def)
  have g: "GetTimer None empty_pools = (0, snd (GetTimer None empty_pools))"
    by (simp add: GetTimer_def get_object_def pool_Get_def empty_pools_def)
  from fired_timer_not_recycled [OF ok g] show ?thesis
    by (simp add: GetTimer_def get_object_def pool_Get_def empty_pools_def set_obj_def)
qed

end
