(* ===== verification/Builders.thy ===== *)
theory Builders
  imports Forwarders
begin

text \<open>
  The fluent builders (\<open>builder.go\<close>) of session options and of forwarder configurations, and
  \<open>Options.Clone\<close> (\<open>options.go\<close>). What a builder returns shares objects with the builder, so the
  objects behind the pointers of \<open>Options\<close> that the code writes to, and the topic maps of the
  forwarder builder, live in explicit heaps.
\<close>

subsection \<open>strings.TrimSpace\<close>

text \<open>The UTF-8 encodings of the white space characters of \<open>unicode.IsSpace\<close>.\<close>

definition space_codes :: "string list" where
  "space_codes =
     map (\<lambda>n. [char_of n]) [9, 10, 11, 12, 13, 32 :: nat]
     @ map utf8 [[0xC2, 0x85], [0xC2, 0xA0], [0xE1, 0x9A, 0x80]]
     @ map (\<lambda>n. utf8 [0xE2, 0x80, n]) [0x80..<0x8B]
     @ map utf8 [[0xE2, 0x80, 0xA8], [0xE2, 0x80, 0xA9], [0xE2, 0x80, 0xAF], [0xE2, 0x81, 0x9F],
                 [0xE3, 0x80, 0x80]]"

definition starts_with :: "string \<Rightarrow> string \<Rightarrow> bool" where
  "starts_with s code \<longleftrightarrow> code \<noteq> [] \<and> take (length code) s = code"

text \<open>Drop codes from the front as long as there is one.\<close>

function strip :: "string list \<Rightarrow> string \<Rightarrow> string" where
  "strip codes s =
     (case find (starts_with s) codes of
        None \<Rightarrow> s
      | Some code \<Rightarrow> strip codes (drop (length code) s))"
  by pat_completeness auto
termination
proof (relation "measure (length \<circ> snd)")
  fix codes :: "string list" and s :: string and code
  assume "find (starts_with s) codes = Some code"
  then have "starts_with s code" by (auto simp: find_Some_iff)
  then have "s \<noteq> []" "code \<noteq> []" by (auto simp: starts_with_def)
  then show "((codes, drop (length code) s), codes, s) \<in> measure (length \<circ> snd)" by simp
qed simp

declare strip.simps [simp del]

definition TrimSpace :: "string \<Rightarrow> string" where
  "TrimSpace s = rev (strip (map rev space_codes) (rev (strip space_codes s)))"

subsection \<open>Options behind pointers\<close>

record opt_heap =
  oh_connect :: "connect_props list"
  oh_perf :: "performance_options list"
  oh_storage :: "storage_options list"

text \<open>
  An \<open>Options\<close> object: its own fields (\<open>oo_fields\<close>, whose three pointer fields are not used) and
  the pointers. \<open>view\<close> reads the whole value. A \<open>TLSConfig\<close> is replaced and never written, so it
  stays a value.
\<close>

record opts_obj =
  oo_fields :: options
  oo_connect :: "nat option"
  oo_perf :: "nat option"
  oo_storage :: "nat option"

definition view :: "opt_heap \<Rightarrow> opts_obj \<Rightarrow> options" where
  "view h ob =
     (oo_fields ob)\<lparr>op_connect := map_option (\<lambda>a. oh_connect h ! a) (oo_connect ob),
       op_performance := map_option (\<lambda>a. oh_perf h ! a) (oo_perf ob),
       op_storage := map_option (\<lambda>a. oh_storage h ! a) (oo_storage ob)\<rparr>"

definition new_connect :: "connect_props \<Rightarrow> opt_heap \<Rightarrow> nat \<times> opt_heap" where
  "new_connect c h = (length (oh_connect h), h\<lparr>oh_connect := oh_connect h @ [c]\<rparr>)"

definition new_perf :: "performance_options \<Rightarrow> opt_heap \<Rightarrow> nat \<times> opt_heap" where
  "new_perf p h = (length (oh_perf h), h\<lparr>oh_perf := oh_perf h @ [p]\<rparr>)"

definition new_storage :: "storage_options \<Rightarrow> opt_heap \<Rightarrow> nat \<times> opt_heap" where
  "new_storage s h = (length (oh_storage h), h\<lparr>oh_storage := oh_storage h @ [s]\<rparr>)"

text \<open>
  Writing through a pointer. Writing through a nil pointer would panic; the builder's pointers are
  never nil (\<open>builder_ok\<close> below).
\<close>

definition write_connect :: "(connect_props \<Rightarrow> connect_props) \<Rightarrow> opts_obj \<Rightarrow> opt_heap \<Rightarrow> opt_heap" where
  "write_connect f ob h =
     (case oo_connect ob of None \<Rightarrow> h
      | Some a \<Rightarrow> h\<lparr>oh_connect := (oh_connect h)[a := f (oh_connect h ! a)]\<rparr>)"

definition write_perf :: "(performance_options \<Rightarrow> performance_options) \<Rightarrow> opts_obj \<Rightarrow> opt_heap \<Rightarrow> opt_heap" where
  "write_perf f ob h =
     (case oo_perf ob of None \<Rightarrow> h
      | Some a \<Rightarrow> h\<lparr>oh_perf := (oh_perf h)[a := f (oh_perf h ! a)]\<rparr>)"

definition write_storage :: "(storage_options \<Rightarrow> storage_options) \<Rightarrow> opts_obj \<Rightarrow> opt_heap \<Rightarrow> opt_heap" where
  "write_storage f ob h =
     (case oo_storage ob of None \<Rightarrow> h
      | Some a \<Rightarrow> h\<lparr>oh_storage := (oh_storage h)[a := f (oh_storage h ! a)]\<rparr>)"

text \<open>
  \<open>Validate\<close> on an object: it writes to the objects its pointers name and allocates the missing
  ones, so writing the validated value back part by part is what it does.
\<close>

definition put_back :: "options \<Rightarrow> opts_obj \<Rightarrow> opt_heap \<Rightarrow> opts_obj \<times> opt_heap" where
  "put_back v ob h =
     (let (c, h1) =
            (case (op_connect v, oo_connect ob) of
               (Some x, None) \<Rightarrow> (let (a, h') = new_connect x h in (Some a, h'))
             | (Some x, Some a) \<Rightarrow> (Some a, write_connect (\<lambda>_. x) ob h)
             | (None, p) \<Rightarrow> (p, h));
          (p, h2) =
            (case (op_performance v, oo_perf ob) of
               (Some x, None) \<Rightarrow> (let (a, h') = new_perf x h1 in (Some a, h'))
             | (Some x, Some a) \<Rightarrow> (Some a, write_perf (\<lambda>_. x) ob h1)
             | (None, q) \<Rightarrow> (q, h1));
          (s, h3) =
            (case (op_storage v, oo_storage ob) of
               (Some x, None) \<Rightarrow> (let (a, h') = new_storage x h2 in (Some a, h'))
             | (Some x, Some a) \<Rightarrow> (Some a, write_storage (\<lambda>_. x) ob h2)
             | (None, q) \<Rightarrow> (q, h2))
      in (\<lparr>oo_fields = v, oo_connect = c, oo_perf = p, oo_storage = s\<rparr>, h3))"

definition Validate_obj :: "opts_obj \<Rightarrow> opt_heap \<Rightarrow> goerr option \<times> opts_obj \<times> opt_heap" where
  "Validate_obj ob h = (case Validate (view h ob) of (e, v) \<Rightarrow> (e, put_back v ob h))"

text \<open>\<open>Clone\<close> copies the connect and performance objects and shares the storage object.\<close>

definition Clone_opts :: "opts_obj \<Rightarrow> opt_heap \<Rightarrow> opts_obj \<times> opt_heap" where
  "Clone_opts ob h =
     (let (c, h1) = (case oo_connect ob of None \<Rightarrow> (None, h)
                     | Some a \<Rightarrow> (let (a', h') = new_connect (oh_connect h ! a) h in (Some a', h')));
          (p, h2) = (case oo_perf ob of None \<Rightarrow> (None, h1)
                     | Some a \<Rightarrow> (let (a', h') = new_perf (oh_perf h1 ! a) h1 in (Some a', h')))
      in (ob\<lparr>oo_connect := c, oo_perf := p\<rparr>, h2))"

subsection \<open>Session builder\<close>

record session_builder =
  sb_opts :: opts_obj
  sb_errors :: "goerr list"

definition addError :: "string \<Rightarrow> session_builder \<Rightarrow> session_builder" where
  "addError msg b = b\<lparr>sb_errors := sb_errors b @ [NewErr msg]\<rparr>"

definition set_fields :: "(options \<Rightarrow> options) \<Rightarrow> session_builder \<Rightarrow> session_builder" where
  "set_fields f b = b\<lparr>sb_opts := (sb_opts b)\<lparr>oo_fields := f (oo_fields (sb_opts b))\<rparr>\<rparr>"

text \<open>The options \<open>NewSessionBuilder\<close> and \<open>Reset\<close> start from; \<open>rand\<close> is read by \<open>randomClientID\<close>.\<close>

definition fresh_opts :: "string \<Rightarrow> byte list \<Rightarrow> opt_heap \<Rightarrow> opts_obj \<times> opt_heap" where
  "fresh_opts name rand h =
     (let (c, h1) = new_connect DefaultConnectProps h;
          (p, h2) = new_perf DefaultPerformance h1;
          (s, h3) = new_storage DefaultStorageOptions h2
      in (\<lparr>oo_fields = \<lparr>op_name = name, op_brokers = [''tcp://localhost:1883''], op_username = [],
             op_password = [],
             op_client_id = ''mqttx-'' @ name @ ''-'' @ dec_int (randomClientID rand), op_tls = None,
             op_enhanced = None, op_connect = None, op_topics = [], op_performance = None,
             op_storage = None, op_protocol = 0, op_mqtt5 = None\<rparr>,
            oo_connect = Some c, oo_perf = Some p, oo_storage = Some s\<rparr>, h3))"

type_synonym built = "session_builder \<times> opt_heap"

definition NewSessionBuilder :: "string \<Rightarrow> byte list \<Rightarrow> opt_heap \<Rightarrow> built" where
  "NewSessionBuilder name rand h =
     (case fresh_opts name rand h of (ob, h1) \<Rightarrow> (\<lparr>sb_opts = ob, sb_errors = []\<rparr>, h1))"

definition Reset_builder :: "string \<Rightarrow> byte list \<Rightarrow> built \<Rightarrow> built" where
  "Reset_builder name rand w =
     (case fresh_opts name rand (snd w) of (ob, h1) \<Rightarrow> ((fst w)\<lparr>sb_opts := ob, sb_errors := []\<rparr>, h1))"

definition with_scheme :: "string \<Rightarrow> string" where
  "with_scheme addr = (if \<not> str_contains addr ''://'' then ''tcp://'' @ addr else addr)"

definition Broker :: "string \<Rightarrow> session_builder \<Rightarrow> session_builder" where
  "Broker a b =
     (let addr = TrimSpace a
      in if addr = [] then addError ''broker address cannot be empty'' b
         else set_fields (\<lambda>v. v\<lparr>op_brokers := [with_scheme addr]\<rparr>) b)"

fun broker_list :: "string list \<Rightarrow> string list" where
  "broker_list [] = []"
| "broker_list (a # as) =
     (let addr = TrimSpace a
      in if addr \<noteq> [] then with_scheme addr # broker_list as else broker_list as)"

definition Brokers :: "string list \<Rightarrow> session_builder \<Rightarrow> session_builder" where
  "Brokers addrs b =
     (if length addrs = 0 then addError ''at least one broker address is required'' b
      else
        let brokers = broker_list addrs
        in if length brokers = 0 then addError ''no valid broker addresses provided'' b
           else set_fields (\<lambda>v. v\<lparr>op_brokers := brokers\<rparr>) b)"

definition ClientID :: "string \<Rightarrow> session_builder \<Rightarrow> session_builder" where
  "ClientID i b =
     (let id = TrimSpace i
      in if id = [] then addError ''client ID cannot be empty'' b
         else set_fields (\<lambda>v. v\<lparr>op_client_id := id\<rparr>) b)"

definition Auth :: "string \<Rightarrow> string \<Rightarrow> session_builder \<Rightarrow> session_builder" where
  "Auth username password b =
     set_fields (\<lambda>v. v\<lparr>op_username := TrimSpace username, op_password := password\<rparr>) b"

definition TLS :: "string \<Rightarrow> string \<Rightarrow> string \<Rightarrow> bool \<Rightarrow> session_builder \<Rightarrow> session_builder" where
  "TLS caFile certFile keyFile skipVerify b =
     set_fields (\<lambda>v. v\<lparr>op_tls := Some \<lparr>tls_ca = TrimSpace caFile, tls_cert = TrimSpace certFile,
                        tls_key = TrimSpace keyFile, tls_skip_verify = skipVerify\<rparr>\<rparr>) b"

definition QuickConnect :: "string \<Rightarrow> string \<Rightarrow> byte list \<Rightarrow> opt_heap \<Rightarrow> built" where
  "QuickConnect name broker rand h = apfst (Broker broker) (NewSessionBuilder name rand h)"

definition SecureConnect :: "string \<Rightarrow> string \<Rightarrow> string \<Rightarrow> byte list \<Rightarrow> opt_heap \<Rightarrow> built" where
  "SecureConnect name broker caFile rand h =
     apfst (TLS caFile [] [] False \<circ> Broker broker) (NewSessionBuilder name rand h)"

text \<open>The setters that write through the pointers of the options.\<close>

definition on_connect :: "(connect_props \<Rightarrow> connect_props) \<Rightarrow> built \<Rightarrow> built" where
  "on_connect f w = (fst w, write_connect f (sb_opts (fst w)) (snd w))"

definition on_perf :: "(performance_options \<Rightarrow> performance_options) \<Rightarrow> built \<Rightarrow> built" where
  "on_perf f w = (fst w, write_perf f (sb_opts (fst w)) (snd w))"

definition CleanSession :: "bool \<Rightarrow> built \<Rightarrow> built" where
  "CleanSession clean = on_connect (\<lambda>c. c\<lparr>cp_clean := clean\<rparr>)"

definition KeepAlive :: "int \<Rightarrow> built \<Rightarrow> built" where
  "KeepAlive seconds w =
     (if seconds \<le> 0 then apfst (addError ''keep alive must be positive'') w
      else on_connect (\<lambda>c. c\<lparr>cp_keep_alive := seconds\<rparr>) w)"

definition AutoReconnect :: "built \<Rightarrow> built" where
  "AutoReconnect = on_connect (\<lambda>c. c\<lparr>cp_auto := True\<rparr>)"

definition DisableReconnect :: "built \<Rightarrow> built" where
  "DisableReconnect = on_connect (\<lambda>c. c\<lparr>cp_auto := False\<rparr>)"

definition ReconnectConfig :: "int \<Rightarrow> int \<Rightarrow> f64 \<Rightarrow> built \<Rightarrow> built" where
  "ReconnectConfig initialSec maxSec backoffFactor w =
     (let i = (if initialSec \<le> 0 then 2 else initialSec);
          m = (if maxSec \<le> 0 then 120 else maxSec);
          f = (if f_le_one backoffFactor then f_1_5 else backoffFactor)
      in on_connect (\<lambda>c. c\<lparr>cp_initial := i64 (i * second), cp_max := i64 (m * second),
                           cp_backoff := f\<rparr>) w)"

definition Timeouts :: "int \<Rightarrow> int \<Rightarrow> built \<Rightarrow> built" where
  "Timeouts connectSec writeSec w =
     (let c = (if connectSec \<le> 0 then 30 else connectSec);
          wr = (if writeSec \<le> 0 then 30 else writeSec)
      in on_connect (\<lambda>p. p\<lparr>cp_connect_timeout := i64 (c * second),
                           cp_write_timeout := i64 (wr * second)\<rparr>) w)"

definition Performance :: "int \<Rightarrow> int \<Rightarrow> built \<Rightarrow> built" where
  "Performance bufferSizeKB maxPendingMsgs w =
     (let kb = (if bufferSizeKB \<le> 0 then 4 else bufferSizeKB);
          pend = (if maxPendingMsgs \<le> 0 then 1000 else maxPendingMsgs);
          bufferSize = i64 (kb * 1024)
      in on_perf (\<lambda>p. p\<lparr>pf_write_buffer := bufferSize, pf_read_buffer := bufferSize,
                        pf_max_pending := pend\<rparr>) w)"

definition MessageChannelSize :: "int \<Rightarrow> built \<Rightarrow> built" where
  "MessageChannelSize chanSize w =
     (let n = (if chanSize \<le> 0 then 100 else chanSize)
      in on_perf (\<lambda>p. p\<lparr>pf_chan_size := word_of_int n\<rparr>) w)"

definition Persistent :: "built \<Rightarrow> built" where
  "Persistent = on_connect (\<lambda>c. c\<lparr>cp_persistent := True, cp_clean := False\<rparr>)"

definition set_storage :: "storage_options \<Rightarrow> built \<Rightarrow> built" where
  "set_storage s w =
     (case new_storage s (snd w) of
        (a, h1) \<Rightarrow> ((fst w)\<lparr>sb_opts := (sb_opts (fst w))\<lparr>oo_storage := Some a\<rparr>\<rparr>, h1))"

definition FileStorage :: "string \<Rightarrow> built \<Rightarrow> built" where
  "FileStorage p w =
     (let path = TrimSpace p
      in if path = [] then apfst (addError ''storage path cannot be empty'') w
         else set_storage \<lparr>so_type = StoreTypeFile, so_path = path, so_redis = None\<rparr> w)"

definition RedisStorage :: "string \<Rightarrow> built \<Rightarrow> built" where
  "RedisStorage a w =
     (let addr = TrimSpace a
      in if addr = [] then apfst (addError ''redis address cannot be empty'') w
         else set_storage
           \<lparr>so_type = StoreTypeRedis, so_path = [],
            so_redis = Some \<lparr>ro_addr = addr, ro_username = [], ro_password = [], ro_db = 0,
                             ro_prefix = ''mqttx:session:'', ro_ttl = 86400, ro_pool = 10\<rparr>\<rparr> w)"

text \<open>\<open>RedisAuth\<close> writes to the storage object the options point to.\<close>

definition RedisAuth :: "string \<Rightarrow> string \<Rightarrow> int \<Rightarrow> built \<Rightarrow> built" where
  "RedisAuth username password db w =
     (case op_storage (view (snd w) (sb_opts (fst w))) of
        None \<Rightarrow> apfst (addError ''redis storage must be configured before setting auth'') w
      | Some s \<Rightarrow>
          if so_type s \<noteq> StoreTypeRedis
          then apfst (addError ''redis storage must be configured before setting auth'') w
          else
            let r = (case so_redis s of None \<Rightarrow> DefaultRedisOptions | Some r \<Rightarrow> r)
            in (fst w,
                write_storage (\<lambda>s. s\<lparr>so_redis := Some (r\<lparr>ro_username := TrimSpace username,
                                       ro_password := password, ro_db := db\<rparr>)\<rparr>)
                  (sb_opts (fst w)) (snd w)))"

definition builder_Subscribe :: "string \<Rightarrow> byte \<Rightarrow> handler \<Rightarrow> session_builder \<Rightarrow> session_builder" where
  "builder_Subscribe t qos h b =
     (let tpc = TrimSpace t
      in if tpc = [] then addError ''topic cannot be empty'' b
         else if qos > 2 then addError ''QoS must be 0, 1, or 2'' b
         else if h = NilHandler then addError ''message handler cannot be nil'' b
         else set_fields (\<lambda>v. v\<lparr>op_topics := op_topics v @ [\<lparr>tc_topic = tpc, tc_qos = qos,
                                                             tc_handler = h\<rparr>]\<rparr>) b)"

subsection \<open>Building\<close>

text \<open>\<open>%v\<close> of a slice of errors.\<close>

definition errors_text :: "goerr list \<Rightarrow> string" where
  "errors_text es = ''['' @ join_with '' '' (map err_text es) @ '']''"

definition Build :: "built \<Rightarrow> (goerr + opts_obj) \<times> built" where
  "Build w =
     (let b = fst w; h = snd w
      in if length (sb_errors b) > 0
         then (Inl (NewErr (''configuration errors: '' @ errors_text (sb_errors b))), w)
         else
           (case Validate_obj (sb_opts b) h of
              (Some e, ob, h1) \<Rightarrow>
                (Inl (WrapErr (''validation failed: '' @ err_text e) e), (b\<lparr>sb_opts := ob\<rparr>, h1))
            | (None, ob, h1) \<Rightarrow>
                (case Clone_opts ob h1 of (c, h2) \<Rightarrow> (Inr c, (b\<lparr>sb_opts := ob\<rparr>, h2)))))"

text \<open>\<^const>\<open>Inl\<close> is the value \<open>MustBuild\<close> panics with.\<close>

definition MustBuild :: "built \<Rightarrow> (string + opts_obj) \<times> built" where
  "MustBuild w =
     (case Build w of
        (Inl e, w1) \<Rightarrow> (Inl (''SessionBuilder.MustBuild failed: '' @ err_text e), w1)
      | (Inr ob, w1) \<Rightarrow> (Inr ob, w1))"

definition builder_Validate :: "session_builder \<Rightarrow> goerr list" where
  "builder_Validate b =
     (let es = sb_errors b; v = oo_fields (sb_opts b);
          es1 = (if op_name v = [] then es @ [NewErr ''session name is required''] else es);
          es2 = (if length (op_brokers v) = 0
                 then es1 @ [NewErr ''at least one broker is required''] else es1)
      in if op_client_id v = [] then es2 @ [NewErr ''client ID is required''] else es2)"

subsection \<open>Forwarder builder\<close>

text \<open>
  The configuration holds a pointer to its topic map (\<open>fb_map\<close>, into a heap of maps); \<open>fc_map\<close>
  of \<open>fb_config\<close> is not used. \<open>fwd_view\<close> reads the whole value.
\<close>

type_synonym topic_map = "(string, string) gomap"

record config_obj =
  co_config :: forwarder_config
  co_map :: "nat option"

record forwarder_builder =
  fb_obj :: config_obj
  fb_errors :: "goerr list"

type_synonym fbuilt = "forwarder_builder \<times> topic_map list"

definition fwd_view :: "topic_map list \<Rightarrow> config_obj \<Rightarrow> forwarder_config" where
  "fwd_view h ob = (co_config ob)\<lparr>fc_map := map_option (\<lambda>a. h ! a) (co_map ob)\<rparr>"

definition NewForwarderBuilder :: "string \<Rightarrow> forwarder_builder" where
  "NewForwarderBuilder name =
     \<lparr>fb_obj = \<lparr>co_config = \<lparr>fc_name = name, fc_source = [], fc_topics = [], fc_target = [],
                            fc_map = None, fc_qos = 1, fc_buffer = 100, fc_enabled = True\<rparr>,
               co_map = None\<rparr>, fb_errors = []\<rparr>"

definition fwd_addError :: "string \<Rightarrow> forwarder_builder \<Rightarrow> forwarder_builder" where
  "fwd_addError msg b = b\<lparr>fb_errors := fb_errors b @ [NewErr msg]\<rparr>"

definition set_config :: "(forwarder_config \<Rightarrow> forwarder_config) \<Rightarrow> forwarder_builder \<Rightarrow> forwarder_builder" where
  "set_config f b = b\<lparr>fb_obj := (fb_obj b)\<lparr>co_config := f (co_config (fb_obj b))\<rparr>\<rparr>"

fun trimmed :: "string list \<Rightarrow> string list" where
  "trimmed [] = []"
| "trimmed (t # ts) = (let tpc = TrimSpace t in if tpc \<noteq> [] then tpc # trimmed ts else trimmed ts)"

definition Source :: "string \<Rightarrow> string list \<Rightarrow> forwarder_builder \<Rightarrow> forwarder_builder" where
  "Source s topics b =
     (let src = TrimSpace s
      in if src = [] then fwd_addError ''source session cannot be empty'' b
         else if length topics = 0 then fwd_addError ''at least one source topic is required'' b
         else
           let validTopics = trimmed topics
           in if length validTopics = 0 then fwd_addError ''no valid source topics provided'' b
              else set_config (\<lambda>c. c\<lparr>fc_source := src, fc_topics := validTopics\<rparr>) b)"

definition Target :: "string \<Rightarrow> forwarder_builder \<Rightarrow> forwarder_builder" where
  "Target s b =
     (let tgt = TrimSpace s
      in if tgt = [] then fwd_addError ''target session cannot be empty'' b
         else set_config (\<lambda>c. c\<lparr>fc_target := tgt\<rparr>) b)"

definition fwd_QoS :: "byte \<Rightarrow> forwarder_builder \<Rightarrow> forwarder_builder" where
  "fwd_QoS qos b =
     (if qos > 2 then fwd_addError ''QoS must be 0, 1, or 2'' b
      else set_config (\<lambda>c. c\<lparr>fc_qos := qos\<rparr>) b)"

definition BufferSize :: "int \<Rightarrow> forwarder_builder \<Rightarrow> forwarder_builder" where
  "BufferSize n b = set_config (\<lambda>c. c\<lparr>fc_buffer := (if n \<le> 0 then 100 else n)\<rparr>) b"

text \<open>The map argument is in the order the loop visits it (\<^const>\<open>None\<close> is nil).\<close>

fun fill_map :: "topic_map \<Rightarrow> topic_map \<Rightarrow> topic_map" where
  "fill_map [] m = m"
| "fill_map ((s, d) # mappings) m =
     (let src = TrimSpace s
      in if src \<noteq> [] then
           let dst = TrimSpace d
           in if dst \<noteq> [] then fill_map mappings (mput src dst m) else fill_map mappings m
         else fill_map mappings m)"

definition new_map :: "topic_map \<Rightarrow> fbuilt \<Rightarrow> fbuilt" where
  "new_map m w =
     (let b = fst w in (b\<lparr>fb_obj := (fb_obj b)\<lparr>co_map := Some (length (snd w))\<rparr>\<rparr>, snd w @ [m]))"

definition TopicMapping :: "topic_map option \<Rightarrow> fbuilt \<Rightarrow> fbuilt" where
  "TopicMapping mappings w =
     (case mappings of
        None \<Rightarrow> w
      | Some tm \<Rightarrow> if length tm > 0 then new_map (fill_map tm []) w else w)"

definition MapTopic :: "string \<Rightarrow> string \<Rightarrow> fbuilt \<Rightarrow> fbuilt" where
  "MapTopic s d w =
     (let src = TrimSpace s; dst = TrimSpace d
      in if src = [] then apfst (fwd_addError ''source topic cannot be empty'') w
         else if dst = [] then apfst (fwd_addError ''destination topic cannot be empty'') w
         else
           let w1 = (if co_map (fb_obj (fst w)) = None then new_map [] w else w)
           in case co_map (fb_obj (fst w1)) of
                None \<Rightarrow> w1
              | Some a \<Rightarrow> (fst w1, (snd w1)[a := mput src dst (snd w1 ! a)]))"

definition Enable :: "forwarder_builder \<Rightarrow> forwarder_builder" where
  "Enable = set_config (\<lambda>c. c\<lparr>fc_enabled := True\<rparr>)"

definition Disable :: "forwarder_builder \<Rightarrow> forwarder_builder" where
  "Disable = set_config (\<lambda>c. c\<lparr>fc_enabled := False\<rparr>)"

text \<open>\<open>Build\<close> returns the configuration by value, and with it the pointer to the topic map.\<close>

definition fwd_Build :: "forwarder_builder \<Rightarrow> goerr + config_obj" where
  "fwd_Build b =
     (let c = co_config (fb_obj b)
      in if length (fb_errors b) > 0
         then Inl (NewErr (''forwarder configuration errors: '' @ errors_text (fb_errors b)))
         else if fc_name c = [] then Inl (NewErr ''forwarder name is required'')
         else if fc_source c = [] then Inl (NewErr ''source session is required'')
         else if length (fc_topics c) = 0 then Inl (NewErr ''at least one source topic is required'')
         else if fc_target c = [] then Inl (NewErr ''target session is required'')
         else Inr (fb_obj b))"

definition fwd_MustBuild :: "forwarder_builder \<Rightarrow> string + config_obj" where
  "fwd_MustBuild b =
     (case fwd_Build b of
        Inl e \<Rightarrow> Inl (''ForwarderBuilder.MustBuild failed: '' @ err_text e)
      | Inr ob \<Rightarrow> Inr ob)"

subsection \<open>Sequences of calls\<close>

datatype session_call =
    CallBroker string | CallBrokers "string list" | CallClientID string | CallAuth string string
  | CallTLS string string string bool | CallCleanSession bool | CallKeepAlive int
  | CallAutoReconnect | CallDisableReconnect | CallReconnectConfig int int f64
  | CallTimeouts int int | CallPerformance int int | CallMessageChannelSize int | CallPersistent
  | CallFileStorage string | CallRedisStorage string | CallRedisAuth string string int
  | CallSubscribe string byte handler | CallReset string "byte list" | CallBuild

fun session_call_step :: "session_call \<Rightarrow> built \<Rightarrow> built" where
  "session_call_step (CallBroker a) = apfst (Broker a)"
| "session_call_step (CallBrokers as) = apfst (Brokers as)"
| "session_call_step (CallClientID i) = apfst (ClientID i)"
| "session_call_step (CallAuth u p) = apfst (Auth u p)"
| "session_call_step (CallTLS a c k s) = apfst (TLS a c k s)"
| "session_call_step (CallCleanSession c) = CleanSession c"
| "session_call_step (CallKeepAlive n) = KeepAlive n"
| "session_call_step CallAutoReconnect = AutoReconnect"
| "session_call_step CallDisableReconnect = DisableReconnect"
| "session_call_step (CallReconnectConfig i m f) = ReconnectConfig i m f"
| "session_call_step (CallTimeouts c w) = Timeouts c w"
| "session_call_step (CallPerformance k p) = Performance k p"
| "session_call_step (CallMessageChannelSize n) = MessageChannelSize n"
| "session_call_step CallPersistent = Persistent"
| "session_call_step (CallFileStorage p) = FileStorage p"
| "session_call_step (CallRedisStorage a) = RedisStorage a"
| "session_call_step (CallRedisAuth u p d) = RedisAuth u p d"
| "session_call_step (CallSubscribe t q h) = apfst (builder_Subscribe t q h)"
| "session_call_step (CallReset n r) = Reset_builder n r"
| "session_call_step CallBuild = (\<lambda>w. snd (Build w))"

definition run_builder :: "session_call list \<Rightarrow> built \<Rightarrow> built" where
  "run_builder cs w = foldl (\<lambda>w c. session_call_step c w) w cs"

datatype forwarder_call =
    CallSource string "string list" | CallTarget string | CallQoS byte | CallBufferSize int
  | CallTopicMapping "topic_map option" | CallMapTopic string string | CallEnable | CallDisable

fun forwarder_call_step :: "forwarder_call \<Rightarrow> fbuilt \<Rightarrow> fbuilt" where
  "forwarder_call_step (CallSource s ts) = apfst (Source s ts)"
| "forwarder_call_step (CallTarget s) = apfst (Target s)"
| "forwarder_call_step (CallQoS q) = apfst (fwd_QoS q)"
| "forwarder_call_step (CallBufferSize n) = apfst (BufferSize n)"
| "forwarder_call_step (CallTopicMapping m) = TopicMapping m"
| "forwarder_call_step (CallMapTopic s d) = MapTopic s d"
| "forwarder_call_step CallEnable = apfst Enable"
| "forwarder_call_step CallDisable = apfst Disable"

definition run_forwarder_builder :: "forwarder_call list \<Rightarrow> fbuilt \<Rightarrow> fbuilt" where
  "run_forwarder_builder cs w = foldl (\<lambda>w c. forwarder_call_step c w) w cs"

subsection \<open>The contract of a builder\<close>

text \<open>
  A builder keeps its invariant, and what it has returned stays as it was through the calls that
  are safe for it: \<open>handed w ob\<close> says that \<open>ob\<close> may have been returned by the builder in \<open>w\<close>.
\<close>

locale builder_contract =
  fixes step :: "'call \<Rightarrow> 'w \<Rightarrow> 'w"
    and ok :: "'w \<Rightarrow> bool"
    and handed :: "'w \<Rightarrow> 'ob \<Rightarrow> bool"
    and seen :: "'w \<Rightarrow> 'ob \<Rightarrow> 'v"
    and safe :: "'call \<Rightarrow> bool"
  assumes step_ok: "ok w \<Longrightarrow> ok (step c w)"
    and step_handed: "ok w \<Longrightarrow> handed w ob \<Longrightarrow> handed (step c w) ob"
    and step_seen: "ok w \<Longrightarrow> handed w ob \<Longrightarrow> safe c \<Longrightarrow> seen (step c w) ob = seen w ob"
begin

abbreviation run :: "'call list \<Rightarrow> 'w \<Rightarrow> 'w" where
  "run cs w \<equiv> foldl (\<lambda>w c. step c w) w cs"

lemma run_ok: "ok w \<Longrightarrow> ok (run cs w)"
  by (induction cs arbitrary: w) (auto intro: step_ok)

lemma run_handed: "ok w \<Longrightarrow> handed w ob \<Longrightarrow> handed (run cs w) ob"
  by (induction cs arbitrary: w) (auto intro: step_ok step_handed)

lemma run_seen: "ok w \<Longrightarrow> handed w ob \<Longrightarrow> list_all safe cs \<Longrightarrow> seen (run cs w) ob = seen w ob"
  by (induction cs arbitrary: w) (auto simp: step_seen step_ok step_handed)

end

subsection \<open>The invariant of the session builder\<close>

definition fields_ok :: "options \<Rightarrow> bool" where
  "fields_ok v \<longleftrightarrow>
     op_brokers v \<noteq> [] \<and> (\<forall>a \<in> set (op_brokers v). str_contains a ''://'') \<and> op_client_id v \<noteq> []
     \<and> (\<forall>t \<in> set (op_topics v). tc_topic t \<noteq> [] \<and> tc_qos t \<le> 2 \<and> tc_handler t \<noteq> NilHandler)"

text \<open>The three pointers of an object and what they must name.\<close>

definition pointers_ok :: "opt_heap \<Rightarrow> opts_obj \<Rightarrow> bool" where
  "pointers_ok h ob \<longleftrightarrow>
     (\<exists>c p s. oo_connect ob = Some c \<and> c < length (oh_connect h) \<and> oo_perf ob = Some p
        \<and> p < length (oh_perf h) \<and> oo_storage ob = Some s \<and> s < length (oh_storage h)
        \<and> storage_ok (oh_storage h ! s))"

definition builder_ok :: "built \<Rightarrow> bool" where
  "builder_ok w \<longleftrightarrow> fields_ok (oo_fields (sb_opts (fst w))) \<and> pointers_ok (snd w) (sb_opts (fst w))"

text \<open>A returned object has connect and performance objects of its own; its storage may be shared.\<close>

definition handed_out :: "built \<Rightarrow> opts_obj \<Rightarrow> bool" where
  "handed_out w ob \<longleftrightarrow>
     pointers_ok (snd w) ob \<and> oo_connect ob \<noteq> oo_connect (sb_opts (fst w))
     \<and> oo_perf ob \<noteq> oo_perf (sb_opts (fst w))"

definition writes_storage :: "session_call \<Rightarrow> bool" where
  "writes_storage c = (case c of CallRedisAuth u p d \<Rightarrow> True | _ \<Rightarrow> False)"

lemma with_scheme_ok [simp]: "str_contains (with_scheme a) ''://''"
  by (auto simp: with_scheme_def)

lemma broker_list_ok: "a \<in> set (broker_list as) \<Longrightarrow> str_contains a ''://''"
  by (induction as) (auto simp: Let_def split: if_splits)

lemma fields_builder_ok:
  assumes "builder_ok w" and "fields_ok (oo_fields (sb_opts b))"
    and "oo_connect (sb_opts b) = oo_connect (sb_opts (fst w))"
    and "oo_perf (sb_opts b) = oo_perf (sb_opts (fst w))"
    and "oo_storage (sb_opts b) = oo_storage (sb_opts (fst w))"
  shows "builder_ok (b, snd w)"
  using assms by (auto simp: builder_ok_def pointers_ok_def)

lemma addError_simps [simp]: "sb_opts (addError t b) = sb_opts b"
  by (simp add: addError_def)

lemma set_fields_simps [simp]:
  "oo_fields (sb_opts (set_fields f b)) = f (oo_fields (sb_opts b))"
  "oo_connect (sb_opts (set_fields f b)) = oo_connect (sb_opts b)"
  "oo_perf (sb_opts (set_fields f b)) = oo_perf (sb_opts b)"
  "oo_storage (sb_opts (set_fields f b)) = oo_storage (sb_opts b)"
  by (simp_all add: set_fields_def)

text \<open>The setters of plain fields leave the pointers alone and keep the fields well-formed.\<close>

definition plain_setter :: "(session_builder \<Rightarrow> session_builder) \<Rightarrow> bool" where
  "plain_setter f \<longleftrightarrow>
     (\<forall>b. (fields_ok (oo_fields (sb_opts b)) \<longrightarrow> fields_ok (oo_fields (sb_opts (f b))))
        \<and> oo_connect (sb_opts (f b)) = oo_connect (sb_opts b)
        \<and> oo_perf (sb_opts (f b)) = oo_perf (sb_opts b)
        \<and> oo_storage (sb_opts (f b)) = oo_storage (sb_opts b))"

lemma plain_setters:
  "plain_setter (addError t)" "plain_setter (Broker a)" "plain_setter (Brokers as)"
  "plain_setter (ClientID i)" "plain_setter (Auth u p)" "plain_setter (TLS ca ce k s)"
  "plain_setter (builder_Subscribe tpc q h)"
  by (auto simp: plain_setter_def Broker_def Brokers_def ClientID_def Auth_def TLS_def
      builder_Subscribe_def Let_def fields_ok_def broker_list_ok not_less)

lemma plain_setter_ok: "plain_setter f \<Longrightarrow> builder_ok w \<Longrightarrow> builder_ok (apfst f w)"
  by (auto simp: plain_setter_def builder_ok_def pointers_ok_def)

lemma plain_setter_handed: "plain_setter f \<Longrightarrow> handed_out (apfst f w) ob = handed_out w ob"
  by (simp add: plain_setter_def handed_out_def)

text \<open>The setters that write through a pointer, and those that replace the storage.\<close>

lemma write_simps [simp]:
  "oh_perf (write_connect f ob h) = oh_perf h" "oh_storage (write_connect f ob h) = oh_storage h"
  "length (oh_connect (write_connect f ob h)) = length (oh_connect h)"
  "oh_connect (write_perf g ob h) = oh_connect h" "oh_storage (write_perf g ob h) = oh_storage h"
  "length (oh_perf (write_perf g ob h)) = length (oh_perf h)"
  "oh_connect (write_storage k ob h) = oh_connect h" "oh_perf (write_storage k ob h) = oh_perf h"
  "length (oh_storage (write_storage k ob h)) = length (oh_storage h)"
  by (simp_all add: write_connect_def write_perf_def write_storage_def split: option.splits)

lemma write_other [simp]:
  "Some a \<noteq> oo_connect ob \<Longrightarrow> oh_connect (write_connect f ob h) ! a = oh_connect h ! a"
  "Some a \<noteq> oo_perf ob \<Longrightarrow> oh_perf (write_perf g ob h) ! a = oh_perf h ! a"
  by (auto simp: write_connect_def write_perf_def split: option.splits)

lemma on_connect_contract:
  "builder_ok w \<Longrightarrow> builder_ok (on_connect f w)"
  "handed_out w ob \<Longrightarrow> handed_out (on_connect f w) ob"
  "handed_out w ob \<Longrightarrow> view (snd (on_connect f w)) ob = view (snd w) ob"
  by (auto simp: builder_ok_def on_connect_def pointers_ok_def handed_out_def view_def)

lemma on_perf_contract:
  "builder_ok w \<Longrightarrow> builder_ok (on_perf f w)"
  "handed_out w ob \<Longrightarrow> handed_out (on_perf f w) ob"
  "handed_out w ob \<Longrightarrow> view (snd (on_perf f w)) ob = view (snd w) ob"
  by (auto simp: builder_ok_def on_perf_def pointers_ok_def handed_out_def view_def)

lemmas contract_defs = builder_ok_def pointers_ok_def handed_out_def view_def

lemma set_storage_contract:
  "builder_ok w \<Longrightarrow> storage_ok s \<Longrightarrow> builder_ok (set_storage s w)"
  "handed_out w ob \<Longrightarrow> handed_out (set_storage s w) ob"
  "handed_out w ob \<Longrightarrow> view (snd (set_storage s w)) ob = view (snd w) ob"
  by (auto simp: contract_defs set_storage_def new_storage_def nth_append)

lemma fresh_opts_contract:
  assumes "fresh_opts name rand h = (ob, h1)"
  shows "fields_ok (oo_fields ob)" "pointers_ok h1 ob"
    "handed_out (b, h) x \<Longrightarrow> handed_out (\<lparr>sb_opts = ob, sb_errors = es\<rparr>, h1) x"
    "handed_out (b, h) x \<Longrightarrow> view h1 x = view h x"
  using assms
  by (auto simp: fresh_opts_def Let_def new_connect_def new_perf_def new_storage_def fields_ok_def
      contract_defs nth_append storage_ok_def DefaultStorageOptions_def eval_nat_numeral)

lemma Reset_contract:
  "builder_ok (Reset_builder n r w)"
  "handed_out w ob \<Longrightarrow> handed_out (Reset_builder n r w) ob"
  "handed_out w ob \<Longrightarrow> view (snd (Reset_builder n r w)) ob = view (snd w) ob"
proof -
  obtain o1 h1 where f: "fresh_opts n r (snd w) = (o1, h1)" by (rule prod.exhaust)
  note c = fresh_opts_contract [OF f]
  show "builder_ok (Reset_builder n r w)" using c(1,2) by (simp add: Reset_builder_def f builder_ok_def)
  assume h: "handed_out w ob"
  then have h': "handed_out (fst w, snd w) ob" by simp
  show "handed_out (Reset_builder n r w) ob"
    using c(3) [OF h', of "[]"] by (simp add: Reset_builder_def f handed_out_def)
  show "view (snd (Reset_builder n r w)) ob = view (snd w) ob"
    using c(4) [OF h'] by (simp add: Reset_builder_def f)
qed

lemma storage_ok_redis_auth:
  "storage_ok s \<Longrightarrow> so_type s = StoreTypeRedis \<Longrightarrow>
     storage_ok (s\<lparr>so_redis := Some ((case so_redis s of None \<Rightarrow> DefaultRedisOptions | Some r \<Rightarrow> r)
                   \<lparr>ro_username := u, ro_password := p, ro_db := d\<rparr>)\<rparr>)"
  by (auto simp: storage_ok_def store_type_defs split: option.splits)

lemma RedisAuth_contract:
  "builder_ok w \<Longrightarrow> builder_ok (RedisAuth u p d w)"
  "builder_ok w \<Longrightarrow> handed_out w ob \<Longrightarrow> handed_out (RedisAuth u p d w) ob"
proof -
  assume ok: "builder_ok w"
  then obtain a where a: "oo_storage (sb_opts (fst w)) = Some a" "a < length (oh_storage (snd w))"
      "storage_ok (oh_storage (snd w) ! a)"
    by (auto simp: builder_ok_def pointers_ok_def)
  let ?s = "oh_storage (snd w) ! a"
  have s: "op_storage (view (snd w) (sb_opts (fst w))) = Some ?s" by (simp add: view_def a)
  let ?s' = "?s\<lparr>so_redis := Some ((case so_redis ?s of None \<Rightarrow> DefaultRedisOptions | Some r \<Rightarrow> r)
                \<lparr>ro_username := TrimSpace u, ro_password := p, ro_db := d\<rparr>)\<rparr>"
  have eff: "RedisAuth u p d w =
      (if so_type ?s \<noteq> StoreTypeRedis
       then apfst (addError ''redis storage must be configured before setting auth'') w
       else (fst w, (snd w)\<lparr>oh_storage := (oh_storage (snd w))[a := ?s']\<rparr>))"
    by (simp add: RedisAuth_def s Let_def write_storage_def a)
  have good: "storage_ok ?s'" if "so_type ?s = StoreTypeRedis"
    by (rule storage_ok_redis_auth [OF a(3) that])
  show "builder_ok (RedisAuth u p d w)"
    using ok a good by (auto simp: eff plain_setter_ok [OF plain_setters(1)])
      (auto simp: builder_ok_def pointers_ok_def)
  assume h: "handed_out w ob"
  then show "handed_out (RedisAuth u p d w) ob"
    using a good by (auto simp: eff plain_setter_handed [OF plain_setters(1)])
      (auto simp: handed_out_def pointers_ok_def nth_list_update)
qed

subsection \<open>Build\<close>

lemma view_fields [simp]:
  "op_name (view h ob) = op_name (oo_fields ob)" "op_brokers (view h ob) = op_brokers (oo_fields ob)"
  "op_client_id (view h ob) = op_client_id (oo_fields ob)"
  "op_topics (view h ob) = op_topics (oo_fields ob)"
  "fields_ok (view h ob) = fields_ok (oo_fields ob)"
  by (simp_all add: view_def fields_ok_def)

text \<open>What validation finds and sets in a builder that is well-formed.\<close>

lemma Validate_builder:
  assumes "builder_ok w"
  defines "v \<equiv> view (snd w) (sb_opts (fst w))"
  shows "Validate v =
    (if op_name v = [] then (Some (Sentinel ErrInvalidOptions), v)
     else (None, v\<lparr>op_connect := Some (validate_connect (op_connect v)),
                   op_performance := Some (validate_performance (op_performance v))\<rparr>))"
proof -
  from assms(1) obtain s where s: "op_storage v = Some s" "storage_ok s"
    by (auto simp: builder_ok_def pointers_ok_def v_def view_def)
  have f: "fields_ok v" using assms(1) by (simp add: builder_ok_def v_def)
  then have t: "validate_topics (op_topics v) = None"
    by (auto simp: validate_topics_None fields_ok_def)
  have "v\<lparr>op_storage := Some s\<rparr> = v" using s(1) by (cases v) simp
  then have k: "v\<lparr>op_connect := c, op_performance := p, op_storage := Some s\<rparr> = v\<lparr>op_connect := c, op_performance := p\<rparr>"
    for c p using s(1) by (cases v) simp
  show ?thesis using f t by (simp add: Validate_def fields_ok_def s validate_storage_id Let_def k)
qed

lemma validated_storage:
  "builder_ok w \<Longrightarrow> Validate (view (snd w) (sb_opts (fst w))) = (None, v) \<Longrightarrow>
     op_storage v = op_storage (view (snd w) (sb_opts (fst w)))"
  using Validate_builder [of w] by (auto split: if_splits)

text \<open>Writing a value back through pointers that are not nil.\<close>

lemma put_back_Some:
  assumes "oo_connect ob = Some a" "oo_perf ob = Some b" "oo_storage ob = Some d"
    and "op_connect v = Some c" "op_performance v = Some p" "op_storage v = Some s"
  shows "put_back v ob h =
    (ob\<lparr>oo_fields := v\<rparr>,
     \<lparr>oh_connect = (oh_connect h)[a := c], oh_perf = (oh_perf h)[b := p], oh_storage = (oh_storage h)[d := s]\<rparr>)"
  using assms by (cases ob; cases h)
    (simp add: put_back_def Let_def write_connect_def write_perf_def write_storage_def)

lemma Clone_opts_Some:
  assumes "oo_connect ob = Some a" "oo_perf ob = Some b"
  shows "Clone_opts ob h =
    (ob\<lparr>oo_connect := Some (length (oh_connect h)), oo_perf := Some (length (oh_perf h))\<rparr>,
     h\<lparr>oh_connect := oh_connect h @ [oh_connect h ! a], oh_perf := oh_perf h @ [oh_perf h ! b]\<rparr>)"
  using assms by (simp add: Clone_opts_def new_connect_def new_perf_def Let_def)

text \<open>
  A build that is not refused: the value it returns is the validated value of the builder, the
  object it returns is handed out, and what was handed out before is not touched.
\<close>

lemma Build_accepts:
  assumes ok: "builder_ok w" and e: "sb_errors (fst w) = []"
    and n: "op_name (oo_fields (sb_opts (fst w))) \<noteq> []"
  obtains ob w' where "Build w = (Inr ob, w')" "Validate (view (snd w) (sb_opts (fst w))) = (None, view (snd w') ob)"
    "builder_ok w'" "handed_out w' ob"
    "\<And>x. handed_out w x \<Longrightarrow> handed_out w' x \<and> view (snd w') x = view (snd w) x"
proof -
  obtain bd h where w: "w = (bd, h)" by (rule prod.exhaust)
  let ?ob = "sb_opts bd"
  obtain a b d where p: "oo_connect ?ob = Some a" "a < length (oh_connect h)" "oo_perf ?ob = Some b"
      "b < length (oh_perf h)" "oo_storage ?ob = Some d" "d < length (oh_storage h)"
      "storage_ok (oh_storage h ! d)" and fo: "fields_ok (oo_fields ?ob)"
    using ok by (auto simp: builder_ok_def pointers_ok_def w)
  let ?v = "view h ?ob"
  let ?c = "validate_connect (op_connect ?v)" and ?p = "validate_performance (op_performance ?v)"
  let ?v' = "?v\<lparr>op_connect := Some ?c, op_performance := Some ?p\<rparr>"
  have s: "op_storage ?v = Some (oh_storage h ! d)" by (simp add: view_def p)
  have V: "Validate ?v = (None, ?v')" using Validate_builder [OF ok] n by (simp add: w)
  let ?h1 = "\<lparr>oh_connect = (oh_connect h)[a := ?c], oh_perf = (oh_perf h)[b := ?p],
              oh_storage = (oh_storage h)[d := oh_storage h ! d]\<rparr>"
  let ?o1 = "?ob\<lparr>oo_fields := ?v'\<rparr>"
  have pb: "put_back ?v' ?ob h = (?o1, ?h1)"
    by (rule put_back_Some [OF p(1) p(3) p(5)]) (simp_all add: s)
  let ?o2 = "?o1\<lparr>oo_connect := Some (length (oh_connect ?h1)), oo_perf := Some (length (oh_perf ?h1))\<rparr>"
  let ?h2 = "?h1\<lparr>oh_connect := oh_connect ?h1 @ [oh_connect ?h1 ! a], oh_perf := oh_perf ?h1 @ [oh_perf ?h1 ! b]\<rparr>"
  have cl: "Clone_opts ?o1 ?h1 = (?o2, ?h2)" by (rule Clone_opts_Some) (simp_all add: p)
  let ?w' = "(bd\<lparr>sb_opts := ?o1\<rparr>, ?h2)"
  show thesis
  proof (rule that [of ?o2 ?w'])
    show "Build w = (Inr ?o2, ?w')" using e
      by (simp add: Build_def w Validate_obj_def V pb cl Let_def del: list_update_id)
    have "view ?h2 ?o2 = ?v'" using p s
      by (intro options.equality) (simp_all add: view_def nth_append)
    with V show "Validate (view (snd w) (sb_opts (fst w))) = (None, view (snd ?w') ?o2)" by (simp add: w)
    show "builder_ok ?w'" using fo p by (simp add: builder_ok_def pointers_ok_def view_def fields_ok_def)
    show "handed_out ?w' ?o2" using p by (simp add: handed_out_def pointers_ok_def)
    show "handed_out ?w' x \<and> view (snd ?w') x = view (snd w) x" if "handed_out w x" for x
      using that p by (auto simp: w handed_out_def pointers_ok_def view_def nth_append)
  qed
qed

lemma Build_refuses:
  assumes ok: "builder_ok w"
    and e: "sb_errors (fst w) \<noteq> [] \<or> op_name (oo_fields (sb_opts (fst w))) = []"
  obtains err w' where "Build w = (Inl err, w')" "builder_ok w'"
    "\<And>x. handed_out w x \<Longrightarrow> handed_out w' x \<and> view (snd w') x = view (snd w) x"
proof (cases "sb_errors (fst w) = []")
  case False
  then have "Build w = (Inl (NewErr (''configuration errors: '' @ errors_text (sb_errors (fst w)))), w)"
    by (simp add: Build_def Let_def)
  with ok that show thesis by blast
next
  case True
  obtain bd h where w: "w = (bd, h)" by (rule prod.exhaust)
  let ?ob = "sb_opts bd" and ?v = "view h (sb_opts bd)"
  obtain a b d where p: "oo_connect ?ob = Some a" "a < length (oh_connect h)" "oo_perf ?ob = Some b"
      "b < length (oh_perf h)" "oo_storage ?ob = Some d" "d < length (oh_storage h)"
      "storage_ok (oh_storage h ! d)" and fo: "fields_ok (oo_fields ?ob)"
    using ok by (auto simp: builder_ok_def pointers_ok_def w)
  have V: "Validate ?v = (Some (Sentinel ErrInvalidOptions), ?v)"
    using Validate_builder [OF ok] e True by (simp add: w)
  have pb: "put_back ?v ?ob h = (?ob\<lparr>oo_fields := ?v\<rparr>, h)"
    using put_back_Some [OF p(1) p(3) p(5), of ?v "oh_connect h ! a" "oh_perf h ! b" "oh_storage h ! d" h]
    by (simp add: view_def p)
  let ?w' = "(bd\<lparr>sb_opts := ?ob\<lparr>oo_fields := ?v\<rparr>\<rparr>, h)"
  have B: "Build w = (Inl (WrapErr (''validation failed: '' @ err_text (Sentinel ErrInvalidOptions))
      (Sentinel ErrInvalidOptions)), ?w')"
    using True by (simp add: Build_def w Validate_obj_def V pb Let_def)
  show thesis
    by (rule that [OF B])
      (use fo p in \<open>auto simp: w builder_ok_def handed_out_def pointers_ok_def\<close>)
qed

lemma Build_contract:
  assumes "builder_ok w"
  shows "builder_ok (snd (Build w))"
    and "handed_out w ob \<Longrightarrow> handed_out (snd (Build w)) ob"
    and "handed_out w ob \<Longrightarrow> view (snd (snd (Build w))) ob = view (snd w) ob"
proof -
  obtain r w' where B: "Build w = (r, w')" "builder_ok w'"
      "\<And>x. handed_out w x \<Longrightarrow> handed_out w' x \<and> view (snd w') x = view (snd w) x"
    using Build_accepts [OF assms] Build_refuses [OF assms] by metis
  then show "builder_ok (snd (Build w))" by simp
  assume "handed_out w ob"
  with B(3) show "handed_out (snd (Build w)) ob" "view (snd (snd (Build w))) ob = view (snd w) ob"
    by (simp_all add: B(1))
qed

text \<open>The session builder satisfies the contract; \<open>RedisAuth\<close> is the call that is not safe.\<close>

lemmas connect_setters = CleanSession_def KeepAlive_def AutoReconnect_def DisableReconnect_def
  ReconnectConfig_def Timeouts_def Persistent_def

lemmas perf_setters = Performance_def MessageChannelSize_def

lemma storages_ok:
  "p \<noteq> [] \<Longrightarrow> storage_ok \<lparr>so_type = StoreTypeFile, so_path = p, so_redis = None\<rparr>"
  "a \<noteq> [] \<Longrightarrow> storage_ok \<lparr>so_type = StoreTypeRedis, so_path = [],
     so_redis = Some \<lparr>ro_addr = a, ro_username = [], ro_password = [], ro_db = 0,
                      ro_prefix = k, ro_ttl = 86400, ro_pool = 10\<rparr>\<rparr>"
  by (simp_all add: storage_ok_def store_type_defs)

lemmas plain_contract = plain_setters [THEN plain_setter_ok] plain_setters [THEN plain_setter_handed]

lemma session_step_ok: "builder_ok w \<Longrightarrow> builder_ok (session_call_step c w)"
  by (cases c)
    (simp_all add: plain_contract connect_setters perf_setters on_connect_contract on_perf_contract
      FileStorage_def RedisStorage_def set_storage_contract storages_ok RedisAuth_contract
      Reset_contract Build_contract Let_def)

lemma session_step_handed:
  "builder_ok w \<Longrightarrow> handed_out w ob \<Longrightarrow> handed_out (session_call_step c w) ob"
  by (cases c)
    (simp_all add: plain_contract connect_setters perf_setters on_connect_contract on_perf_contract
      FileStorage_def RedisStorage_def set_storage_contract storages_ok RedisAuth_contract
      Reset_contract Build_contract Let_def)

lemma session_step_seen:
  "builder_ok w \<Longrightarrow> handed_out w ob \<Longrightarrow> \<not> writes_storage c \<Longrightarrow>
     view (snd (session_call_step c w)) ob = view (snd w) ob"
  by (cases c)
    (simp_all add: writes_storage_def connect_setters perf_setters on_connect_contract on_perf_contract
      FileStorage_def RedisStorage_def set_storage_contract Reset_contract Build_contract Let_def)

interpretation sessions_built: builder_contract session_call_step builder_ok handed_out
  "\<lambda>w ob. view (snd w) ob" "\<lambda>c. \<not> writes_storage c"
  by unfold_locales (fact session_step_ok session_step_handed session_step_seen)+

lemma NewSessionBuilder_ok: "builder_ok (NewSessionBuilder name rand h)"
proof -
  obtain ob h1 where f: "fresh_opts name rand h = (ob, h1)" by (rule prod.exhaust)
  from fresh_opts_contract(1,2) [OF f] show ?thesis by (simp add: NewSessionBuilder_def f builder_ok_def)
qed

lemma run_builder_ok: "builder_ok (run_builder cs (NewSessionBuilder name rand h))"
  unfolding run_builder_def by (rule sessions_built.run_ok [OF NewSessionBuilder_ok])

subsection \<open>The invariant of the forwarder builder\<close>

definition forwarder_builder_ok :: "fbuilt \<Rightarrow> bool" where
  "forwarder_builder_ok w \<longleftrightarrow>
     (let c = co_config (fb_obj (fst w))
      in (fc_source c = [] \<longleftrightarrow> fc_topics c = []) \<and> [] \<notin> set (fc_topics c) \<and> fc_qos c \<le> 2
         \<and> fc_buffer c > 0
         \<and> (\<forall>a. co_map (fb_obj (fst w)) = Some a \<longrightarrow> a < length (snd w)))"

definition config_handed :: "fbuilt \<Rightarrow> config_obj \<Rightarrow> bool" where
  "config_handed w ob \<longleftrightarrow> (\<forall>a. co_map ob = Some a \<longrightarrow> a < length (snd w))"

definition writes_map :: "forwarder_call \<Rightarrow> bool" where
  "writes_map c = (case c of CallMapTopic s d \<Rightarrow> True | _ \<Rightarrow> False)"

lemma trimmed_ok: "[] \<notin> set (trimmed ts)"
  by (induction ts) (auto simp: Let_def)

lemmas forwarder_setters = Source_def Target_def fwd_QoS_def BufferSize_def Enable_def Disable_def
  fwd_addError_def set_config_def

lemma forwarder_step_ok: "forwarder_builder_ok w \<Longrightarrow> forwarder_builder_ok (forwarder_call_step c w)"
  by (cases c)
    (auto simp: forwarder_builder_ok_def forwarder_setters Let_def trimmed_ok not_less
      TopicMapping_def MapTopic_def new_map_def less_Suc_eq split: option.splits)

lemma forwarder_step_handed:
  "config_handed w ob \<Longrightarrow> config_handed (forwarder_call_step c w) ob"
  by (cases c)
    (auto simp: config_handed_def TopicMapping_def MapTopic_def new_map_def Let_def less_Suc_eq
      split: option.splits)

lemma forwarder_step_seen:
  "config_handed w ob \<Longrightarrow> \<not> writes_map c \<Longrightarrow>
     fwd_view (snd (forwarder_call_step c w)) ob = fwd_view (snd w) ob"
  by (cases c; cases "co_map ob")
    (auto simp: config_handed_def fwd_view_def writes_map_def TopicMapping_def new_map_def Let_def
      nth_append split: option.splits)

interpretation forwarders_built: builder_contract forwarder_call_step forwarder_builder_ok
  config_handed "\<lambda>w ob. fwd_view (snd w) ob" "\<lambda>c. \<not> writes_map c"
  by unfold_locales (simp_all add: forwarder_step_ok forwarder_step_handed forwarder_step_seen)

lemma NewForwarderBuilder_ok: "forwarder_builder_ok (NewForwarderBuilder name, h)"
  by (simp add: forwarder_builder_ok_def NewForwarderBuilder_def)

lemma run_forwarder_builder_ok:
  "forwarder_builder_ok (run_forwarder_builder cs (NewForwarderBuilder name, h))"
  unfolding run_forwarder_builder_def by (rule forwarders_built.run_ok [OF NewForwarderBuilder_ok])

subsection \<open>Properties\<close>



text \<open>
  C16. Options a builder has returned are as they were after any further calls of the builder, other
  builds included, unless one of them is \<open>RedisAuth\<close>: the storage object is shared, so a
  \<open>RedisAuth\<close> after the build puts its password and database into the returned options.
\<close>

theorem built_options_share_storage:
  assumes "Build (run_builder cs (NewSessionBuilder name rand h)) = (Inr ob, w)"
  shows "(list_all (\<lambda>c. \<not> writes_storage c) cs' \<longrightarrow> view (snd (run_builder cs' w)) ob = view (snd w) ob)
    \<and> (\<forall>s. op_storage (view (snd w) ob) = Some s \<and> so_type s = StoreTypeRedis \<longrightarrow>
         (\<exists>r. op_storage (view (snd (RedisAuth u p d w)) ob) = Some (s\<lparr>so_redis := Some r\<rparr>)
            \<and> ro_username r = TrimSpace u \<and> ro_password r = p \<and> ro_db r = d))"
proof -
  let ?w0 = "run_builder cs (NewSessionBuilder name rand h)"
  have ok: "builder_ok ?w0" by (rule run_builder_ok)
  have acc: "sb_errors (fst ?w0) = []" "op_name (oo_fields (sb_opts (fst ?w0))) \<noteq> []"
    using Build_refuses [OF ok] assms by (metis Inl_Inr_False prod.inject)+
  have w: "builder_ok w" "handed_out w ob" using Build_accepts [OF ok acc] assms by (metis prod.inject sum.inject(2))+
  have share: "oo_storage ob = oo_storage (sb_opts (fst w))"
    using assms by (auto simp: Build_def Clone_opts_def Let_def split: if_splits prod.splits option.splits)
  obtain a where a: "oo_storage (sb_opts (fst w)) = Some a" "a < length (oh_storage (snd w))"
    using w(1) by (auto simp: builder_ok_def pointers_ok_def)
  have "\<exists>r. op_storage (view (snd (RedisAuth u p d w)) ob) = Some (s\<lparr>so_redis := Some r\<rparr>)
      \<and> ro_username r = TrimSpace u \<and> ro_password r = p \<and> ro_db r = d"
    if "op_storage (view (snd w) ob) = Some s \<and> so_type s = StoreTypeRedis" for s
    using that a
    by (auto simp: view_def share RedisAuth_def Let_def write_storage_def
        intro!: exI [of _ "(case so_redis s of None \<Rightarrow> DefaultRedisOptions | Some r \<Rightarrow> r)
          \<lparr>ro_username := TrimSpace u, ro_password := p, ro_db := d\<rparr>"])
  with sessions_built.run_seen [OF w] show ?thesis unfolding run_builder_def by blast
qed

theorem built_options_share_storage_witness:
  "\<exists>ob w s. Build (RedisStorage ''redis:6379'' (NewSessionBuilder ''s'' (replicate 8 0)
        \<lparr>oh_connect = [], oh_perf = [], oh_storage = []\<rparr>)) = (Inr ob, w)
     \<and> op_storage (view (snd w) ob) = Some s \<and> map_option ro_password (so_redis s) = Some []
     \<and> (\<exists>r. op_storage (view (snd (RedisAuth [] ''secret'' 3 w)) ob) = Some (s\<lparr>so_redis := Some r\<rparr>)
          \<and> ro_password r = ''secret'')"
proof -
  let ?h = "\<lparr>oh_connect = [], oh_perf = [], oh_storage = []\<rparr>"
  let ?w0 = "run_builder [CallRedisStorage ''redis:6379''] (NewSessionBuilder ''s'' (replicate 8 0) ?h)"
  have t: "TrimSpace ''redis:6379'' = ''redis:6379''" by code_simp
  have n: "sb_errors (fst ?w0) = []" "op_name (oo_fields (sb_opts (fst ?w0))) \<noteq> []"
      and s0: "op_storage (view (snd ?w0) (sb_opts (fst ?w0))) = Some
        \<lparr>so_type = StoreTypeRedis, so_path = [], so_redis = Some \<lparr>ro_addr = ''redis:6379'', ro_username = [],
           ro_password = [], ro_db = 0, ro_prefix = ''mqttx:session:'', ro_ttl = 86400, ro_pool = 10\<rparr>\<rparr>"
    by (simp_all add: run_builder_def NewSessionBuilder_def fresh_opts_def Let_def new_connect_def
        new_perf_def new_storage_def RedisStorage_def set_storage_def t view_def)
  obtain ob w where B: "Build ?w0 = (Inr ob, w)"
      "Validate (view (snd ?w0) (sb_opts (fst ?w0))) = (None, view (snd w) ob)"
    by (rule Build_accepts [OF run_builder_ok n]) blast
  then have s: "op_storage (view (snd w) ob) = op_storage (view (snd ?w0) (sb_opts (fst ?w0)))"
    by (intro validated_storage [OF run_builder_ok])
  from built_options_share_storage [OF B(1), of "[]" "[]" "''secret''" 3] B(1) s s0 show ?thesis
    by (intro exI [of _ ob] exI [of _ w] exI) (auto simp: run_builder_def)
qed

text \<open>
  The forwarder builder returns a configuration exactly when no call was refused, the name is
  not empty, and a source and a target were accepted; a forwarder can then be created from it, with
  the buffer size as the room of its channel, a QoS of at most two and no empty topic.
\<close>

theorem fwd_Build_outcome:
  assumes "w = run_forwarder_builder cs (NewForwarderBuilder name, h)"
  shows "case fwd_Build (fst w) of
      Inl e \<Rightarrow> fb_errors (fst w) \<noteq> [] \<or> fc_name (co_config (fb_obj (fst w))) = []
        \<or> fc_source (co_config (fb_obj (fst w))) = [] \<or> fc_target (co_config (fb_obj (fst w))) = []
    | Inr ob \<Rightarrow> fb_errors (fst w) = [] \<and>
        (\<exists>f. NewForwarder (fwd_view (snd w) ob) = Inr f \<and> fw_config f = fwd_view (snd w) ob
           \<and> int (fw_room f) = fc_buffer (co_config ob) \<and> 0 < fw_room f \<and> fc_qos (fw_config f) \<le> 2
           \<and> fc_name (fw_config f) \<noteq> [] \<and> [] \<notin> set (fc_topics (fw_config f)))"
proof -
  have ok: "forwarder_builder_ok w" by (simp add: assms run_forwarder_builder_ok)
  then show ?thesis
    by (auto simp: fwd_Build_def Let_def forwarder_builder_ok_def NewForwarder_def fwd_view_def)
qed

theorem fwd_Build_outcome_witness:
  "\<exists>ob. fwd_Build (fst (run_forwarder_builder [CallSource ''src'' ['' a/# '', '' ''], CallTarget ''dst'', CallBufferSize 0]
       (NewForwarderBuilder ''f'', []))) = Inr ob
     \<and> (\<exists>f. NewForwarder (fwd_view [] ob) = Inr f \<and> fc_topics (fw_config f) = [''a/#''] \<and> fw_room f = 100)"
proof -
  let ?cs = "[CallSource ''src'' ['' a/# '', '' ''], CallTarget ''dst'', CallBufferSize 0]"
  let ?w = "run_forwarder_builder ?cs (NewForwarderBuilder ''f'', [])"
  have t1: "TrimSpace ''src'' = ''src''" by code_simp
  have t2: "TrimSpace '' a/# '' = ''a/#''" by code_simp
  have t3: "TrimSpace '' '' = []" by code_simp
  have t4: "TrimSpace ''dst'' = ''dst''" by code_simp
  note t = t1 t2 t3 t4
  have w: "?w = (\<lparr>fb_obj = \<lparr>co_config = \<lparr>fc_name = ''f'', fc_source = ''src'', fc_topics = [''a/#''],
      fc_target = ''dst'', fc_map = None, fc_qos = 1, fc_buffer = 100, fc_enabled = True\<rparr>, co_map = None\<rparr>,
      fb_errors = []\<rparr>, [])"
    by (simp add: run_forwarder_builder_def NewForwarderBuilder_def forwarder_setters t Let_def)
  have B: "fwd_Build (fst ?w) = Inr (fb_obj (fst ?w))" by (simp add: w fwd_Build_def Let_def)
  from fwd_Build_outcome [OF refl, of ?cs "''f''" "[]"]
  obtain f where f: "NewForwarder (fwd_view (snd ?w) (fb_obj (fst ?w))) = Inr f"
      "fw_config f = fwd_view (snd ?w) (fb_obj (fst ?w))" "int (fw_room f) = fc_buffer (co_config (fb_obj (fst ?w)))"
    by (simp only: B sum.case) blast
  then have "fc_topics (fw_config f) = [''a/#'']" "fw_room f = 100" and n: "NewForwarder (fwd_view [] (fb_obj (fst ?w))) = Inr f"
    by (simp_all add: w fwd_view_def)
  with B show ?thesis by blast
qed

text \<open>
  A configuration a forwarder builder has returned stays as it was through further calls that do
  not include \<open>MapTopic\<close>; but it shares the builder's topic map, so when it has one, a later
  \<open>MapTopic\<close> on the builder changes the mapping of the returned configuration, and of a forwarder
  created from it.
\<close>

theorem built_config_shares_map:
  assumes "w = run_forwarder_builder cs (NewForwarderBuilder name, h)" and "fwd_Build (fst w) = Inr ob"
  shows "(list_all (\<lambda>c. \<not> writes_map c) cs' \<longrightarrow>
           fwd_view (snd (run_forwarder_builder cs' w)) ob = fwd_view (snd w) ob)
    \<and> (\<forall>m. fc_map (fwd_view (snd w) ob) = Some m \<and> TrimSpace s \<noteq> [] \<and> TrimSpace d \<noteq> [] \<longrightarrow>
         fc_map (fwd_view (snd (MapTopic s d w)) ob) = Some (mput (TrimSpace s) (TrimSpace d) m))"
proof -
  have ok: "forwarder_builder_ok w" by (simp add: assms run_forwarder_builder_ok)
  have ob: "ob = fb_obj (fst w)" using assms(2) by (auto simp: fwd_Build_def Let_def split: if_splits)
  then have h: "config_handed w ob" using ok by (simp add: config_handed_def forwarder_builder_ok_def Let_def)
  have "fc_map (fwd_view (snd (MapTopic s d w)) ob) = Some (mput (TrimSpace s) (TrimSpace d) m)"
    if "fc_map (fwd_view (snd w) ob) = Some m \<and> TrimSpace s \<noteq> [] \<and> TrimSpace d \<noteq> []" for m
    using that ok by (auto simp: ob fwd_view_def MapTopic_def Let_def forwarder_builder_ok_def)
  with forwarders_built.run_seen [OF ok h] show ?thesis unfolding run_forwarder_builder_def by blast
qed

theorem built_config_shares_map_witness:
  "\<exists>ob w. fwd_Build (fst w) = Inr ob \<and> fc_map (fwd_view (snd w) ob) = Some [(''a'', ''b'')]
     \<and> fc_map (fwd_view (snd (MapTopic ''a'' ''z'' w)) ob) = Some [(''a'', ''z'')]"
proof -
  let ?cs = "[CallSource ''src'' [''a''], CallTarget ''dst'', CallMapTopic ''a'' ''b'']"
  let ?w = "run_forwarder_builder ?cs (NewForwarderBuilder ''f'', [])"
  have t1: "TrimSpace ''src'' = ''src''" by code_simp
  have t2: "TrimSpace ''a'' = ''a''" by code_simp
  have t3: "TrimSpace ''dst'' = ''dst''" by code_simp
  have t4: "TrimSpace ''b'' = ''b''" by code_simp
  have t5: "TrimSpace ''z'' = ''z''" by code_simp
  note t = t1 t2 t3 t4 t5
  have w: "?w = (\<lparr>fb_obj = \<lparr>co_config = \<lparr>fc_name = ''f'', fc_source = ''src'', fc_topics = [''a''],
      fc_target = ''dst'', fc_map = None, fc_qos = 1, fc_buffer = 100, fc_enabled = True\<rparr>, co_map = Some 0\<rparr>,
      fb_errors = []\<rparr>, [[(''a'', ''b'')]])"
    by (simp add: run_forwarder_builder_def NewForwarderBuilder_def forwarder_setters t Let_def
        MapTopic_def new_map_def)
  have B: "fwd_Build (fst ?w) = Inr (fb_obj (fst ?w))" by (simp add: w fwd_Build_def Let_def)
  have m: "fc_map (fwd_view (snd ?w) (fb_obj (fst ?w))) = Some [(''a'', ''b'')]"
    by (simp add: w fwd_view_def)
  from built_config_shares_map [OF refl B, of "[]" "''a''" "''z''"] m B
  show ?thesis by (intro exI [of _ "fb_obj (fst ?w)"] exI [of _ ?w]) (simp add: t)
qed

end
