(* ===== verification/Security.thy ===== *)
theory Security
  imports Config Codec
begin

text \<open>
  Enhanced TLS (\<open>security.go\<close>): the configuration with its setters, building and caching the TLS
  configuration from certificate files, reloading, and the certificate watcher, whose goroutine is
  modelled once by what a tick does and once by the steps it takes with the calls of \<open>Disconnect\<close>.

  The cryptographic functions of the standard library are parameters (\<open>crypto\<close>), the files are a
  function from names to what reading them returns. Times are nanoseconds.
\<close>

subsection \<open>What the code uses of the crypto libraries\<close>

record pem_block =
  pb_type :: string
  pb_bytes :: payload

record key_pair =
  kp_chain :: "payload list"
  kp_key :: payload

text \<open>
  \<open>cy_certs\<close>: the certificates \<open>AppendCertsFromPEM\<close> adds (it answers whether there are any);
  \<open>cy_parse\<close>: \<open>x509.ParseCertificate\<close>, of the result only \<open>NotAfter\<close> is used; \<open>cy_pair\<close>:
  \<open>tls.X509KeyPair\<close>; \<open>cy_decode\<close>, \<open>cy_encode\<close>: \<open>pem.Decode\<close> and \<open>pem.EncodeToMemory\<close>;
  \<open>cy_encrypted\<close>, \<open>cy_decrypt\<close>: \<open>x509.IsEncryptedPEMBlock\<close> and \<open>x509.DecryptPEMBlock\<close>.
\<close>

record crypto =
  cy_certs :: "payload \<Rightarrow> payload list"
  cy_parse :: "payload \<Rightarrow> goerr + int"
  cy_pair :: "payload \<Rightarrow> payload \<Rightarrow> goerr + key_pair"
  cy_decode :: "payload \<Rightarrow> (pem_block \<times> payload) option"
  cy_encode :: "pem_block \<Rightarrow> payload"
  cy_encrypted :: "pem_block \<Rightarrow> bool"
  cy_decrypt :: "pem_block \<Rightarrow> payload \<Rightarrow> goerr + payload"

type_synonym read_file = "string \<Rightarrow> goerr + payload"

subsection \<open>The configuration\<close>

record tls_built =
  tb_skip_verify :: bool
  tb_min :: u16
  tb_max :: u16
  tb_ciphers :: "u16 list"
  tb_curves :: "u16 list"
  tb_roots :: "payload list option"
  tb_certs :: "key_pair list"

definition CertFormatPEM :: string where "CertFormatPEM = ''pem''"
definition CertFormatDER :: string where "CertFormatDER = ''der''"

text \<open>\<open>ec_watcher\<close> is whether the pointer to the watcher is set.\<close>

record enhanced_config =
  ec_ca :: string
  ec_cert :: string
  ec_key :: string
  ec_skip_verify :: bool
  ec_ca_format :: string
  ec_cert_format :: string
  ec_key_format :: string
  ec_key_password :: string
  ec_cert_password :: string
  ec_min :: u16
  ec_max :: u16
  ec_ciphers :: "u16 list"
  ec_curves :: "u16 list"
  ec_auto :: bool
  ec_interval :: int
  ec_warning :: int
  ec_expiry :: int
  ec_last_reload :: int
  ec_tls :: "tls_built option"
  ec_watcher :: bool

definition newSecurityError :: "string \<Rightarrow> goerr option \<Rightarrow> goerr" where
  "newSecurityError message err = SecurityError message err"

definition hour :: int where "hour = 3600 * second"

definition NewEnhancedTLSConfig :: enhanced_config where
  "NewEnhancedTLSConfig =
     \<lparr>ec_ca = [], ec_cert = [], ec_key = [], ec_skip_verify = False, ec_ca_format = CertFormatPEM,
      ec_cert_format = CertFormatPEM, ec_key_format = CertFormatPEM, ec_key_password = [],
      ec_cert_password = [], ec_min = VersionTLS12, ec_max = 0, ec_ciphers = [], ec_curves = [],
      ec_auto = False, ec_interval = 24 * hour, ec_warning = 30 * 24 * hour, ec_expiry = zero_time,
      ec_last_reload = zero_time, ec_tls = None, ec_watcher = False\<rparr>"

definition WithCACert :: "string \<Rightarrow> string \<Rightarrow> enhanced_config \<Rightarrow> enhanced_config" where
  "WithCACert caFile format c =
     (let c1 = c\<lparr>ec_ca := caFile\<rparr> in if format \<noteq> [] then c1\<lparr>ec_ca_format := format\<rparr> else c1)"

definition WithClientCert ::
  "string \<Rightarrow> string \<Rightarrow> string \<Rightarrow> string \<Rightarrow> enhanced_config \<Rightarrow> enhanced_config" where
  "WithClientCert certFile keyFile certFormat keyFormat c =
     (let c1 = c\<lparr>ec_cert := certFile, ec_key := keyFile\<rparr>;
          c2 = (if certFormat \<noteq> [] then c1\<lparr>ec_cert_format := certFormat\<rparr> else c1)
      in if keyFormat \<noteq> [] then c2\<lparr>ec_key_format := keyFormat\<rparr> else c2)"

definition WithPassword :: "string \<Rightarrow> string \<Rightarrow> enhanced_config \<Rightarrow> enhanced_config" where
  "WithPassword certPassword keyPassword c =
     c\<lparr>ec_cert_password := certPassword, ec_key_password := keyPassword\<rparr>"

definition WithTLSVersion :: "u16 \<Rightarrow> u16 \<Rightarrow> enhanced_config \<Rightarrow> enhanced_config" where
  "WithTLSVersion minVersion maxVersion c =
     (let c1 = c\<lparr>ec_min := minVersion\<rparr> in if maxVersion > 0 then c1\<lparr>ec_max := maxVersion\<rparr> else c1)"

definition WithCipherSuites :: "u16 list \<Rightarrow> enhanced_config \<Rightarrow> enhanced_config" where
  "WithCipherSuites cipherSuites c = c\<lparr>ec_ciphers := cipherSuites\<rparr>"

definition WithCurvePreferences :: "u16 list \<Rightarrow> enhanced_config \<Rightarrow> enhanced_config" where
  "WithCurvePreferences curves c = c\<lparr>ec_curves := curves\<rparr>"

definition WithAutoReload :: "bool \<Rightarrow> int \<Rightarrow> enhanced_config \<Rightarrow> enhanced_config" where
  "WithAutoReload autoReload reloadInterval c =
     (let c1 = c\<lparr>ec_auto := autoReload\<rparr>
      in if reloadInterval > 0 then c1\<lparr>ec_interval := reloadInterval\<rparr> else c1)"

definition WithCertExpireWarning :: "int \<Rightarrow> enhanced_config \<Rightarrow> enhanced_config" where
  "WithCertExpireWarning warning c = c\<lparr>ec_warning := warning\<rparr>"

subsection \<open>Loading certificates\<close>

definition loadCACert :: "crypto \<Rightarrow> read_file \<Rightarrow> enhanced_config \<Rightarrow> goerr + payload list" where
  "loadCACert cy readf c =
     (if ec_ca_format c = CertFormatPEM then
        (case readf (ec_ca c) of
           Inl e \<Rightarrow> Inl (newSecurityError ''failed to read CA file'' (Some e))
         | Inr x \<Rightarrow>
             if cy_certs cy x = [] then Inl (newSecurityError ''failed to parse CA certificate'' None)
             else Inr (cy_certs cy x))
      else if ec_ca_format c = CertFormatDER then
        (case readf (ec_ca c) of
           Inl e \<Rightarrow> Inl (newSecurityError ''failed to read CA file'' (Some e))
         | Inr x \<Rightarrow>
             (case cy_parse cy x of
                Inl e \<Rightarrow> Inl (newSecurityError ''failed to parse DER CA certificate'' (Some e))
              | Inr t \<Rightarrow> Inr [x]))
      else Inl (newSecurityError (''unsupported CA certificate format: '' @ ec_ca_format c) None))"

text \<open>
  The loop that looks for the private key among the blocks of the key file. The outer
  \<^const>\<open>None\<close> would be a loop that does not end, the inner one the end of the blocks.
\<close>

definition is_key_type :: "string \<Rightarrow> bool" where
  "is_key_type t \<longleftrightarrow> t = ''PRIVATE KEY'' \<or> t = ''RSA PRIVATE KEY''"

partial_function (option) key_block ::
  "(payload \<Rightarrow> (pem_block \<times> payload) option) \<Rightarrow> payload \<Rightarrow> pem_block option option" where
  "key_block decode x =
     (case decode x of
        None \<Rightarrow> Some None
      | Some (blk, rest) \<Rightarrow> if is_key_type (pb_type blk) then Some (Some blk) else key_block decode rest)"

text \<open>\<^const>\<open>None\<close>: the search above does not return.\<close>

definition loadPEMWithPassword ::
  "crypto \<Rightarrow> read_file \<Rightarrow> string \<Rightarrow> string \<Rightarrow> string \<Rightarrow> (goerr + key_pair) option" where
  "loadPEMWithPassword cy readf certFile keyFile password =
     (case readf certFile of
        Inl e \<Rightarrow> Some (Inl e)
      | Inr certPEM \<Rightarrow>
          (case readf keyFile of
             Inl e \<Rightarrow> Some (Inl e)
           | Inr keyPEM \<Rightarrow>
               (case key_block (cy_decode cy) keyPEM of
                  None \<Rightarrow> None
                | Some None \<Rightarrow> Some (Inl (NewErr ''failed to parse key PEM data''))
                | Some (Some blk) \<Rightarrow>
                    if cy_encrypted cy blk then
                      (case cy_decrypt cy blk password of
                         Inl e \<Rightarrow> Some (Inl (NewErr ''failed to decrypt key''))
                       | Inr der \<Rightarrow>
                           let pemType = (if pb_type blk = ''RSA PRIVATE KEY'' then ''RSA PRIVATE KEY''
                                          else ''PRIVATE KEY'')
                           in Some (cy_pair cy certPEM
                                (cy_encode cy \<lparr>pb_type = pemType, pb_bytes = der\<rparr>)))
                    else Some (cy_pair cy certPEM (cy_encode cy blk)))))"

text \<open>\<open>tls.LoadX509KeyPair\<close> reads the two files and pairs them.\<close>

definition LoadX509KeyPair :: "crypto \<Rightarrow> read_file \<Rightarrow> string \<Rightarrow> string \<Rightarrow> goerr + key_pair" where
  "LoadX509KeyPair cy readf certFile keyFile =
     (case readf certFile of
        Inl e \<Rightarrow> Inl e
      | Inr certPEM \<Rightarrow>
          (case readf keyFile of Inl e \<Rightarrow> Inl e | Inr keyPEM \<Rightarrow> cy_pair cy certPEM keyPEM))"

definition loadClientCert :: "crypto \<Rightarrow> read_file \<Rightarrow> enhanced_config \<Rightarrow> (goerr + key_pair) option" where
  "loadClientCert cy readf c =
     (if ec_cert_format c = CertFormatPEM then
        map_option
          (\<lambda>r. case r of
             Inl e \<Rightarrow> Inl (newSecurityError ''failed to load client certificate'' (Some e))
           | Inr cert \<Rightarrow> Inr cert)
          (if ec_key_password c \<noteq> []
           then loadPEMWithPassword cy readf (ec_cert c) (ec_key c) (ec_key_password c)
           else Some (LoadX509KeyPair cy readf (ec_cert c) (ec_key c)))
      else Some (Inl (newSecurityError (''unsupported certificate format: '' @ ec_cert_format c) None)))"

subsection \<open>Building and reloading\<close>

definition base_tls :: "enhanced_config \<Rightarrow> tls_built" where
  "base_tls c =
     \<lparr>tb_skip_verify = ec_skip_verify c, tb_min = ec_min c, tb_max = (if ec_max c > 0 then ec_max c else 0),
      tb_ciphers = ec_ciphers c, tb_curves = ec_curves c, tb_roots = None, tb_certs = []\<rparr>"

text \<open>The expiry the configuration notes: that of the first certificate of the chain, if it parses.\<close>

definition expiry_of :: "crypto \<Rightarrow> key_pair \<Rightarrow> int \<Rightarrow> int" where
  "expiry_of cy cert old =
     (case kp_chain cert of
        [] \<Rightarrow> old
      | leaf # _ \<Rightarrow> (case cy_parse cy leaf of Inl e \<Rightarrow> old | Inr notAfter \<Rightarrow> notAfter))"

definition build_fresh ::
  "crypto \<Rightarrow> read_file \<Rightarrow> int \<Rightarrow> enhanced_config \<Rightarrow> ((goerr + tls_built) \<times> enhanced_config) option" where
  "build_fresh cy readf now c =
     (let r1 = (if ec_ca c \<noteq> []
                then (case loadCACert cy readf c of
                        Inl e \<Rightarrow> Inl e
                      | Inr pool \<Rightarrow> Inr ((base_tls c)\<lparr>tb_roots := Some pool\<rparr>))
                else Inr (base_tls c))
      in case r1 of
           Inl e \<Rightarrow> Some (Inl e, c)
         | Inr t \<Rightarrow>
             if ec_cert c \<noteq> [] \<and> ec_key c \<noteq> [] then
               (case loadClientCert cy readf c of
                  None \<Rightarrow> None
                | Some (Inl e) \<Rightarrow> Some (Inl e, c)
                | Some (Inr cert) \<Rightarrow>
                    let t1 = t\<lparr>tb_certs := [cert]\<rparr>
                    in Some (Inr t1, c\<lparr>ec_expiry := expiry_of cy cert (ec_expiry c), ec_tls := Some t1,
                                       ec_last_reload := now\<rparr>))
             else Some (Inr t, c\<lparr>ec_tls := Some t, ec_last_reload := now\<rparr>))"

definition BuildTLSConfig ::
  "crypto \<Rightarrow> read_file \<Rightarrow> int \<Rightarrow> enhanced_config \<Rightarrow> ((goerr + tls_built) \<times> enhanced_config) option" where
  "BuildTLSConfig cy readf now c =
     (case ec_tls c of
        Some t \<Rightarrow> if \<not> ec_auto c then Some (Inr t, c) else build_fresh cy readf now c
      | None \<Rightarrow> build_fresh cy readf now c)"

definition ReloadCertificates ::
  "crypto \<Rightarrow> read_file \<Rightarrow> int \<Rightarrow> enhanced_config \<Rightarrow> (goerr option \<times> enhanced_config) option" where
  "ReloadCertificates cy readf now c =
     map_option (\<lambda>(r, c1). (case r of Inl e \<Rightarrow> Some e | Inr t \<Rightarrow> None, c1))
       (BuildTLSConfig cy readf now (c\<lparr>ec_tls := None\<rparr>))"

definition GetCertExpiry :: "enhanced_config \<Rightarrow> int" where
  "GetCertExpiry c = ec_expiry c"

definition IsExpiringSoon :: "int \<Rightarrow> enhanced_config \<Rightarrow> bool" where
  "IsExpiringSoon now c = (if IsZero (ec_expiry c) then False else now + ec_warning c > ec_expiry c)"

subsection \<open>Use by the options\<close>

text \<open>What a session looks at of the configuration.\<close>

definition session_tls :: "enhanced_config \<Rightarrow> enhanced_tls" where
  "session_tls c = \<lparr>et_auto_reload = ec_auto c, et_watching = ec_watcher c\<rparr>"

definition WithEnhancedTLS :: "enhanced_config \<Rightarrow> options \<Rightarrow> options" where
  "WithEnhancedTLS c opt =
     opt\<lparr>op_tls := Some \<lparr>tls_ca = ec_ca c, tls_cert = ec_cert c, tls_key = ec_key c,
                        tls_skip_verify = ec_skip_verify c\<rparr>,
       op_enhanced := Some (session_tls c)\<rparr>"

text \<open>
  \<open>ConfigureTLSWithEnhanced\<close>: \<open>ec\<close> is the configuration the options point to; \<open>basic\<close> the
  outcome of \<open>ConfigureTLS\<close>.
\<close>

datatype any_tls = EnhancedBuilt tls_built | BasicBuilt "tls_result option"

definition ConfigureTLSWithEnhanced ::
  "crypto \<Rightarrow> read_file \<Rightarrow> int \<Rightarrow> enhanced_config option \<Rightarrow> (options \<Rightarrow> goerr + tls_result option) \<Rightarrow>
     options \<Rightarrow> ((goerr + any_tls) \<times> enhanced_config option) option" where
  "ConfigureTLSWithEnhanced cy readf now ec basic opt =
     (case ec of
        Some c \<Rightarrow>
          map_option (\<lambda>(r, c1). (case r of Inl e \<Rightarrow> Inl e | Inr t \<Rightarrow> Inr (EnhancedBuilt t), Some c1))
            (BuildTLSConfig cy readf now c)
      | None \<Rightarrow> Some (case basic opt of Inl e \<Rightarrow> Inl e | Inr t \<Rightarrow> Inr (BasicBuilt t), None))"

subsection \<open>The watcher\<close>

type_synonym file_info = "(int \<times> int) option"

text \<open>\<open>stat\<close> gives the modification time and the size of a file, if it can be read.\<close>

definition getFileInfo :: "(string \<Rightarrow> file_info) \<Rightarrow> string \<Rightarrow> file_info" where
  "getFileInfo stat path = (if path = [] then None else stat path)"

definition fileChanged :: "file_info \<Rightarrow> file_info \<Rightarrow> bool" where
  "fileChanged old new =
     (case (old, new) of
        (None, None) \<Rightarrow> False
      | (Some (t, n), Some (t', n')) \<Rightarrow> t \<noteq> t' \<or> n \<noteq> n'
      | _ \<Rightarrow> True)"

record file_infos =
  fi_ca :: file_info
  fi_cert :: file_info
  fi_key :: file_info

definition stat_files :: "(string \<Rightarrow> file_info) \<Rightarrow> enhanced_config \<Rightarrow> file_infos" where
  "stat_files stat c =
     \<lparr>fi_ca = getFileInfo stat (ec_ca c), fi_cert = getFileInfo stat (ec_cert c),
      fi_key = getFileInfo stat (ec_key c)\<rparr>"

datatype watch_log = LogExpiringSoon int int | LogFilesChanged | LogReloadFailed goerr | LogApplyFailed goerr

text \<open>
  One tick of the watcher: the infos it keeps, the configuration, and what it logs. \<open>reload\<close> is
  what \<open>reloadFunc\<close> answers, if there is one.
\<close>

definition watch_tick ::
  "crypto \<Rightarrow> read_file \<Rightarrow> (string \<Rightarrow> file_info) \<Rightarrow> int \<Rightarrow> goerr option option \<Rightarrow> file_infos \<Rightarrow>
     enhanced_config \<Rightarrow> (file_infos \<times> enhanced_config \<times> watch_log list) option" where
  "watch_tick cy readf stat now reload old c =
     (let l0 = (if IsExpiringSoon now c then [LogExpiringSoon (GetCertExpiry c) (ec_warning c)] else []);
          new = stat_files stat c
      in if fileChanged (fi_ca old) (fi_ca new) \<or> fileChanged (fi_cert old) (fi_cert new)
              \<or> fileChanged (fi_key old) (fi_key new)
         then
           map_option
             (\<lambda>(r, c1). (new, c1,
                l0 @ [LogFilesChanged]
                @ (case r of
                     Some e \<Rightarrow> [LogReloadFailed e]
                   | None \<Rightarrow> (case reload of Some (Some e) \<Rightarrow> [LogApplyFailed e] | _ \<Rightarrow> []))))
             (ReloadCertificates cy readf now c)
         else Some (old, c, l0))"

text \<open>
  \<open>StartCertWatcher\<close>. The goroutine it starts begins with a ticker (\<^const>\<open>None\<close>: the panic of a
  ticker whose interval is not positive) and the infos of the files.
\<close>

definition StartCertWatcher :: "enhanced_config \<Rightarrow> goerr option \<times> enhanced_config" where
  "StartCertWatcher c =
     (if \<not> ec_auto c then (None, c)
      else if ec_watcher c
      then (Some (newSecurityError ''certificate watcher already started'' None), c)
      else (None, c\<lparr>ec_watcher := True\<rparr>))"

definition watch_begin :: "(string \<Rightarrow> file_info) \<Rightarrow> enhanced_config \<Rightarrow> file_infos option" where
  "watch_begin stat c = (if ec_interval c \<le> 0 then None else Some (stat_files stat c))"

subsection \<open>Stopping the watcher\<close>

text \<open>
  The watcher of a session: its goroutine waits in the \<open>select\<close>, or is inside \<open>reloadFunc\<close>, which
  calls \<open>Disconnect\<close> and with it \<open>StopCertWatcher\<close> (\<open>Applying\<close>: before it; \<open>InStop\<close>: in its
  \<open>wg.Wait\<close>; \<open>Reconnecting\<close>: behind it), or has returned. \<open>wt_closed\<close> is whether \<open>stopCh\<close> is
  closed, \<open>wt_wg\<close> the counter of the wait group, \<open>wt_set\<close> whether the configuration's pointer to the
  watcher is not nil, \<open>wt_waiting\<close> how many other goroutines wait in \<open>StopCertWatcher\<close>, and
  \<open>wt_panic\<close> that a goroutine closed \<open>stopCh\<close> again, which ends the program.
\<close>

datatype watch_pc = Selecting | Applying | InStop | Reconnecting | Exited

record watch_state =
  wt_pc :: watch_pc
  wt_closed :: bool
  wt_wg :: nat
  wt_set :: bool
  wt_waiting :: nat
  wt_panic :: bool

definition watch_started :: watch_state where
  "watch_started = \<lparr>wt_pc = Selecting, wt_closed = False, wt_wg = 1, wt_set = True, wt_waiting = 0,
                    wt_panic = False\<rparr>"

inductive watch_step :: "watch_state \<Rightarrow> watch_state \<Rightarrow> bool" where
  tick: "wt_pc s = Selecting \<Longrightarrow> watch_step s s"
| reloaded: "wt_pc s = Selecting \<Longrightarrow> watch_step s (s\<lparr>wt_pc := Applying\<rparr>)"
| told_to_stop: "wt_pc s = Selecting \<Longrightarrow> wt_closed s \<Longrightarrow>
    watch_step s (s\<lparr>wt_pc := Exited, wt_wg := wt_wg s - 1\<rparr>)"
| apply_no_watcher: "wt_pc s = Applying \<Longrightarrow> \<not> wt_set s \<Longrightarrow> watch_step s (s\<lparr>wt_pc := Reconnecting\<rparr>)"
| apply_close: "wt_pc s = Applying \<Longrightarrow> wt_set s \<Longrightarrow> \<not> wt_closed s \<Longrightarrow>
    watch_step s (s\<lparr>wt_pc := InStop, wt_closed := True\<rparr>)"
| apply_panic: "wt_pc s = Applying \<Longrightarrow> wt_set s \<Longrightarrow> wt_closed s \<Longrightarrow> watch_step s (s\<lparr>wt_panic := True\<rparr>)"
| apply_waited: "wt_pc s = InStop \<Longrightarrow> wt_wg s = 0 \<Longrightarrow>
    watch_step s (s\<lparr>wt_pc := Reconnecting, wt_set := False\<rparr>)"
| reconnected: "wt_pc s = Reconnecting \<Longrightarrow> watch_step s (s\<lparr>wt_pc := Selecting\<rparr>)"
| other_close: "wt_set s \<Longrightarrow> \<not> wt_closed s \<Longrightarrow>
    watch_step s (s\<lparr>wt_closed := True, wt_waiting := Suc (wt_waiting s)\<rparr>)"
| other_panic: "wt_set s \<Longrightarrow> wt_closed s \<Longrightarrow> watch_step s (s\<lparr>wt_panic := True\<rparr>)"
| other_waited: "wt_waiting s > 0 \<Longrightarrow> wt_wg s = 0 \<Longrightarrow>
    watch_step s (s\<lparr>wt_waiting := wt_waiting s - 1, wt_set := False\<rparr>)"

text \<open>The program takes no step after a panic.\<close>

definition live_step :: "watch_state \<Rightarrow> watch_state \<Rightarrow> bool" where
  "live_step s s' \<longleftrightarrow> \<not> wt_panic s \<and> watch_step s s'"

subsection \<open>Lemmas\<close>

text \<open>One step of the search for the key: the block is not a key, the rest of the text is left.\<close>

definition skips :: "(payload \<Rightarrow> (pem_block \<times> payload) option) \<Rightarrow> payload \<Rightarrow> payload \<Rightarrow> bool" where
  "skips decode x y \<longleftrightarrow> (\<exists>blk. decode x = Some (blk, y) \<and> \<not> is_key_type (pb_type blk))"

definition key_found :: "(payload \<Rightarrow> (pem_block \<times> payload) option) \<Rightarrow> payload \<Rightarrow> pem_block option \<Rightarrow> bool" where
  "key_found decode x r \<longleftrightarrow>
     (\<exists>y. (skips decode)\<^sup>*\<^sup>* x y
        \<and> (case r of None \<Rightarrow> decode y = None
           | Some blk \<Rightarrow> is_key_type (pb_type blk) \<and> (\<exists>rest. decode y = Some (blk, rest))))"

definition shrinking :: "(payload \<Rightarrow> (pem_block \<times> payload) option) \<Rightarrow> bool" where
  "shrinking decode \<longleftrightarrow> (\<forall>x blk rest. decode x = Some (blk, rest) \<longrightarrow> length rest < length x)"

lemma key_block_finds:
  assumes "shrinking decode"
  shows "\<exists>r. key_block decode x = Some r \<and> key_found decode x r"
proof (induction "length x" arbitrary: x rule: less_induct)
  case less
  show ?case
  proof (cases "decode x")
    case None
    then show ?thesis by (subst key_block.simps) (auto simp: key_found_def)
  next
    case (Some p)
    obtain blk rest where p: "p = (blk, rest)" by (rule prod.exhaust)
    show ?thesis
    proof (cases "is_key_type (pb_type blk)")
      case True
      with Some p show ?thesis by (subst key_block.simps) (auto simp: key_found_def)
    next
      case False
      with Some p have sk: "skips decode x rest" by (auto simp: skips_def)
      have "length rest < length x" using assms Some p by (auto simp: shrinking_def)
      from less [OF this] obtain r where r: "key_block decode rest = Some r" "key_found decode rest r" by blast
      with sk have "key_found decode x r"
        unfolding key_found_def by (meson converse_rtranclp_into_rtranclp)
      with r(1) False Some p show ?thesis by (subst key_block.simps) simp
    qed
  qed
qed

lemma loadClientCert_returns:
  assumes "shrinking (cy_decode cy)"
  shows "\<exists>r. loadClientCert cy readf c = Some r"
proof -
  obtain found where "key_block (cy_decode cy) x = Some (found x)" for x
    using key_block_finds [OF assms] by metis
  then have "\<exists>r. loadPEMWithPassword cy readf f k p = Some r" for f k p
    by (auto simp: loadPEMWithPassword_def Let_def split: sum.split option.split)
  then show ?thesis by (auto simp: loadClientCert_def)
qed

lemma loadClientCert_pem: "loadClientCert cy readf c = Some (Inr k) \<Longrightarrow> ec_cert_format c = CertFormatPEM"
  by (auto simp: loadClientCert_def split: if_splits)

lemma Build_returns:
  assumes "shrinking (cy_decode cy)"
  shows "\<exists>r c'. BuildTLSConfig cy readf now c = Some (r, c')"
  using loadClientCert_returns [OF assms, of readf c]
  by (auto simp: BuildTLSConfig_def build_fresh_def Let_def split: option.split sum.split)

lemma build_fresh_error: "build_fresh cy readf now c = Some (Inl e, c') \<Longrightarrow> c' = c"
  by (auto simp: build_fresh_def Let_def split: if_splits sum.splits option.splits)

text \<open>What a new configuration consists of.\<close>

lemma build_fresh_success:
  assumes "build_fresh cy readf now c = Some (Inr t, c')"
  obtains pool certs where "t = (base_tls c)\<lparr>tb_roots := pool, tb_certs := certs\<rparr>"
    "case pool of None \<Rightarrow> ec_ca c = [] | Some x \<Rightarrow> ec_ca c \<noteq> [] \<and> loadCACert cy readf c = Inr x"
    "case certs of
       [] \<Rightarrow> (ec_cert c = [] \<or> ec_key c = []) \<and> ec_expiry c' = ec_expiry c
     | cert # rest \<Rightarrow> rest = [] \<and> ec_cert c \<noteq> [] \<and> ec_key c \<noteq> [] \<and> ec_cert_format c = CertFormatPEM
         \<and> loadClientCert cy readf c = Some (Inr cert) \<and> ec_expiry c' = expiry_of cy cert (ec_expiry c)"
    "c' = c\<lparr>ec_expiry := ec_expiry c', ec_tls := Some t, ec_last_reload := now\<rparr>"
proof -
  obtain pool where r1: "(if ec_ca c \<noteq> []
        then (case loadCACert cy readf c of Inl e \<Rightarrow> Inl e | Inr x \<Rightarrow> Inr ((base_tls c)\<lparr>tb_roots := Some x\<rparr>))
        else Inr (base_tls c)) = Inr ((base_tls c)\<lparr>tb_roots := pool\<rparr>)"
    and pool: "case pool of None \<Rightarrow> ec_ca c = [] | Some x \<Rightarrow> ec_ca c \<noteq> [] \<and> loadCACert cy readf c = Inr x"
  proof (cases "ec_ca c = []")
    case True
    then show thesis by (intro that [of None]) (simp_all add: base_tls_def)
  next
    case False
    with assms obtain x where "loadCACert cy readf c = Inr x"
      by (auto simp: build_fresh_def split: sum.splits)
    with False show thesis by (intro that [of "Some x"]) simp_all
  qed
  show thesis
  proof (cases "ec_cert c \<noteq> [] \<and> ec_key c \<noteq> []")
    case True
    with assms r1 obtain cert where cert: "loadClientCert cy readf c = Some (Inr cert)"
      by (auto simp: build_fresh_def Let_def split: option.splits sum.splits)
    with assms r1 True have "t = (base_tls c)\<lparr>tb_roots := pool, tb_certs := [cert]\<rparr>"
        "c' = c\<lparr>ec_expiry := expiry_of cy cert (ec_expiry c), ec_tls := Some t, ec_last_reload := now\<rparr>"
      by (simp_all add: build_fresh_def Let_def) blast+
    with pool cert True loadClientCert_pem [OF cert] show thesis by (intro that [where pool = pool and certs = "[cert]"]) simp_all
  next
    case False
    with assms r1 have "t = (base_tls c)\<lparr>tb_roots := pool, tb_certs := []\<rparr>"
        "c' = c\<lparr>ec_tls := Some t, ec_last_reload := now\<rparr>"
      by (auto simp: build_fresh_def Let_def base_tls_def)
    with pool False show thesis by (intro that [where pool = pool and certs = "[]"]) auto
  qed
qed

lemma fileChanged_refl [simp]: "\<not> fileChanged x x"
  by (auto simp: fileChanged_def split: option.split)

lemma stat_files_cong [simp]: "stat_files stat (c\<lparr>ec_tls := t\<rparr>) = stat_files stat c"
  by (simp add: stat_files_def)

subsection \<open>Properties\<close>

text \<open>
  The search of \<open>loadPEMWithPassword\<close> for the private key ends, provided that \<open>pem.Decode\<close>
  leaves less text than it was given, and finds the first block of a private key, or nothing when
  the blocks end before one.
\<close>

theorem key_search_ends:
  assumes "\<forall>x blk rest. decode x = Some (blk, rest) \<longrightarrow> length rest < length x"
  shows "\<exists>r. key_block decode x = Some r \<and> key_found decode x r"
  using assms by (intro key_block_finds) (simp add: shrinking_def)

definition sample_decode :: "payload \<Rightarrow> (pem_block \<times> payload) option" where
  "sample_decode x =
     (case x of [] \<Rightarrow> None
      | c # cs \<Rightarrow> Some (\<lparr>pb_type = (if c = CHR ''K'' then ''PRIVATE KEY'' else ''EC PARAMETERS''), pb_bytes = [c]\<rparr>, cs))"

theorem key_search_ends_witness:
  "(\<exists>r. key_block sample_decode ''PPK'' = Some r \<and> key_found sample_decode ''PPK'' r)
     \<and> key_block sample_decode ''PPK'' = Some (Some \<lparr>pb_type = ''PRIVATE KEY'', pb_bytes = ''K''\<rparr>)"
proof
  show "\<exists>r. key_block sample_decode ''PPK'' = Some r \<and> key_found sample_decode ''PPK'' r"
    by (rule key_search_ends) (auto simp: sample_decode_def split: list.splits)
  show "key_block sample_decode ''PPK'' = Some (Some \<lparr>pb_type = ''PRIVATE KEY'', pb_bytes = ''K''\<rparr>)"
    by (simp add: key_block.simps sample_decode_def is_key_type_def)
qed



text \<open>
  A reload that fails in the watcher is not tried again: the watcher has already noted the new
  state of the files, the cached configuration is gone, and however many ticks follow while the
  files stay as they are, whatever reading them would give, none reloads.
\<close>

theorem failed_reload_not_retried:
  assumes "watch_tick cy readf stat now reload old c = Some (new, c1, log)" and "LogReloadFailed e \<in> set log"
  shows "ec_tls c1 = None \<and> LogFilesChanged \<in> set log
    \<and> (\<forall>cy' readf' now' reload'. \<exists>log'. watch_tick cy' readf' stat now' reload' new c1 = Some (new, c1, log')
          \<and> LogFilesChanged \<notin> set log')"
proof -
  from assms obtain r where r: "ReloadCertificates cy readf now c = Some (Some r, c1)"
      and new: "new = stat_files stat c" and log: "LogFilesChanged \<in> set log"
    by (auto simp: watch_tick_def Let_def split: if_splits option.splits)
  from r have "build_fresh cy readf now (c\<lparr>ec_tls := None\<rparr>) = Some (Inl r, c1)"
    by (auto simp: ReloadCertificates_def BuildTLSConfig_def split: sum.splits) (metis sumE)
  then have c1: "c1 = c\<lparr>ec_tls := None\<rparr>" by (rule build_fresh_error)
  with log show ?thesis
    by (simp add: new watch_tick_def Let_def)
qed

theorem failed_reload_not_retried_witness:
  "\<exists>new c1 log. \<forall>cy. watch_tick cy (\<lambda>f. Inl (NewErr ''io'')) (\<lambda>f. Some (2, 1)) 0 None
        \<lparr>fi_ca = Some (1, 1), fi_cert = None, fi_key = None\<rparr> (WithCACert ''ca'' [] NewEnhancedTLSConfig)
      = Some (new, c1, log) \<and> LogReloadFailed (newSecurityError ''failed to read CA file'' (Some (NewErr ''io''))) \<in> set log
      \<and> ec_tls c1 = None"
proof -
  let ?c = "WithCACert ''ca'' [] NewEnhancedTLSConfig"
  let ?new = "stat_files (\<lambda>f. Some (2, 1)) ?c"
  let ?log = "[LogFilesChanged, LogReloadFailed (newSecurityError ''failed to read CA file'' (Some (NewErr ''io'')))]"
  have w: "watch_tick cy (\<lambda>f. Inl (NewErr ''io'')) (\<lambda>f. Some (2, 1)) 0 None
      \<lparr>fi_ca = Some (1, 1), fi_cert = None, fi_key = None\<rparr> ?c = Some (?new, ?c, ?log)" for cy
    by (simp add: watch_tick_def IsExpiringSoon_def IsZero_def WithCACert_def NewEnhancedTLSConfig_def
        stat_files_def getFileInfo_def fileChanged_def ReloadCertificates_def BuildTLSConfig_def
        build_fresh_def loadCACert_def Let_def)
  have "ec_tls ?c = None" using failed_reload_not_retried [OF w] by simp
  with w show ?thesis by (intro exI [of _ ?new] exI [of _ ?c] exI [of _ ?log]) simp
qed

text \<open>The states a watcher can be in: while its goroutine lives, the counter is one and the pointer set.\<close>

definition watch_inv :: "watch_state \<Rightarrow> bool" where
  "watch_inv s \<longleftrightarrow>
     wt_pc s \<noteq> Reconnecting \<and> (wt_pc s \<noteq> Exited \<longrightarrow> wt_wg s = 1 \<and> wt_set s)
     \<and> (wt_pc s = InStop \<longrightarrow> wt_closed s)"

lemma watch_inv_step: "live_step s s' \<Longrightarrow> watch_inv s \<Longrightarrow> watch_inv s'"
  unfolding live_step_def by (elim conjE watch_step.cases) (auto simp: watch_inv_def)

lemma watch_inv_reach: "live_step\<^sup>*\<^sup>* s s' \<Longrightarrow> watch_inv s \<Longrightarrow> watch_inv s'"
  by (induction rule: rtranclp_induct) (auto intro: watch_inv_step)

lemma InStop_step: "live_step s s' \<Longrightarrow> watch_inv s \<Longrightarrow> wt_pc s = InStop \<Longrightarrow> wt_pc s' = InStop"
  unfolding live_step_def by (elim conjE watch_step.cases) (auto simp: watch_inv_def)

lemma InStop_forever: "live_step\<^sup>*\<^sup>* s s' \<Longrightarrow> watch_inv s \<Longrightarrow> wt_pc s = InStop \<Longrightarrow> wt_pc s' = InStop"
  by (induction rule: rtranclp_induct) (auto intro: InStop_step watch_inv_reach)

text \<open>
  C17. A certificate reload never completes: the function the watcher calls disconnects the session,
  and so waits for the watcher's own goroutine. In no execution does it get past this wait; once it
  waits it waits forever, the pointer to the watcher stays set, and every later \<open>Disconnect\<close> of the
  session, the next close of the program included, panics on the second close of the channel.
\<close>

theorem reload_never_completes:
  assumes "live_step\<^sup>*\<^sup>* watch_started s"
  shows "wt_pc s \<noteq> Reconnecting
    \<and> (wt_pc s = InStop \<longrightarrow>
        (\<forall>s'. live_step\<^sup>*\<^sup>* s s' \<longrightarrow> wt_pc s' = InStop \<and> wt_set s')
        \<and> watch_step s (s\<lparr>wt_panic := True\<rparr>) \<and> (\<forall>s'. \<not> wt_panic s' \<and> live_step s s' \<longrightarrow> s' = s))"
proof -
  have inv: "watch_inv s" by (rule watch_inv_reach [OF assms]) (simp add: watch_inv_def watch_started_def)
  have later: "wt_pc s' = InStop \<and> wt_set s'" if "wt_pc s = InStop" "live_step\<^sup>*\<^sup>* s s'" for s'
    using InStop_forever [OF that(2) inv that(1)] watch_inv_reach [OF that(2) inv] by (simp add: watch_inv_def)
  have "watch_step s (s\<lparr>wt_panic := True\<rparr>)" if "wt_pc s = InStop"
    using inv that by (intro other_panic) (auto simp: watch_inv_def)
  moreover have "s' = s" if "wt_pc s = InStop" "\<not> wt_panic s'" "live_step s s'" for s'
    using that inv unfolding live_step_def by (auto simp: watch_inv_def elim!: watch_step.cases)
  ultimately show ?thesis using inv later by (auto simp: watch_inv_def)
qed

theorem reload_never_completes_witness:
  "\<exists>s. live_step\<^sup>*\<^sup>* watch_started s \<and> wt_pc s = InStop \<and> (\<forall>s'. live_step\<^sup>*\<^sup>* s s' \<longrightarrow> wt_pc s' = InStop)"
proof -
  let ?s1 = "watch_started\<lparr>wt_pc := Applying\<rparr>" and ?s2 = "watch_started\<lparr>wt_pc := InStop, wt_closed := True\<rparr>"
  have "live_step watch_started ?s1"
    unfolding live_step_def by (intro conjI reloaded) (simp_all add: watch_started_def)
  moreover have "live_step ?s1 (?s1\<lparr>wt_pc := InStop, wt_closed := True\<rparr>)"
    unfolding live_step_def by (intro conjI apply_close) (simp_all add: watch_started_def)
  ultimately have r: "live_step\<^sup>*\<^sup>* watch_started ?s2" by (simp add: watch_started_def)
  from reload_never_completes [OF r] r show ?thesis by (intro exI [of _ ?s2]) simp
qed

end
