(* ===== verification/Waiting.thy ===== *)
theory Waiting
  imports ManagerProps
begin

text \<open>
  The rest of the manager (\<open>manager.go\<close>): what it passes on to its recovery manager and counters,
  and \<open>WaitForAllSessions\<close>, whose goroutines each run \<open>WaitForSession\<close> and are modelled by a step
  relation in which other operations of the manager run between their parts.
\<close>

subsection \<open>Passing on\<close>

definition man_GetActiveErrors :: "'c manager \<Rightarrow> nat list" where
  "man_GetActiveErrors m = GetActiveErrors (hb_recovery m)"

definition man_GetErrorStats :: "'c manager \<Rightarrow> error_stats" where
  "man_GetErrorStats m = recovery_GetErrorStats (hb_recovery m)"

definition man_SetMaxRetries :: "category \<Rightarrow> int \<Rightarrow> 'c manager \<Rightarrow> 'c manager" where
  "man_SetMaxRetries cat n m = m\<lparr>hb_recovery := SetMaxRetries cat n (hb_recovery m)\<rparr>"

definition man_ClearRecoveredErrors :: "'c manager \<Rightarrow> nat \<times> 'c manager" where
  "man_ClearRecoveredErrors m =
     (case ClearRecoveredErrors (hb_recovery m) of (n, rc) \<Rightarrow> (n, m\<lparr>hb_recovery := rc\<rparr>))"

definition man_Close :: "'c env \<Rightarrow> (string \<Rightarrow> bool) \<Rightarrow> 'c manager \<Rightarrow> 'c manager" where
  "man_Close en connected m = DisconnectAll en connected m"

subsection \<open>Waiting for all sessions\<close>

text \<open>
  A waiting goroutine: not started, past the check that the session is not connected, waiting with
  a handler registered (its name, and how many handler calls there had been), or finished with the
  result of \<open>WaitForSession\<close>.
\<close>

datatype wait_phase = NotStarted | Checked | Registered nat nat | Finished "goerr option"

record waiter =
  wa_name :: string
  wa_phase :: wait_phase

text \<open>The state: the manager, the waiters, the errors in \<open>errChan\<close>, and the result once there is one.\<close>

record 'c waiting =
  wi_manager :: "'c manager"
  wi_waiters :: "waiter list"
  wi_errors :: "goerr list"
  wi_outcome :: "goerr option option"

text \<open>The error a goroutine sends for the error of its \<open>WaitForSession\<close>.\<close>

definition wait_failed :: "string \<Rightarrow> goerr \<Rightarrow> int \<Rightarrow> goerr" where
  "wait_failed name e now =
     (if is_mqttx e then WithSession name e
      else WithSession name (NewConnectionError ''session connection failed'' (Some e) now))"

definition wait_timeout :: "string \<Rightarrow> int \<Rightarrow> goerr" where
  "wait_timeout name now =
     WithSession name (NewConnectionError ''timeout waiting for session to connect'' (Some (Sentinel ErrTimeout)) now)"

definition set_phase :: "nat \<Rightarrow> wait_phase \<Rightarrow> 'c waiting \<Rightarrow> 'c waiting" where
  "set_phase i ph s = s\<lparr>wi_waiters := (wi_waiters s)[i := (wi_waiters s ! i)\<lparr>wa_phase := ph\<rparr>]\<rparr>"

definition finish :: "nat \<Rightarrow> goerr option \<Rightarrow> int \<Rightarrow> 'c waiting \<Rightarrow> 'c waiting" where
  "finish i r now s =
     (let s1 = set_phase i (Finished r) s
      in case r of None \<Rightarrow> s1
         | Some e \<Rightarrow> s1\<lparr>wi_errors := wi_errors s1 @ [wait_failed (wa_name (wi_waiters s ! i)) e now]\<rparr>)"

text \<open>\<open>WaitForAllSessions\<close> up to the start of the goroutines.\<close>

definition WaitForAllSessions :: "int \<Rightarrow> 'c manager \<Rightarrow> 'c waiting" where
  "WaitForAllSessions now m =
     (let names = ListSessions m
      in \<lparr>wi_manager = m, wi_waiters = map (\<lambda>n. \<lparr>wa_name = n, wa_phase = NotStarted\<rparr>) names, wi_errors = [],
          wi_outcome = (if length names = 0 then Some (Some (NewConfigError ''no sessions available'' None now))
                        else None)\<rparr>)"

text \<open>The result when all goroutines are done.\<close>

definition wait_result :: "goerr list \<Rightarrow> goerr option" where
  "wait_result es = (if length es > 0 then Some (ValidationErrors (fold (\<lambda>e. validation_add (Some e)) es [])) else None)"

inductive wait_step :: "'c waiting \<Rightarrow> 'c waiting \<Rightarrow> bool" where
  unknown: "i < length (wi_waiters s) \<Longrightarrow> wa_phase (wi_waiters s ! i) = NotStarted \<Longrightarrow>
    GetSession (wi_manager s) (wa_name (wi_waiters s ! i)) = Inl e \<Longrightarrow> wait_step s (finish i (Some e) now s)"
| connected: "i < length (wi_waiters s) \<Longrightarrow> wa_phase (wi_waiters s ! i) = NotStarted \<Longrightarrow>
    GetSession (wi_manager s) (wa_name (wi_waiters s ! i)) = Inr ses \<Longrightarrow> IsConnected ses \<Longrightarrow>
    wait_step s (finish i None now s)"
| not_connected: "i < length (wi_waiters s) \<Longrightarrow> wa_phase (wi_waiters s ! i) = NotStarted \<Longrightarrow>
    GetSession (wi_manager s) (wa_name (wi_waiters s ! i)) = Inr ses \<Longrightarrow> \<not> IsConnected ses \<Longrightarrow>
    wait_step s (set_phase i Checked s)"
| register: "i < length (wi_waiters s) \<Longrightarrow> wa_phase (wi_waiters s ! i) = Checked \<Longrightarrow>
    wait_step s ((set_phase i (Registered hid (length (ev_calls (hb_events (wi_manager s))))) s)
      \<lparr>wi_manager := OnEvent EventSessionConnected hid (wi_manager s)\<rparr>)"
| told: "i < length (wi_waiters s) \<Longrightarrow> wa_phase (wi_waiters s ! i) = Registered hid k \<Longrightarrow>
    told_connected hid (wa_name (wi_waiters s ! i)) (drop k (ev_calls (hb_events (wi_manager s)))) \<Longrightarrow>
    wait_step s (finish i None now s)"
| timer: "i < length (wi_waiters s) \<Longrightarrow> wa_phase (wi_waiters s ! i) = Registered hid k \<Longrightarrow>
    wait_step s (finish i (Some (wait_timeout (wa_name (wi_waiters s ! i)) now)) now s)"
| all_done: "wi_outcome s = None \<Longrightarrow> \<forall>w \<in> set (wi_waiters s). \<exists>r. wa_phase w = Finished r \<Longrightarrow>
    wait_step s (s\<lparr>wi_outcome := Some (wait_result (wi_errors s))\<rparr>)"
| all_timeout: "wi_outcome s = None \<Longrightarrow>
    wait_step s (s\<lparr>wi_outcome := Some (Some (NewConnectionError
      ''timeout waiting for all sessions to connect'' (Some (Sentinel ErrTimeout)) now))\<rparr>)"
| others: "wait_step s (s\<lparr>wi_manager := man_step (wi_manager s) x\<rparr>)"

text \<open>What holds of a waiter for a session that is not seen to connect.\<close>

definition held_up :: "nat \<Rightarrow> 'c waiting \<Rightarrow> bool" where
  "held_up i s \<longleftrightarrow> i < length (wi_waiters s) \<and> wi_outcome s \<noteq> Some None \<and>
     (\<forall>r. wa_phase (wi_waiters s ! i) = Finished r \<longrightarrow> r \<noteq> None \<and> wi_errors s \<noteq> [])"

text \<open>
  No handler is called for a connection of session \<open>n\<close>, and while a waiter for it has not checked,
  it is not connected.
\<close>

definition unseen :: "string \<Rightarrow> 'c waiting \<Rightarrow> bool" where
  "unseen n s \<longleftrightarrow>
     (\<forall>(h, e) \<in> set (ev_calls (hb_events (wi_manager s))). \<not> (ev_type e = EventSessionConnected \<and> ev_session e = n))
     \<and> (\<forall>w \<in> set (wi_waiters s). wa_name w = n \<and> wa_phase w = NotStarted \<longrightarrow>
          (\<forall>ses. GetSession (wi_manager s) n = Inr ses \<longrightarrow> \<not> IsConnected ses))"

subsection \<open>Lemmas\<close>

lemma wait_result_None [simp]: "wait_result es = None \<longleftrightarrow> es = []"
  by (simp add: wait_result_def)

lemma set_phase_simps [simp]:
  "length (wi_waiters (set_phase i ph s)) = length (wi_waiters s)"
  "wi_errors (set_phase i ph s) = wi_errors s" "wi_outcome (set_phase i ph s) = wi_outcome s"
  "wi_manager (set_phase i ph s) = wi_manager s"
  by (simp_all add: set_phase_def)

lemma finish_simps [simp]:
  "length (wi_waiters (finish i r now s)) = length (wi_waiters s)"
  "wi_outcome (finish i r now s) = wi_outcome s" "wi_manager (finish i r now s) = wi_manager s"
  "wi_errors (finish i r now s) = (case r of None \<Rightarrow> wi_errors s
     | Some e \<Rightarrow> wi_errors s @ [wait_failed (wa_name (wi_waiters s ! i)) e now])"
  "wi_waiters (finish i r now s) = wi_waiters (set_phase i (Finished r) s)"
  by (simp_all add: finish_def Let_def split: option.split)

lemma waiter_set_phase:
  "i < length (wi_waiters s) \<Longrightarrow>
     wi_waiters (set_phase i ph s) ! j = (if j = i then (wi_waiters s ! i)\<lparr>wa_phase := ph\<rparr> else wi_waiters s ! j)"
  by (auto simp: set_phase_def)

lemma wait_step_name:
  "wait_step s s' \<Longrightarrow> wa_name (wi_waiters s' ! i) = wa_name (wi_waiters s ! i)"
  by (erule wait_step.cases) (auto simp: waiter_set_phase)

lemma unseen_not_told:
  "unseen n s \<Longrightarrow> \<not> told_connected h n (drop k (ev_calls (hb_events (wi_manager s))))"
  by (fastforce simp: unseen_def told_connected_def list_ex_iff dest: in_set_dropD)

lemma held_up_step:
  assumes "wait_step s s'" and "held_up i s" and "unseen (wa_name (wi_waiters s ! i)) s"
  shows "held_up i s'"
  using assms(1)
proof cases
  case (connected j ses now)
  have "j \<noteq> i"
  proof
    assume "j = i"
    with connected assms(3) show False by (auto simp: unseen_def)
  qed
  with connected assms(2) show ?thesis by (simp add: held_up_def waiter_set_phase)
next
  case (told j hid k now)
  have "j \<noteq> i" using told(4) unseen_not_told [OF assms(3)] by auto
  with told assms(2) show ?thesis by (simp add: held_up_def waiter_set_phase)
next
  case all_done
  with assms(2) have "wi_errors s \<noteq> []" by (fastforce simp: held_up_def dest: nth_mem)
  with all_done assms(2) show ?thesis by (simp add: held_up_def)
qed (use assms(2) in \<open>auto simp: held_up_def waiter_set_phase\<close>)

lemma held_up_run:
  assumes "(\<lambda>a b. wait_step a b \<and> unseen n a)\<^sup>*\<^sup>* s s'" and "held_up i s" and "wa_name (wi_waiters s ! i) = n"
  shows "held_up i s' \<and> wa_name (wi_waiters s' ! i) = n"
  using assms
proof (induction rule: rtranclp_induct)
  case (step a b)
  then show ?case using held_up_step [of a b i] wait_step_name [of a b i] by auto
qed simp

text \<open>
  C38. \<open>WaitForAllSessions\<close> answers without an error only when every session it found has been seen
  to connect: as long as a session is not connected when its goroutine checks and no handler is
  called for its connection, no run of the goroutines, whatever other operations come between,
  ends without an error. (It is enough to miss the one event: a session that connects between the
  check and the registration of the handler is missed although it is connected.)
\<close>

theorem WaitForAllSessions_sound:
  assumes "n \<in> set (ListSessions m)"
    and "(\<lambda>a b. wait_step a b \<and> unseen n a)\<^sup>*\<^sup>* (WaitForAllSessions now m) s"
  shows "wi_outcome s \<noteq> Some None"
proof -
  obtain i where i: "i < length (ListSessions m)" "ListSessions m ! i = n"
    using assms(1) by (auto simp: in_set_conv_nth)
  then have "held_up i (WaitForAllSessions now m)" "wa_name (wi_waiters (WaitForAllSessions now m) ! i) = n"
    by (auto simp: held_up_def WaitForAllSessions_def Let_def)
  from held_up_run [OF assms(2) this] show ?thesis by (simp add: held_up_def)
qed

text \<open>The session connects between the check and the registration, and the wait fails.\<close>

theorem WaitForAllSessions_sound_witness:
  "\<exists>s. wait_step\<^sup>*\<^sup>* (WaitForAllSessions 0 sample_manager) s
     \<and> (\<exists>ses. GetSession (wi_manager s) ''s'' = Inr ses \<and> IsConnected ses)
     \<and> (\<exists>r. wi_outcome s = Some r \<and> r \<noteq> None)"
proof -
  let ?s0 = "WaitForAllSessions 0 sample_manager :: mock_redis waiting"
  define m1 where "m1 = man_step sample_manager (MSession ''s'' (SConnect 1 None))"
  define m2 where "m2 = OnEvent EventSessionConnected 3 m1"
  let ?w = "\<lambda>ph. [\<lparr>wa_name = ''s'', wa_phase = ph\<rparr>]"
  let ?es = "[wait_failed ''s'' (wait_timeout ''s'' 9) 9]"
  let ?s1 = "\<lparr>wi_manager = sample_manager, wi_waiters = ?w Checked, wi_errors = [], wi_outcome = None\<rparr>"
  let ?s2 = "\<lparr>wi_manager = m1, wi_waiters = ?w Checked, wi_errors = [], wi_outcome = None\<rparr>"
  let ?s3 = "\<lparr>wi_manager = m2, wi_waiters = ?w (Registered 3 0), wi_errors = [], wi_outcome = None\<rparr>"
  let ?f = "?w (Finished (Some (wait_timeout ''s'' 9)))"
  let ?s4 = "\<lparr>wi_manager = m2, wi_waiters = ?f, wi_errors = ?es, wi_outcome = None\<rparr>"
  let ?s5 = "\<lparr>wi_manager = m2, wi_waiters = ?f, wi_errors = ?es, wi_outcome = Some (wait_result ?es)\<rparr>"
  define R where "R = (\<lambda>a b :: mock_redis waiting. wait_step a b \<and> unseen ''s'' a)"
  have l: "ListSessions sample_manager = [''s'']" by (simp add: ListSessions_def sample_manager_def)
  have s0: "?s0 = \<lparr>wi_manager = sample_manager, wi_waiters = ?w NotStarted, wi_errors = [], wi_outcome = None\<rparr>"
    by (simp add: WaitForAllSessions_def l)
  have off: "\<not> IsConnected sample_session" by (simp add: IsConnected_def state_defs)
  have c0: "ev_calls (hb_events sample_manager) = []"
    by (simp add: sample_manager_def NewSessionManager_def newEventManager_def)
  have c1: "ev_calls (hb_events m1) = []" unfolding m1_def sample_connect_silent by (simp add: newEventManager_def)
  have c2: "ev_calls (hb_events m2) = []" by (simp add: m2_def OnEvent_def c1)
  have r1: "R ?s0 ?s1"
    using not_connected [of 0 ?s0 sample_session] off
    by (simp add: R_def s0 sample_GetSession set_phase_def unseen_def c0)
  have r2: "R ?s1 ?s2"
    using others [of ?s1 "MSession ''s'' (SConnect 1 None)"] by (simp add: R_def unseen_def c0 m1_def)
  have r3: "R ?s2 ?s3"
    using register [of 0 ?s2 3] by (simp add: R_def set_phase_def unseen_def c1 m2_def)
  have r4: "R ?s3 ?s4"
    using timer [of 0 ?s3 3 0 9] by (simp add: R_def finish_def set_phase_def unseen_def c2)
  have r5: "R ?s4 ?s5" using all_done [of ?s4] by (simp add: R_def unseen_def c2)
  note into = converse_rtranclp_into_rtranclp [of R]
  have r: "R\<^sup>*\<^sup>* ?s0 ?s5" by (rule into [OF r1 into [OF r2 into [OF r3 into [OF r4 r_into_rtranclp [of R, OF r5]]]]])
  have run: "wait_step\<^sup>*\<^sup>* ?s0 ?s5" by (rule rtranclp_mono [THEN predicate2D, OF _ r]) (auto simp: R_def)
  have "wi_outcome ?s5 \<noteq> Some None"
    by (rule WaitForAllSessions_sound [OF _ r [unfolded R_def]]) (simp add: l)
  moreover have "\<exists>ses. GetSession (wi_manager ?s5) ''s'' = Inr ses \<and> IsConnected ses"
    using sample_connects by (simp add: m2_def m1_def OnEvent_def GetSession_def)
  ultimately show ?thesis using run by (intro exI [of _ ?s5]) (simp add: wait_result_def)
qed

end
