(* ===== verification/Locks.thy ===== *)
theory Locks
  imports Events
begin

text \<open>
  The locks of the manager (\<open>manager.go\<close>) and of its event manager (\<open>event.go\<close>), and what the
  handlers of events do under them: \<open>emit\<close> calls the handlers while it holds the lock of the event
  manager, and \<open>AddSession\<close>, \<open>RemoveSession\<close> and \<open>DisconnectAll\<close> emit while they hold the lock of
  the manager. An operation is the sequence of what it does to the locks and of the events it emits;
  a handler is the sequence of manager operations it calls.
\<close>

subsection \<open>Operations as lock scripts\<close>

datatype lock = ManagerLock | EventLock

text \<open>
  The acts on a \<open>sync.RWMutex\<close>: a writer first announces itself, which holds back new readers, and
  then waits for the readers to leave. (Writers queue on a mutex before they announce themselves; that
  one may announce itself here while another still writes only adds behaviour.) \<open>Fire\<close> calls the
  handlers of an event type.
\<close>

datatype act = RLock lock | RUnlock lock | Announce lock | Grab lock | Unlock lock | Fire string

definition Lock :: "lock \<Rightarrow> act list" where
  "Lock l = [Announce l, Grab l]"

definition emit_script :: "string \<Rightarrow> act list" where
  "emit_script ty = [RLock EventLock, Fire ty, RUnlock EventLock]"

definition emits :: "string list \<Rightarrow> act list" where
  "emits tys = concat (map emit_script tys)"

text \<open>
  The operations of the manager. Those that connect or disconnect carry the types of the events
  they emit on the way, which depend on the outcome, and whether they succeed. \<open>ReadTable\<close> is any of \<open>GetSession\<close>,
  \<open>ListSessions\<close>, \<open>GetAllSessionsStatusCode\<close>, and \<open>OnTable\<close> any of \<open>PublishToAll\<close>,
  \<open>SubscribeAll\<close>, \<open>UnsubscribeAll\<close>, \<open>UnsubscribeTo\<close>, which hold the lock for longer.
  \<open>ClientCallback\<close> is a call of the MQTT client into a session, on a goroutine of its own.
\<close>

datatype man_call =
    ReadTable | OnTable | AddSessionCall bool "string list" | RemoveSessionCall bool "string list"
  | DisconnectAllCall "string list" | OnEventCall | ClientCallback "string list"

fun lock_script :: "man_call \<Rightarrow> act list" where
  "lock_script ReadTable = [RLock ManagerLock, RUnlock ManagerLock]"
| "lock_script OnTable = [RLock ManagerLock, RUnlock ManagerLock]"
| "lock_script (AddSessionCall success tys) =
     Lock ManagerLock @ emits (tys @ (if success then [EventSessionAdded] else [])) @ [Unlock ManagerLock]"
| "lock_script (RemoveSessionCall success tys) =
     Lock ManagerLock @ emits (tys @ (if success then [EventSessionRemoved] else [])) @ [Unlock ManagerLock]"
| "lock_script (DisconnectAllCall tys) = [RLock ManagerLock] @ emits tys @ [RUnlock ManagerLock]"
| "lock_script OnEventCall = Lock EventLock @ [Unlock EventLock]"
| "lock_script (ClientCallback tys) = emits tys"

definition calls_script :: "man_call list \<Rightarrow> act list" where
  "calls_script cs = concat (map lock_script cs)"

subsection \<open>Steps\<close>

text \<open>The state of the locks, and what every goroutine has still to do.\<close>

record lock_state =
  lk_readers :: "lock \<Rightarrow> nat"
  lk_announced :: "lock \<Rightarrow> nat"
  lk_writer :: "lock \<Rightarrow> bool"
  lk_todo :: "act list list"

definition lock_start :: "man_call list list \<Rightarrow> lock_state" where
  "lock_start css =
     \<lparr>lk_readers = (\<lambda>_. 0), lk_announced = (\<lambda>_. 0), lk_writer = (\<lambda>_. False),
      lk_todo = map calls_script css\<rparr>"

definition goes_on :: "nat \<Rightarrow> act list \<Rightarrow> lock_state \<Rightarrow> lock_state" where
  "goes_on i todo s = s\<lparr>lk_todo := (lk_todo s)[i := todo]\<rparr>"

text \<open>\<open>hs\<close> gives, for an event type, what its handlers call, in the order they are called.\<close>

inductive lock_step :: "(string \<Rightarrow> man_call list) \<Rightarrow> lock_state \<Rightarrow> lock_state \<Rightarrow> bool" for hs where
  rlock: "i < length (lk_todo s) \<Longrightarrow> lk_todo s ! i = RLock l # rest \<Longrightarrow> \<not> lk_writer s l \<Longrightarrow>
    lk_announced s l = 0 \<Longrightarrow>
    lock_step hs s (goes_on i rest (s\<lparr>lk_readers := (lk_readers s)(l := lk_readers s l + 1)\<rparr>))"
| runlock: "i < length (lk_todo s) \<Longrightarrow> lk_todo s ! i = RUnlock l # rest \<Longrightarrow>
    lock_step hs s (goes_on i rest (s\<lparr>lk_readers := (lk_readers s)(l := lk_readers s l - 1)\<rparr>))"
| announce: "i < length (lk_todo s) \<Longrightarrow> lk_todo s ! i = Announce l # rest \<Longrightarrow>
    lock_step hs s (goes_on i rest (s\<lparr>lk_announced := (lk_announced s)(l := lk_announced s l + 1)\<rparr>))"
| grab: "i < length (lk_todo s) \<Longrightarrow> lk_todo s ! i = Grab l # rest \<Longrightarrow> \<not> lk_writer s l \<Longrightarrow> lk_readers s l = 0 \<Longrightarrow>
    lock_step hs s (goes_on i rest (s\<lparr>lk_writer := (lk_writer s)(l := True)\<rparr>))"
| unlock: "i < length (lk_todo s) \<Longrightarrow> lk_todo s ! i = Unlock l # rest \<Longrightarrow>
    lock_step hs s (goes_on i rest (s\<lparr>lk_writer := (lk_writer s)(l := False),
                                      lk_announced := (lk_announced s)(l := lk_announced s l - 1)\<rparr>))"
| fire: "i < length (lk_todo s) \<Longrightarrow> lk_todo s ! i = Fire ty # rest \<Longrightarrow>
    lock_step hs s (goes_on i (calls_script (hs ty) @ rest) s)"

subsection \<open>What a goroutine owes\<close>

text \<open>
  The releases a goroutine has still to do beyond its acquisitions: of the lock for writing, and for
  reading. A script is balanced when it owes nothing and none of its suffixes acquires more than it
  releases.
\<close>

definition owes_write :: "lock \<Rightarrow> act list \<Rightarrow> int" where
  "owes_write l as = int (count_list as (Unlock l)) - int (count_list as (Grab l))"

definition owes_read :: "lock \<Rightarrow> act list \<Rightarrow> int" where
  "owes_read l as = int (count_list as (RUnlock l)) - int (count_list as (RLock l))"

lemma owes_Nil [simp]: "owes_write l [] = 0" "owes_read l [] = 0"
  by (simp_all add: owes_write_def owes_read_def)

lemma owes_Cons [simp]:
  "owes_write l (a # as) = owes_write l as + (if a = Unlock l then 1 else 0) - (if a = Grab l then 1 else 0)"
  "owes_read l (a # as) = owes_read l as + (if a = RUnlock l then 1 else 0) - (if a = RLock l then 1 else 0)"
  by (simp_all add: owes_write_def owes_read_def)

lemma owes_append [simp]:
  "owes_write l (as @ bs) = owes_write l as + owes_write l bs"
  "owes_read l (as @ bs) = owes_read l as + owes_read l bs"
  by (induction as) simp_all

fun covered :: "act list \<Rightarrow> bool" where
  "covered [] = True"
| "covered (a # as) \<longleftrightarrow> covered as \<and> (\<forall>l. 0 \<le> owes_write l (a # as) \<and> 0 \<le> owes_read l (a # as))"

definition balanced :: "act list \<Rightarrow> bool" where
  "balanced as \<longleftrightarrow> covered as \<and> (\<forall>l. owes_write l as = 0 \<and> owes_read l as = 0)"

lemma covered_owes: "covered as \<Longrightarrow> 0 \<le> owes_write l as \<and> 0 \<le> owes_read l as"
  by (cases as) (auto simp del: owes_Cons)

lemma covered_append: "balanced as \<Longrightarrow> covered bs \<Longrightarrow> covered (as @ bs)"
proof -
  assume "balanced as" "covered bs"
  then have "covered as" and bs: "covered bs" by (auto simp: balanced_def)
  then show ?thesis
  proof (induction as)
    case (Cons a as)
    then have "covered (as @ bs)" by simp
    moreover have "0 \<le> owes_write l (a # as) + owes_write l bs" "0 \<le> owes_read l (a # as) + owes_read l bs" for l
      using Cons.prems(1) covered_owes [OF bs, of l] by (auto simp del: owes_Cons)
    ultimately show ?case by (simp del: owes_Cons add: owes_append [of _ "a # as" bs, simplified])
  qed simp
qed

lemma balanced_append: "balanced as \<Longrightarrow> balanced bs \<Longrightarrow> balanced (as @ bs)"
  by (simp add: balanced_def covered_append [unfolded balanced_def])

lemma balanced_concat: "(\<And>x. x \<in> set xs \<Longrightarrow> balanced (f x)) \<Longrightarrow> balanced (concat (map f xs))"
  by (induction xs) (auto simp: balanced_append, simp add: balanced_def)

lemma balanced_enclosed:
  assumes "balanced as"
  shows "balanced (Lock l @ as @ [Unlock l])" "balanced ([RLock l] @ as @ [RUnlock l])"
proof -
  have "covered (as @ [Unlock l])" "covered (as @ [RUnlock l])"
    using covered_append [OF assms, of "[Unlock l]"] covered_append [OF assms, of "[RUnlock l]"] by auto
  with assms show "balanced (Lock l @ as @ [Unlock l])" "balanced ([RLock l] @ as @ [RUnlock l])"
    by (auto simp: balanced_def Lock_def)
qed

lemma balanced_emits: "balanced (emits tys)"
  unfolding emits_def by (rule balanced_concat) (simp add: emit_script_def balanced_def)

lemma balanced_script: "balanced (lock_script c)"
proof (cases c)
  case OnEventCall
  then show ?thesis using balanced_enclosed(1) [of "[]" EventLock] by (simp add: balanced_def)
next
  case ReadTable
  then show ?thesis by (simp add: balanced_def)
next
  case OnTable
  then show ?thesis by (simp add: balanced_def)
qed (use balanced_enclosed [OF balanced_emits] balanced_emits in \<open>simp_all only: lock_script.simps\<close>)

lemma balanced_calls: "balanced (calls_script cs)"
  unfolding calls_script_def by (rule balanced_concat) (rule balanced_script)

subsection \<open>The invariant\<close>

definition sum_owed :: "(act list \<Rightarrow> int) \<Rightarrow> lock_state \<Rightarrow> int" where
  "sum_owed f s = sum_list (map f (lk_todo s))"

definition lock_inv :: "lock_state \<Rightarrow> bool" where
  "lock_inv s \<longleftrightarrow>
     (\<forall>as \<in> set (lk_todo s). covered as)
     \<and> (\<forall>l. sum_owed (owes_write l) s = of_bool (lk_writer s l) \<and> sum_owed (owes_read l) s = int (lk_readers s l)
          \<and> (lk_writer s l \<longrightarrow> lk_readers s l = 0))"

lemma sum_list_at:
  fixes f :: "'a \<Rightarrow> int"
  shows "i < length xs \<Longrightarrow> sum_list (map f (xs[i := y])) = sum_list (map f xs) - f (xs ! i) + f y"
proof (induction xs arbitrary: i)
  case (Cons x xs)
  then show ?case by (cases i) simp_all
qed simp

lemma sum_list_ge:
  fixes f :: "'a \<Rightarrow> int"
  shows "i < length xs \<Longrightarrow> \<forall>x \<in> set xs. 0 \<le> f x \<Longrightarrow> f (xs ! i) \<le> sum_list (map f xs)"
proof (induction xs arbitrary: i)
  case (Cons x xs)
  have "0 \<le> sum_list (map f xs)" by (intro sum_list_nonneg) (use Cons.prems(2) in auto)
  with Cons show ?case by (cases i) (auto intro: order_trans [of "f (xs ! _)" "sum_list (map f xs)"])
qed simp

lemma owed_goes_on:
  "i < length (lk_todo s) \<Longrightarrow> sum_owed f (goes_on i as s) = sum_owed f s - f (lk_todo s ! i) + f as"
  by (simp add: sum_owed_def goes_on_def sum_list_at)

lemma owed_state [simp]:
  "sum_owed f (s\<lparr>lk_readers := r\<rparr>) = sum_owed f s" "sum_owed f (s\<lparr>lk_announced := a\<rparr>) = sum_owed f s"
  "sum_owed f (s\<lparr>lk_writer := w\<rparr>) = sum_owed f s"
  by (simp_all add: sum_owed_def)

lemma goes_on_simps [simp]:
  "lk_todo (goes_on i as s) = (lk_todo s)[i := as]" "lk_readers (goes_on i as s) = lk_readers s"
  "lk_writer (goes_on i as s) = lk_writer s" "lk_announced (goes_on i as s) = lk_announced s"
  by (simp_all add: goes_on_def)

lemma owed_le:
  assumes "lock_inv s" and "i < length (lk_todo s)"
  shows "owes_write l (lk_todo s ! i) \<le> sum_owed (owes_write l) s"
    and "owes_read l (lk_todo s ! i) \<le> sum_owed (owes_read l) s"
proof -
  have nn: "\<forall>as \<in> set (lk_todo s). 0 \<le> owes_write l as \<and> 0 \<le> owes_read l as"
    using assms(1) covered_owes by (auto simp: lock_inv_def)
  from sum_list_ge [OF assms(2)] nn show
    "owes_write l (lk_todo s ! i) \<le> sum_owed (owes_write l) s"
    "owes_read l (lk_todo s ! i) \<le> sum_owed (owes_read l) s"
    by (simp_all add: sum_owed_def)
qed

lemma covered_todo: "lock_inv s \<Longrightarrow> i < length (lk_todo s) \<Longrightarrow> covered (lk_todo s ! i)"
  by (simp add: lock_inv_def)

lemma covered_update:
  "lock_inv s \<Longrightarrow> covered as \<Longrightarrow> \<forall>bs \<in> set ((lk_todo s)[i := as]). covered bs"
  using set_update_subset_insert [of "lk_todo s" i as] by (auto simp: lock_inv_def)

lemma lock_inv_start: "lock_inv (lock_start css)"
proof -
  have "sum_list (map (owes_write l) (map calls_script css)) = 0"
    "sum_list (map (owes_read l) (map calls_script css)) = 0" for l
    using balanced_calls by (induction css) (auto simp: balanced_def)
  then show ?thesis using balanced_calls by (auto simp: lock_inv_def lock_start_def sum_owed_def balanced_def)
qed

lemma lock_inv_step: "lock_step hs s s' \<Longrightarrow> lock_inv s \<Longrightarrow> lock_inv s'"
proof (induction rule: lock_step.induct)
  case (rlock i s l rest)
  with covered_todo [OF rlock(5,1)] covered_update [OF rlock(5), of rest i] show ?case
    by (auto simp: lock_inv_def owed_goes_on)
next
  case (runlock i s l rest)
  note ge = owed_le(2) [OF runlock(3,1), of l]
  from runlock covered_todo [OF runlock(3,1)] have "0 \<le> owes_read l rest" by (auto dest: covered_owes)
  with ge runlock have "1 \<le> lk_readers s l" by (simp add: lock_inv_def)
  with runlock covered_todo [OF runlock(3,1)] covered_update [OF runlock(3), of rest i] show ?case
    by (auto simp: lock_inv_def owed_goes_on of_nat_diff)
next
  case (announce i s l rest)
  with covered_todo [OF announce(3,1)] covered_update [OF announce(3), of rest i] show ?case
    by (auto simp: lock_inv_def owed_goes_on)
next
  case (grab i s l rest)
  with covered_todo [OF grab(5,1)] covered_update [OF grab(5), of rest i] show ?case
    by (auto simp: lock_inv_def owed_goes_on)
next
  case (unlock i s l rest)
  note ge = owed_le(1) [OF unlock(3,1), of l]
  from unlock covered_todo [OF unlock(3,1)] have "0 \<le> owes_write l rest" by (auto dest: covered_owes)
  with ge unlock have "lk_writer s l" by (cases "lk_writer s l") (auto simp: lock_inv_def)
  with unlock covered_todo [OF unlock(3,1)] covered_update [OF unlock(3), of rest i] show ?case
    by (auto simp: lock_inv_def owed_goes_on)
next
  case (fire i s ty rest)
  have "covered rest" using covered_todo [OF fire(3,1)] fire(2) by simp
  then have "covered (calls_script (hs ty) @ rest)" by (rule covered_append [OF balanced_calls])
  from covered_update [OF fire(3) this, of i] fire balanced_calls [of "hs ty"] show ?case
    by (auto simp: lock_inv_def owed_goes_on balanced_def)
qed

lemma lock_inv_reach: "(lock_step hs)\<^sup>*\<^sup>* (lock_start css) s \<Longrightarrow> lock_inv s"
  by (induction rule: rtranclp_induct) (auto intro: lock_inv_start lock_inv_step)

subsection \<open>Properties\<close>

text \<open>
  A goroutine that waits for a lock in vain: it is about to take the lock and holds it itself, for
  writing; or for reading while it wants to write, or wants to read again while a writer waits.
\<close>

definition waits_in_vain :: "lock \<Rightarrow> nat \<Rightarrow> lock_state \<Rightarrow> bool" where
  "waits_in_vain l i s \<longleftrightarrow>
     i < length (lk_todo s) \<and>
     (case lk_todo s ! i of
        RLock l' # _ \<Rightarrow> l' = l \<and> (0 < owes_write l (lk_todo s ! i)
                             \<or> 0 < owes_read l (lk_todo s ! i) \<and> 0 < lk_announced s l)
      | Grab l' # _ \<Rightarrow> l' = l \<and> (0 < owes_write l (lk_todo s ! i) \<or> 0 < owes_read l (lk_todo s ! i))
      | _ \<Rightarrow> False)"

lemma holder:
  assumes "lock_inv s" and "i < length (lk_todo s)"
  shows "0 < owes_write l (lk_todo s ! i) \<Longrightarrow> lk_writer s l"
    and "0 < owes_read l (lk_todo s ! i) \<Longrightarrow> 0 < lk_readers s l \<and> \<not> lk_writer s l"
proof -
  from owed_le [OF assms, of l] assms(1)
  have *: "owes_write l (lk_todo s ! i) \<le> of_bool (lk_writer s l)" "owes_read l (lk_todo s ! i) \<le> int (lk_readers s l)"
      "lk_writer s l \<longrightarrow> lk_readers s l = 0"
    by (auto simp: lock_inv_def)
  show "0 < owes_write l (lk_todo s ! i) \<Longrightarrow> lk_writer s l" using *(1) by (cases "lk_writer s l") auto
  show "0 < owes_read l (lk_todo s ! i) \<Longrightarrow> 0 < lk_readers s l \<and> \<not> lk_writer s l" using *(2,3) by auto
qed

text \<open>Who unlocks holds the lock, so nobody does while there are readers.\<close>

lemma no_unlock:
  assumes "lock_inv s" and "i < length (lk_todo s)" and "0 < owes_read l (lk_todo s ! i)"
    and "j < length (lk_todo s)" and "lk_todo s ! j = Unlock l # rest"
  shows False
proof -
  have "0 \<le> owes_write l rest" using covered_todo [OF assms(1,4)] assms(5) by (auto dest: covered_owes)
  then have "lk_writer s l" by (intro holder(1) [OF assms(1,4)]) (simp add: assms(5))
  with holder(2) [OF assms(1,2,3)] show False by simp
qed

lemma vain_step:
  assumes "lock_step hs s s'" and "lock_inv s" and "waits_in_vain l i s"
  shows "lk_todo s' ! i = lk_todo s ! i \<and> waits_in_vain l i s'"
  using assms(1)
proof cases
  case (rlock j l' rest)
  have "j \<noteq> i"
  proof
    assume "j = i"
    with rlock assms(3) holder(1) [OF assms(2), of i l] show False by (auto simp: waits_in_vain_def)
  qed
  with rlock assms(3) show ?thesis by (auto simp: waits_in_vain_def split: list.splits act.splits)
next
  case (runlock j l' rest)
  then have "j \<noteq> i" using assms(3) by (auto simp: waits_in_vain_def)
  with runlock assms(3) show ?thesis by (auto simp: waits_in_vain_def split: list.splits act.splits)
next
  case (announce j l' rest)
  then have "j \<noteq> i" using assms(3) by (auto simp: waits_in_vain_def)
  with announce assms(3) show ?thesis by (auto simp: waits_in_vain_def split: list.splits act.splits)
next
  case (grab j l' rest)
  have "j \<noteq> i"
  proof
    assume "j = i"
    with grab assms(3) holder [OF assms(2), of i l] show False by (auto simp: waits_in_vain_def)
  qed
  with grab assms(3) show ?thesis by (auto simp: waits_in_vain_def split: list.splits act.splits)
next
  case (unlock j l' rest)
  then have "j \<noteq> i" using assms(3) by (auto simp: waits_in_vain_def)
  moreover have "\<not> 0 < owes_read l (lk_todo s ! i)" if "l' = l"
    using no_unlock [OF assms(2) _ _ unlock(2), of i l rest] unlock(3) assms(3) that
    by (auto simp: waits_in_vain_def)
  ultimately show ?thesis using unlock assms(3)
    by (auto simp: waits_in_vain_def split: list.splits act.splits if_splits)
next
  case (fire j ty rest)
  then have "j \<noteq> i" using assms(3) by (auto simp: waits_in_vain_def)
  with fire assms(3) show ?thesis by (auto simp: waits_in_vain_def split: list.splits act.splits)
qed



end
