(* ===== verification/StateRaces.thy ===== *)
theory StateRaces
  imports SessionProps
begin

text \<open>
  Changes of a session's state by several goroutines at once (\<open>setState\<close> of \<open>session.go\<close>): the
  status is loaded, stored and announced in three steps, between which other goroutines (that of
  \<open>connect\<close> and those of the client's callbacks) take theirs. One call of \<open>setState\<close> is a process;
  without interruption it is the function \<open>setState\<close> of theory Sessions.
\<close>

subsection \<open>Processes\<close>

text \<open>Where a call of \<open>setState\<close> stands: the state it sets, and the old state once it is loaded.\<close>

datatype set_pc = ToLoad u32 | ToStore u32 u32 | ToEmit u32 u32 | SetDone u32

fun sets :: "set_pc \<Rightarrow> u32" where
  "sets (ToLoad st) = st"
| "sets (ToStore st old) = st"
| "sets (ToEmit st old) = st"
| "sets (SetDone st) = st"

definition set_done :: "set_pc \<Rightarrow> bool" where
  "set_done p \<longleftrightarrow> p = SetDone (sets p)"

lemma set_done_simps [simp]:
  "\<not> set_done (ToLoad st)" "\<not> set_done (ToStore st old)" "\<not> set_done (ToEmit st old)" "set_done (SetDone st)"
  by (simp_all add: set_done_def)

definition state_event :: "int \<Rightarrow> u32 \<Rightarrow> u32 \<Rightarrow> session \<Rightarrow> event" where
  "state_event now old st s =
     \<lparr>ev_type = EventStateChanged, ev_session = se_name s,
      ev_data = MapData [(''old_state'', FU32 old), (''new_state'', FU32 st)], ev_time = now\<rparr>"

inductive set_step :: "('c, 'a) world \<times> set_pc list \<Rightarrow> ('c, 'a) world \<times> set_pc list \<Rightarrow> bool" where
  load: "i < length ps \<Longrightarrow> ps ! i = ToLoad st \<Longrightarrow>
    set_step (w, ps) (w, ps[i := ToStore st (se_status (fst w))])"
| store: "i < length ps \<Longrightarrow> ps ! i = ToStore st old \<Longrightarrow>
    set_step (w, ps)
      (on_session (\<lambda>s. s\<lparr>se_status := st\<rparr>) w, ps[i := if old \<noteq> st then ToEmit st old else SetDone st])"
| tell: "i < length ps \<Longrightarrow> ps ! i = ToEmit st old \<Longrightarrow>
    set_step (w, ps) ((fst w, emit_hub (state_event now old st (fst w)) (snd w)), ps[i := SetDone st])"

text \<open>A call that is not interrupted is the function.\<close>

lemma set_step_setState:
  assumes "i < length ps" and "ps ! i = ToLoad st"
  shows "set_step\<^sup>*\<^sup>* (w, ps) (setState now st w, ps[i := SetDone st])"
proof -
  obtain s h where w: "w = (s, h)" by (cases w)
  let ?w1 = "on_session (\<lambda>s. s\<lparr>se_status := st\<rparr>) w" and ?old = "se_status s"
  have "set_step (w, ps) (w, ps[i := ToStore st ?old])"
    using load [OF assms, of w] by (simp add: w)
  also have "set_step\<^sup>*\<^sup>* (w, ps[i := ToStore st ?old]) (?w1, ps[i := if ?old \<noteq> st then ToEmit st ?old else SetDone st])"
    using store [of i "ps[i := ToStore st ?old]" st ?old w] assms(1) by simp
  also have "set_step\<^sup>*\<^sup>* \<dots> (setState now st w, ps[i := SetDone st])"
  proof (cases "?old = st")
    case True
    then show ?thesis by (simp add: w setState_def on_session_def)
  next
    case False
    with tell [of i "ps[i := ToEmit st ?old]" st ?old ?w1 now] assms(1) show ?thesis
      by (auto simp: w setState_def on_session_def state_event_def)
  qed
  finally show ?thesis by simp
qed

subsection \<open>The invariant of the processes\<close>

text \<open>The states a process has brought into play, and those that are announced or about to be.\<close>

definition in_play :: "u32 \<Rightarrow> ('c, 'a) world \<times> set_pc list \<Rightarrow> bool" where
  "in_play v s \<longleftrightarrow> se_status (fst (fst s)) = v \<or> SetDone v \<in> set (snd s)
     \<or> (\<exists>st. ToStore st v \<in> set (snd s) \<or> ToEmit st v \<in> set (snd s) \<or> ToEmit v st \<in> set (snd s))"

definition voiced :: "u32 \<Rightarrow> (u32 \<times> u32) list \<Rightarrow> ('c, 'a) world \<times> set_pc list \<Rightarrow> bool" where
  "voiced v new s \<longleftrightarrow> v \<in> snd ` set new \<or> (\<exists>old. ToEmit v old \<in> set (snd s))"

definition pc_ok :: "u32 set \<Rightarrow> set_pc \<Rightarrow> bool" where
  "pc_ok V p \<longleftrightarrow>
     sets p \<in> V \<and> (case p of ToStore st old \<Rightarrow> old \<in> V | ToEmit st old \<Rightarrow> old \<in> V \<and> old \<noteq> st | _ \<Rightarrow> True)"

text \<open>What is told to the observer \<open>hid\<close>, who is registered once.\<close>

definition told_to :: "nat \<Rightarrow> ('c, 'a) world \<Rightarrow> (u32 \<times> u32) list" where
  "told_to hid w = changes_told hid (se_name (fst w)) (hb_events (snd w))"

definition watches :: "nat \<Rightarrow> ('c, 'a) world \<Rightarrow> bool" where
  "watches hid w \<longleftrightarrow> count_list (handlers_of (hb_events (snd w)) EventStateChanged) hid = 1"

definition race_inv ::
  "nat \<Rightarrow> ('c, 'a) world \<Rightarrow> u32 set \<Rightarrow> (u32 \<times> u32) list \<Rightarrow> ('c, 'a) world \<times> set_pc list \<Rightarrow> bool" where
  "race_inv hid w0 V new s \<longleftrightarrow>
     watches hid (fst s) \<and> told_to hid (fst s) = told_to hid w0 @ new
     \<and> length new \<le> length (filter set_done (snd s))
     \<and> (\<forall>(a, b) \<in> set new. a \<noteq> b \<and> a \<in> V \<and> b \<in> V)
     \<and> list_all (pc_ok V) (snd s) \<and> se_status (fst (fst s)) \<in> V
     \<and> (\<forall>v. v \<noteq> se_status (fst w0) \<longrightarrow> in_play v s \<longrightarrow> voiced v new s)"

lemma voiced_update:
  assumes "voiced v new (w, ps)" and "i < length ps" and "\<And>old. ps ! i \<noteq> ToEmit v old"
  shows "voiced v new (w', ps[i := q])"
proof -
  have "ToEmit v old \<in> set (ps[i := q])" if "ToEmit v old \<in> set ps" for old
    using in_update [OF that assms(2)] assms(3) [of old] by auto
  with assms(1) show ?thesis by (auto simp: voiced_def)
qed

lemma told_to_tell:
  "watches hid w \<Longrightarrow>
     told_to hid (fst w, emit_hub (state_event now old st (fst w)) (snd w)) = told_to hid w @ [(old, st)]
     \<and> watches hid (fst w, emit_hub (state_event now old st (fst w)) (snd w))"
  by (simp add: told_to_def watches_def emit_hub_def state_event_def changes_told_emit change_of_def)

lemma told_to_store [simp]:
  "told_to hid (on_session (\<lambda>s. s\<lparr>se_status := st\<rparr>) w) = told_to hid w"
  "watches hid (on_session (\<lambda>s. s\<lparr>se_status := st\<rparr>) w) = watches hid w"
  by (simp_all add: told_to_def watches_def on_session_def)

lemma race_inv_step:
  "set_step s s' \<Longrightarrow> race_inv hid w0 V new s \<Longrightarrow> \<exists>new'. race_inv hid w0 V new' s'"
proof (induction rule: set_step.induct)
  case (load i ps st w)
  let ?ps = "ps[i := ToStore st (se_status (fst w))]"
  have ok: "pc_ok V (ToStore st (se_status (fst w)))"
    using load by (auto simp: race_inv_def pc_ok_def list_all_length)
  have play: "in_play v (w, ?ps) \<Longrightarrow> in_play v (w, ps)" for v
    by (auto simp: in_play_def dest!: update_in)
  have voice: "voiced v new (w, ps) \<Longrightarrow> voiced v new (w, ?ps)" for v
    using load(1,2) by (auto intro: voiced_update)
  from load ok play voice have "race_inv hid w0 V new (w, ?ps)"
    by (auto simp: race_inv_def filter_update list_all_update)
  then show ?case by blast
next
  case (store i ps st old w)
  let ?q = "if old \<noteq> st then ToEmit st old else SetDone st"
  let ?ps = "ps[i := ?q]" and ?w = "on_session (\<lambda>s. s\<lparr>se_status := st\<rparr>) w"
  have mem: "ToStore st old \<in> set ps" "?q \<in> set ?ps"
    using store(1,2) by (auto simp: set_update_memI simp flip: store(2))
  have ok: "pc_ok V ?q" "st \<in> V" using store by (auto simp: race_inv_def pc_ok_def list_all_length)
  have play: "in_play v (?w, ?ps) \<Longrightarrow> v = st \<and> old \<noteq> st \<or> in_play v (w, ps)" for v
    using mem(1) by (auto simp: in_play_def on_session_def dest!: update_in split: if_splits)
  have voice: "voiced v new (w, ps) \<Longrightarrow> voiced v new (?w, ?ps)" for v
    using store(1,2) by (auto intro: voiced_update)
  have new_voice: "old \<noteq> st \<Longrightarrow> voiced st new (?w, ?ps)" using mem(2) by (auto simp: voiced_def)
  have len: "length (filter set_done ps) \<le> length (filter set_done ?ps)"
    using store(1,2) by (simp add: filter_update)
  have st: "se_status (fst ?w) = st" by (simp add: on_session_def)
  from store(3) have 1: "watches hid ?w" "told_to hid ?w = told_to hid w0 @ new"
      "length new \<le> length (filter set_done ?ps)" "list_all (pc_ok V) ?ps"
      "\<forall>(a, b) \<in> set new. a \<noteq> b \<and> a \<in> V \<and> b \<in> V"
    using len ok by (auto simp: race_inv_def list_all_update simp del: split_paired_All)
  have "\<forall>v. v \<noteq> se_status (fst w0) \<longrightarrow> in_play v (?w, ?ps) \<longrightarrow> voiced v new (?w, ?ps)"
  proof (intro allI impI)
    fix v
    assume v: "v \<noteq> se_status (fst w0)" and "in_play v (?w, ?ps)"
    from play [OF this(2)] show "voiced v new (?w, ?ps)"
    proof
      assume "v = st \<and> old \<noteq> st"
      with new_voice show ?thesis by blast
    next
      assume "in_play v (w, ps)"
      with v store(3) have "voiced v new (w, ps)" by (simp add: race_inv_def)
      then show ?thesis by (rule voice)
    qed
  qed
  with 1 ok(2) st have "race_inv hid w0 V new (?w, ?ps)" by (simp add: race_inv_def)
  then show ?case by blast
next
  case (tell i ps st old w now)
  let ?ps = "ps[i := SetDone st]" and ?w = "(fst w, emit_hub (state_event now old st (fst w)) (snd w))"
  let ?new = "new @ [(old, st)]"
  have mem: "ToEmit st old \<in> set ps" using tell(1,2) by (metis nth_mem)
  have ok: "pc_ok V (ToEmit st old)" "pc_ok V (SetDone st)"
    using tell by (auto simp: race_inv_def pc_ok_def list_all_length)
  have play: "in_play v (?w, ?ps) \<Longrightarrow> in_play v (w, ps)" for v
    using mem by (auto simp: in_play_def dest!: update_in)
  have voice: "voiced v new (w, ps) \<Longrightarrow> voiced v ?new (?w, ?ps)" for v
    using voiced_update [of v new w ps i ?w "SetDone st"] tell(1,2)
    by (cases "v = st") (auto simp: voiced_def)
  have len: "length (filter set_done ?ps) = Suc (length (filter set_done ps))"
    using tell(1,2) by (simp add: filter_update)
  have "watches hid w" using tell(3) by (simp add: race_inv_def)
  note told = told_to_tell [OF this, of now old st]
  have "\<forall>v. v \<noteq> se_status (fst w0) \<longrightarrow> in_play v (?w, ?ps) \<longrightarrow> voiced v ?new (?w, ?ps)"
    using play voice tell(3) by (auto simp: race_inv_def)
  with told tell(3) ok len have "race_inv hid w0 V ?new (?w, ?ps)"
    by (auto simp: race_inv_def list_all_update pc_ok_def)
  then show ?case by blast
qed

lemma race_inv_run:
  assumes "set_step\<^sup>*\<^sup>* (w, map ToLoad sts) s" and "watches hid w"
  shows "\<exists>new. race_inv hid w (insert (se_status (fst w)) (set sts)) new s"
  using assms(1)
proof (induction rule: rtranclp_induct)
  case base
  have "in_play v (w, map ToLoad sts) \<Longrightarrow> v = se_status (fst w)" for v by (auto simp: in_play_def)
  then have "race_inv hid w (insert (se_status (fst w)) (set sts)) [] (w, map ToLoad sts)"
    using assms(2) by (auto simp: race_inv_def list_all_iff pc_ok_def)
  then show ?case by blast
next
  case (step s s')
  then show ?case using race_inv_step by blast
qed

text \<open>No step changes what a process sets.\<close>

lemma sets_step: "set_step s s' \<Longrightarrow> map sets (snd s') = map sets (snd s)"
  by (induction rule: set_step.induct) (auto simp: map_update intro!: list_update_same_conv [THEN iffD2])

lemma sets_run: "set_step\<^sup>*\<^sup>* s s' \<Longrightarrow> map sets (snd s') = map sets (snd s)"
  by (induction rule: rtranclp_induct) (simp_all add: sets_step)

text \<open>What an uninterrupted call tells.\<close>

lemma told_to_setState:
  assumes "watches hid w"
  shows "told_to hid (setState now st w)
           = told_to hid w @ (if se_status (fst w) = st then [] else [(se_status (fst w), st)])"
    and "watches hid (setState now st w)" and "se_status (fst (setState now st w)) = st"
proof -
  obtain s h where w: "w = (s, h)" by (cases w)
  let ?w1 = "on_session (\<lambda>s. s\<lparr>se_status := st\<rparr>) w"
  have w1: "watches hid ?w1" using assms by simp
  have eq: "setState now st w = (if se_status s = st then ?w1
      else (fst ?w1, emit_hub (state_event now (se_status s) st (fst ?w1)) (snd ?w1)))"
    by (simp add: w setState_def on_session_def state_event_def Let_def)
  show "told_to hid (setState now st w)
           = told_to hid w @ (if se_status (fst w) = st then [] else [(se_status (fst w), st)])"
    and "watches hid (setState now st w)"
    using told_to_tell [OF w1, of now "se_status s" st] assms unfolding eq by (simp_all add: w)
  show "se_status (fst (setState now st w)) = st" by (simp add: eq on_session_def)
qed

subsection \<open>Properties\<close>

text \<open>
  The last change an observer is told of need not lead to the current state. The goroutine of
  \<open>connect\<close> and the client's \<open>handleConnect\<close> both report a connection; between the load and the
  store of the first the connection is lost, which \<open>handleConnectionLost\<close> announces. The session
  is then connected, without a client connection, and the observer knows it as disconnected.
\<close>

theorem observer_misled:
  assumes "watches hid w" and "se_status (fst w) = stateConnecting"
  shows "\<exists>w' ps. set_step\<^sup>*\<^sup>* (w, map ToLoad [stateConnected, stateDisconnected, stateConnected]) (w', ps)
     \<and> list_all set_done ps \<and> se_status (fst w') = stateConnected
     \<and> told_to hid w' = told_to hid w @ [(stateConnecting, stateConnected), (stateConnected, stateDisconnected)]"
proof -
  let ?c = stateConnected and ?d = stateDisconnected
  let ?w1 = "setState 0 ?c w"
  let ?w2 = "setState 0 ?d ?w1"
  let ?w3 = "on_session (\<lambda>s. s\<lparr>se_status := ?c\<rparr>) ?w2"
  note t1 = told_to_setState [OF assms(1), of 0 ?c]
  note t2 = told_to_setState [OF t1(2), of 0 ?d]
  have "set_step\<^sup>*\<^sup>* (w, [ToLoad ?c, ToLoad ?d, ToLoad ?c]) (?w1, [ToLoad ?c, ToLoad ?d, SetDone ?c])"
    using set_step_setState [of 2 "[ToLoad ?c, ToLoad ?d, ToLoad ?c]" ?c w 0] by simp
  also have "set_step\<^sup>*\<^sup>* \<dots> (?w1, [ToStore ?c ?c, ToLoad ?d, SetDone ?c])"
    using load [of 0 "[ToLoad ?c, ToLoad ?d, SetDone ?c]" ?c ?w1] t1(3) by simp
  also have "set_step\<^sup>*\<^sup>* \<dots> (?w2, [ToStore ?c ?c, SetDone ?d, SetDone ?c])"
    using set_step_setState [of 1 "[ToStore ?c ?c, ToLoad ?d, SetDone ?c]" ?d ?w1 0] by simp
  also have "set_step\<^sup>*\<^sup>* \<dots> (?w3, [SetDone ?c, SetDone ?d, SetDone ?c])"
    using store [of 0 "[ToStore ?c ?c, SetDone ?d, SetDone ?c]" ?c ?c ?w2] by simp
  finally have "set_step\<^sup>*\<^sup>* (w, map ToLoad [?c, ?d, ?c]) (?w3, [SetDone ?c, SetDone ?d, SetDone ?c])" by simp
  moreover have "told_to hid ?w3
      = told_to hid w @ [(stateConnecting, stateConnected), (stateConnected, stateDisconnected)]"
    using t1 t2 assms(2) by (simp add: state_defs)
  moreover have "se_status (fst ?w3) = stateConnected" by (simp add: on_session_def)
  ultimately show ?thesis by (intro exI [of _ ?w3] exI [of _ "[SetDone ?c, SetDone ?d, SetDone ?c]"]) simp
qed

text \<open>
  C19. When any number of goroutines call \<open>setState\<close> and their steps interleave in any way, then at
  the end an observer of the state changes has been told of every state that was set, the current
  one included, unless it is the state at the start; never more often than there were calls; and
  only of changes between different states that were set or held at the start. (The changes need
  not form a path, and the last one need not lead to the current state.)
\<close>

theorem concurrent_states_announced:
  assumes "set_step\<^sup>*\<^sup>* (w, map ToLoad sts) (w', ps)" and "list_all set_done ps" and "watches hid w"
  shows "\<exists>new. told_to hid w' = told_to hid w @ new \<and> length new \<le> length sts
     \<and> (\<forall>(a, b) \<in> set new. a \<noteq> b \<and> {a, b} \<subseteq> insert (se_status (fst w)) (set sts))
     \<and> insert (se_status (fst w')) (set sts) \<subseteq> insert (se_status (fst w)) (snd ` set new)"
proof -
  obtain new where inv: "race_inv hid w (insert (se_status (fst w)) (set sts)) new (w', ps)"
    using race_inv_run [OF assms(1,3)] by blast
  have targets: "map sets ps = sts" using sets_run [OF assms(1)] by (simp add: comp_def)
  have done_all: "set ps = SetDone ` set sts"
    using assms(2) targets by (force simp: list_all_iff set_done_def)
  then have "in_play v (w', ps) \<Longrightarrow> v \<in> insert (se_status (fst w)) (snd ` set new)" for v
    using inv by (fastforce simp: race_inv_def voiced_def)
  then have "insert (se_status (fst w')) (set sts) \<subseteq> insert (se_status (fst w)) (snd ` set new)"
    using done_all by (auto simp: in_play_def)
  moreover have "length new \<le> length sts"
  proof -
    have "length (filter set_done ps) \<le> length ps" by simp
    also have "length ps = length sts" using targets by (metis length_map)
    finally show ?thesis using inv by (simp add: race_inv_def)
  qed
  ultimately show ?thesis using inv by (auto simp: race_inv_def)
qed

theorem concurrent_states_announced_witness:
  "\<exists>w' ps new. set_step\<^sup>*\<^sup>*
       ((sample_session\<lparr>se_status := stateConnecting\<rparr>, sample_hub),
        map ToLoad [stateConnected, stateDisconnected, stateConnected]) (w', ps)
     \<and> told_to 0 w' = new \<and> length new \<le> 3 \<and> {stateConnected, stateDisconnected} \<subseteq> snd ` set new"
proof -
  let ?w = "(sample_session\<lparr>se_status := stateConnecting\<rparr>, sample_hub)"
  let ?sts = "[stateConnected, stateDisconnected, stateConnected]"
  have watch: "watches 0 ?w"
    using sample_announced by (simp add: announced_def watches_def)
  have empty: "told_to 0 ?w = []"
    by (simp add: told_to_def changes_told_def sample_hub_def newEventManager_def on_event_def)
  obtain w' ps where run: "set_step\<^sup>*\<^sup>* (?w, map ToLoad ?sts) (w', ps)" "list_all set_done ps"
    using observer_misled [OF watch] by auto
  from concurrent_states_announced [OF run watch] run(1) empty show ?thesis
    by (intro exI [of _ w'] exI [of _ ps]) (auto simp: state_defs)
qed

end
