(* ===== verification/SaveRaces.thy ===== *)
theory SaveRaces
  imports Persistence "HOL-Library.Multiset"
begin

text \<open>
  Subscribing and unsubscribing by several goroutines at once (\<open>Subscribe\<close>, \<open>Unsubscribe\<close>,
  \<open>saveState\<close> of \<open>session.go\<close>). Each call asks the broker, changes the registry under its lock,
  collects the state to save under the lock again, and writes it to the store, in separate steps
  between which other goroutines take theirs. Without interruption a call is the function of theory
  Sessions.
\<close>

subsection \<open>Calls\<close>

datatype sub_task = AddTopic string handler byte | DropTopics "string list"

text \<open>What a call asks of the client, how often it tries, and what it does to the registry.\<close>

fun request :: "sub_task \<Rightarrow> client_call" where
  "request (AddTopic tpc f qos) = CSubscribe tpc qos f"
| "request (DropTopics tpcs) = CUnsubscribe tpcs"

fun tries :: "sub_task \<Rightarrow> nat" where
  "tries (AddTopic tpc f qos) = maxRetries"
| "tries (DropTopics tpcs) = 1"

fun change :: "sub_task \<Rightarrow> handler_registry \<Rightarrow> handler_registry" where
  "change (AddTopic tpc f qos) h = AddMessageHandler tpc f h"
| "change (DropTopics tpcs) h = fold RemoveMessageHandler tpcs h"

text \<open>
  Where a call stands: before its attempt \<open>k\<close>, granted by the broker, past the change of the
  registry, past the collection of the state to save, or at its end, with its result.
\<close>

datatype sub_phase = Asking nat | Granted | Changed | Collected session_state | Ended "goerr option"

type_synonym sub_call = "sub_task \<times> sub_phase"

definition denied :: "sub_task \<Rightarrow> nat \<Rightarrow> goerr \<Rightarrow> sub_call" where
  "denied t k e = (t, if Suc k < tries t then Asking (Suc k) else Ended (Some e))"

text \<open>
  The steps. \<open>P\<close> says which environments (clock, faults) can occur. Other goroutines may change the
  status at any time.
\<close>

inductive sub_step ::
  "('c env \<Rightarrow> bool) \<Rightarrow> ('c, 'a) world \<times> sub_call list \<Rightarrow> ('c, 'a) world \<times> sub_call list \<Rightarrow> bool" for P where
  offline: "i < length cs \<Longrightarrow> cs ! i = (t, Asking k) \<Longrightarrow> \<not> IsConnected (fst w) \<Longrightarrow>
    sub_step P (w, cs) (w, cs[i := denied t k (Sentinel ErrNotConnected)])"
| refused: "i < length cs \<Longrightarrow> cs ! i = (t, Asking k) \<Longrightarrow> IsConnected (fst w) \<Longrightarrow> P en \<Longrightarrow>
    sub_step P (w, cs)
      (on_session (session_error (en_now en)) (on_session (record_call (request t)) w), cs[i := denied t k e])"
| grant: "i < length cs \<Longrightarrow> cs ! i = (t, Asking k) \<Longrightarrow> IsConnected (fst w) \<Longrightarrow>
    sub_step P (w, cs) (on_session (record_call (request t)) w, cs[i := (t, Granted)])"
| change: "i < length cs \<Longrightarrow> cs ! i = (t, Granted) \<Longrightarrow>
    sub_step P (w, cs)
      (on_session (\<lambda>s. s\<lparr>se_handlers := change t (se_handlers s)\<rparr>) w,
       cs[i := (t, if cp_persistent (sprops (fst w)) then Changed else Ended None)])"
| collect: "i < length cs \<Longrightarrow> cs ! i = (t, Changed) \<Longrightarrow> P en \<Longrightarrow>
    sub_step P (w, cs) (w, cs[i := (t, Collected (collect_state (en_now en) (fst w)))])"
| save: "i < length cs \<Longrightarrow> cs ! i = (t, Collected st) \<Longrightarrow> P en \<Longrightarrow>
    sub_step P (w, cs) (snd (store_SaveState en (Some st) w), cs[i := (t, Ended None)])"
| status: "sub_step P (w, cs) (on_session (\<lambda>s. s\<lparr>se_status := st\<rparr>) w, cs)"

text \<open>Calls that are not interrupted are the functions.\<close>

lemma store_SaveState_handlers [simp]:
  "se_handlers (fst (snd (store_SaveState en st w))) = se_handlers (fst w)"
  "se_client (fst (snd (store_SaveState en st w))) = se_client (fst w)"
  by (cases w; simp add: store_SaveState_def split: sstore.split prod.split)+

lemma sub_step_run:
  assumes "i < length cs" and "cs ! i = (t, Asking k)" and "IsConnected (fst w)" and "P en"
  shows "(sub_step P)\<^sup>*\<^sup>* (w, cs)
     (save_if_persistent en (on_session (\<lambda>s. s\<lparr>se_handlers := change t (se_handlers s)\<rparr>)
        (on_session (record_call (request t)) w)), cs[i := (t, Ended None)])"
proof -
  let ?w1 = "on_session (record_call (request t)) w"
  let ?w2 = "on_session (\<lambda>s. s\<lparr>se_handlers := change t (se_handlers s)\<rparr>) ?w1"
  let ?st = "collect_state (en_now en) (fst ?w2)"
  have pers: "cp_persistent (sprops (fst ?w1)) = cp_persistent (sprops (fst w))"
    "cp_persistent (sprops (fst ?w2)) = cp_persistent (sprops (fst w))"
    by (simp_all add: record_call_def sprops_def)
  have "sub_step P (w, cs) (?w1, cs[i := (t, Granted)])" by (rule grant [OF assms(1-3)])
  also have "(sub_step P)\<^sup>*\<^sup>* \<dots> (?w2, cs[i := (t, if cp_persistent (sprops (fst w)) then Changed else Ended None)])"
    using change [of i "cs[i := (t, Granted)]" t P ?w1] assms(1) pers(1) by simp
  also have "(sub_step P)\<^sup>*\<^sup>* \<dots> (save_if_persistent en ?w2, cs[i := (t, Ended None)])"
  proof (cases "cp_persistent (sprops (fst w))")
    case False
    then show ?thesis using pers by (simp add: save_if_persistent_def)
  next
    case True
    have "sub_step P (?w2, cs[i := (t, Changed)]) (?w2, cs[i := (t, Collected ?st)])"
      using collect [of i "cs[i := (t, Changed)]" t P en ?w2] assms(1,4) by simp
    also have "(sub_step P)\<^sup>*\<^sup>* \<dots> (snd (store_SaveState en (Some ?st) ?w2), cs[i := (t, Ended None)])"
      using save [of i "cs[i := (t, Collected ?st)]" t ?st P en ?w2] assms(1,4) by simp
    finally show ?thesis using True pers by (simp add: save_if_persistent_def saveState_def)
  qed
  finally show ?thesis by simp
qed

lemma sub_step_Subscribe:
  assumes "i < length cs" and "cs ! i = (AddTopic tpc f qos, Asking k)" and "IsConnected (fst w)"
    and "at_error (at 0) = None" and "P (at_env (at 0))"
  shows "(sub_step P)\<^sup>*\<^sup>* (w, cs)
     (snd (Subscribe at tpc f qos w), cs[i := (AddTopic tpc f qos, Ended (fst (Subscribe at tpc f qos w)))])"
  using sub_step_run [of i cs _ k w P "at_env (at 0)", OF assms(1,2,3,5)] by (simp add: Subscribe_first [of w at tpc f qos, OF assms(3,4)] subscribed_def)

lemma sub_step_Unsubscribe:
  assumes "i < length cs" and "cs ! i = (DropTopics tpcs, Asking k)" and "IsConnected (fst w)" and "P en"
  shows "(sub_step P)\<^sup>*\<^sup>* (w, cs)
     (snd (Unsubscribe en None tpcs w), cs[i := (DropTopics tpcs, Ended (fst (Unsubscribe en None tpcs w)))])"
  using sub_step_run [of i cs _ k w P en, OF assms(1-4)] assms(3) by (simp add: Unsubscribe_def IsConnected_def)

subsection \<open>The invariant of the calls\<close>

text \<open>What is saved for a registry after some changes, and the calls whose change is done.\<close>

definition topics_after :: "sub_task list \<Rightarrow> handler_registry \<Rightarrow> topic_subscription list" where
  "topics_after order h = map (\<lambda>t. \<lparr>ts_topic = t, ts_qos = 0\<rparr>) (GetAllTopics (fold change order h))"

fun changed_by :: "sub_phase \<Rightarrow> bool" where
  "changed_by (Asking k) = False"
| "changed_by Granted = False"
| "changed_by Changed = True"
| "changed_by (Collected st) = True"
| "changed_by (Ended r) = (r = None)"

definition applied :: "sub_call list \<Rightarrow> sub_task multiset" where
  "applied cs = mset (map fst (filter (\<lambda>c. changed_by (snd c)) cs))"

lemma applied_new:
  "i < length cs \<Longrightarrow> \<not> changed_by (snd (cs ! i)) \<Longrightarrow>
     applied (cs[i := c]) = applied cs + (if changed_by (snd c) then {#fst c#} else {#})"
  unfolding applied_def
proof (induction cs arbitrary: i)
  case (Cons d cs)
  then show ?case by (cases i) auto
qed simp

lemma applied_same:
  "i < length cs \<Longrightarrow> fst c = fst (cs ! i) \<Longrightarrow> changed_by (snd c) = changed_by (snd (cs ! i)) \<Longrightarrow>
     applied (cs[i := c]) = applied cs"
  unfolding applied_def
proof (induction cs arbitrary: i)
  case (Cons d cs)
  then show ?case by (cases i) auto
qed simp

lemma denied_phase [simp]: "\<not> changed_by (snd (denied t k e))" "(u, Collected st) \<noteq> denied t k e"
    "(u, Ended None) \<noteq> denied t k e"
  by (auto simp: denied_def)

text \<open>A state that lists the topics after the first few of the changes, at least one.\<close>

definition lists_prefix :: "handler_registry \<Rightarrow> sub_task list \<Rightarrow> session_state \<Rightarrow> bool" where
  "lists_prefix h order st \<longleftrightarrow> json_storable st
     \<and> (\<exists>k. 0 < k \<and> k \<le> length order \<and> st_topics st = Some (topics_after (take k order) h))"

lemma lists_prefix_more: "lists_prefix h order st \<Longrightarrow> lists_prefix h (order @ [t]) st"
  by (fastforce simp: lists_prefix_def)

text \<open>The store works and the times that occur can be stored.\<close>

definition works :: "'c redis_client \<Rightarrow> ('c env \<Rightarrow> bool) \<Rightarrow> ('c, 'a) world \<Rightarrow> bool" where
  "works cl P w \<longleftrightarrow> (\<forall>en. P en \<longrightarrow> store_healthy cl en w \<and> time_ok (en_now en)
     \<and> time_ok (session_expiry (en_now en) (fst w)))"

definition keeps_session :: "('c, 'a) world \<Rightarrow> ('c, 'a) world \<Rightarrow> bool" where
  "keeps_session w0 w \<longleftrightarrow> se_opts (fst w) = se_opts (fst w0) \<and> se_client (fst w) = se_client (fst w0)"

text \<open>Topics that are subscribed are UTF-8.\<close>

fun task_ok :: "sub_task \<Rightarrow> bool" where
  "task_ok (AddTopic tpc f qos) \<longleftrightarrow> valid_utf8 tpc"
| "task_ok (DropTopics tpcs) \<longleftrightarrow> True"

lemma names_change:
  assumes "names_ok s" and "task_ok t"
  shows "names_ok (s\<lparr>se_handlers := change t (se_handlers s)\<rparr>)"
proof -
  have drop: "set (GetAllTopics (fold RemoveMessageHandler tpcs h)) \<subseteq> set (GetAllTopics h)" for tpcs h
  proof (induction tpcs arbitrary: h)
    case (Cons x xs)
    have "set (GetAllTopics (RemoveMessageHandler x h)) \<subseteq> set (GetAllTopics h)"
      by (auto simp: GetAllTopics_def RemoveMessageHandler_def delete_keys)
    with Cons [of "RemoveMessageHandler x h"] show ?case by auto
  qed simp
  show ?thesis
  proof (cases t)
    case (AddTopic tpc f qos)
    have "set (GetAllTopics (AddMessageHandler tpc f (se_handlers s))) = insert tpc (set (GetAllTopics (se_handlers s)))"
      by (simp add: GetAllTopics_def AddMessageHandler_def dom_update)
    with AddTopic assms show ?thesis by (simp add: names_ok_def GetSubscribedTopics_def list_all_iff)
  next
    case (DropTopics tpcs)
    with assms drop [of tpcs "se_handlers s"] show ?thesis
      by (auto simp: names_ok_def GetSubscribedTopics_def list_all_iff)
  qed
qed

lemma names_same:
  "se_handlers s' = se_handlers s \<Longrightarrow> se_opts s' = se_opts s \<Longrightarrow> names_ok s' = names_ok s"
  by (simp add: names_ok_def GetSubscribedTopics_def)

lemma same_tasks: "i < length cs \<Longrightarrow> cs ! i = (t, p) \<Longrightarrow> map fst (cs[i := (t, q)]) = map fst cs"
  by (simp add: map_update list_update_same_conv)

lemma same_tasks_denied: "i < length cs \<Longrightarrow> cs ! i = (t, p) \<Longrightarrow> map fst (cs[i := denied t k e]) = map fst cs"
  by (simp add: denied_def same_tasks)

definition subs_inv ::
  "'c redis_client \<Rightarrow> ('c env \<Rightarrow> bool) \<Rightarrow> ('c, 'a) world \<Rightarrow> sub_task list \<Rightarrow>
     ('c, 'a) world \<times> sub_call list \<Rightarrow> bool" where
  "subs_inv cl P w0 order s \<longleftrightarrow>
     (let w = fst s; cs = snd s; h = se_handlers (fst w0)
      in works cl P w \<and> names_ok (fst w) \<and> list_all task_ok (map fst cs) \<and> keeps_session w0 w \<and> se_handlers (fst w) = fold change order h
         \<and> mset order = applied cs
         \<and> (\<forall>t st. (t, Collected st) \<in> set cs \<longrightarrow> lists_prefix h order st)
         \<and> (cp_persistent (sprops (fst w0)) \<and> (\<exists>t. (t, Ended None) \<in> set cs) \<longrightarrow>
              (\<exists>st. lists_prefix h order st \<and> (\<forall>en. P en \<longrightarrow> store_LoadState en w = Inr (Some st)))))"

text \<open>Steps that leave the store and the registry alone.\<close>

lemma works_same:
  assumes "works cl P w" and "same_backend w' w" and "se_opts (fst w') = se_opts (fst w)"
  shows "works cl P w'"
proof -
  have "session_expiry now (fst w') = session_expiry now (fst w)" for now
    using assms(3) by (simp add: session_expiry_def sprops_def)
  with assms(1) show ?thesis by (simp add: works_def healthy_same [OF assms(2)])
qed

lemma subs_inv_quiet:
  assumes inv: "subs_inv cl P w0 order (w, cs)" and b: "same_backend w' w" and k: "keeps_session w w'"
    and h: "se_handlers (fst w') = se_handlers (fst w)" and ts: "map fst cs' = map fst cs" and a: "applied cs' = applied cs"
    and c: "\<And>t st. (t, Collected st) \<in> set cs' \<Longrightarrow>
        (t, Collected st) \<in> set cs \<or> lists_prefix (se_handlers (fst w0)) order st"
    and e: "\<And>t. (t, Ended None) \<in> set cs' \<Longrightarrow> (t, Ended None) \<in> set cs"
  shows "subs_inv cl P w0 order (w', cs')"
  using inv h ts a c e k works_same [OF _ b, of cl P] load_same [OF b] names_same [of "fst w'" "fst w"]
  unfolding subs_inv_def Let_def keeps_session_def by simp metis

lemma subs_inv_step:
  assumes "sub_step P s s'" and "subs_inv cl P w0 order s"
  shows "\<exists>order'. subs_inv cl P w0 order' s'"
  using assms
proof (induction rule: sub_step.induct)
  case (offline i cs t k w)
  have "subs_inv cl P w0 order (w, cs[i := denied t k (Sentinel ErrNotConnected)])"
    by (rule subs_inv_quiet [OF offline(4)])
      (use offline(1,2) in \<open>auto simp: same_backend_def keeps_session_def applied_new same_tasks_denied dest!: update_in\<close>)
  then show ?case by blast
next
  case (refused i cs t k w en e)
  let ?w' = "on_session (session_error (en_now en)) (on_session (record_call (request t)) w)"
  have "subs_inv cl P w0 order (?w', cs[i := denied t k e])"
    by (rule subs_inv_quiet [OF refused(5)])
      (use refused(1,2) in \<open>auto simp: same_backend_def keeps_session_def applied_new same_tasks_denied session_error_def
        record_call_def dest!: update_in\<close>)
  then show ?case by blast
next
  case (grant i cs t k w)
  have "subs_inv cl P w0 order (on_session (record_call (request t)) w, cs[i := (t, Granted)])"
    by (rule subs_inv_quiet [OF grant(4)])
      (use grant(1,2) in \<open>auto simp: same_backend_def keeps_session_def applied_new same_tasks record_call_def
        dest!: update_in\<close>)
  then show ?case by blast
next
  case (change i cs t w)
  let ?w' = "on_session (\<lambda>s. s\<lparr>se_handlers := change t (se_handlers s)\<rparr>) w"
  let ?c = "(t, if cp_persistent (sprops (fst w)) then Changed else Ended None)"
  have inv: "works cl P w" "keeps_session w0 w" "se_handlers (fst w) = fold change order (se_handlers (fst w0))"
    "mset order = applied cs" "\<And>t st. (t, Collected st) \<in> set cs \<Longrightarrow> lists_prefix (se_handlers (fst w0)) order st"
    "cp_persistent (sprops (fst w0)) \<Longrightarrow> \<exists>t. (t, Ended None) \<in> set cs \<Longrightarrow>
       \<exists>st. lists_prefix (se_handlers (fst w0)) order st \<and> (\<forall>en. P en \<longrightarrow> store_LoadState en w = Inr (Some st))"
    using change(3) by (auto simp: subs_inv_def Let_def)
  have nm: "names_ok (fst w)" "list_all task_ok (map fst cs)" using change(3) by (auto simp: subs_inv_def Let_def)
  then have "task_ok t" using change(1,2) by (metis fst_conv length_map list_all_length nth_map)
  with nm change(1,2) have nm': "names_ok (fst ?w')" "list_all task_ok (map fst (cs[i := ?c]))"
    by (simp_all only: names_change on_session_sel same_tasks)
  have b: "same_backend ?w' w" by (simp add: same_backend_def)
  have w: "works cl P ?w'" by (rule works_same [OF inv(1) b]) simp
  have pers: "cp_persistent (sprops (fst w)) = cp_persistent (sprops (fst w0))"
    using inv(2) by (simp add: keeps_session_def sprops_def)
  have "applied (cs[i := ?c]) = applied cs + {#t#}" using change(1,2) by (simp add: applied_new)
  moreover have "lists_prefix (se_handlers (fst w0)) (order @ [t]) st" if "(u, Collected st) \<in> set (cs[i := ?c])" for u st
    using update_in [OF that] inv(5) by (auto intro: lists_prefix_more split: if_splits)
  moreover have "\<exists>st. lists_prefix (se_handlers (fst w0)) (order @ [t]) st
      \<and> (\<forall>en. P en \<longrightarrow> store_LoadState en ?w' = Inr (Some st))"
    if "cp_persistent (sprops (fst w0))" and "(u, Ended None) \<in> set (cs[i := ?c])" for u
  proof -
    have "(u, Ended None) \<in> set cs" using update_in [OF that(2)] that(1) pers by auto
    with inv(6) [OF that(1)] obtain st where "lists_prefix (se_handlers (fst w0)) order st"
      "\<forall>en. P en \<longrightarrow> store_LoadState en w = Inr (Some st)" by blast
    then show ?thesis by (intro exI [of _ st]) (simp add: lists_prefix_more load_same [OF b])
  qed
  ultimately have "subs_inv cl P w0 (order @ [t]) (?w', cs[i := ?c])"
    using w inv(2-4) nm' unfolding subs_inv_def Let_def by (auto simp: keeps_session_def)
  then show ?case by blast
next
  case (collect i cs t en w)
  let ?st = "collect_state (en_now en) (fst w)"
  have inv: "works cl P w" "se_handlers (fst w) = fold change order (se_handlers (fst w0))" "mset order = applied cs"
    and nm: "names_ok (fst w)"
    using collect(4) by (auto simp: subs_inv_def Let_def)
  have "t \<in># applied cs" using collect(1,2) nth_mem [of i cs] by (force simp: applied_def)
  then have "0 < length order" using inv(3) by (cases order) auto
  then have "lists_prefix (se_handlers (fst w0)) order ?st"
    using inv(1,2) nm collect(3) collect_state_storable [of "en_now en" "fst w"]
    by (auto simp: lists_prefix_def works_def collect_state_def topics_after_def GetAllTopics_def
        intro!: exI [of _ "length order"])
  then have "subs_inv cl P w0 order (w, cs[i := (t, Collected ?st)])"
    by (intro subs_inv_quiet [OF collect(4)])
      (use collect(1,2) in \<open>auto simp: same_backend_def keeps_session_def applied_same same_tasks dest!: update_in\<close>)
  then show ?case by blast
next
  case (save i cs t st en w)
  let ?w' = "snd (store_SaveState en (Some st) w)"
  have inv: "works cl P w" "keeps_session w0 w" "se_handlers (fst w) = fold change order (se_handlers (fst w0))"
    "mset order = applied cs" "\<And>t st. (t, Collected st) \<in> set cs \<Longrightarrow> lists_prefix (se_handlers (fst w0)) order st"
    using save(4) by (auto simp: subs_inv_def Let_def)
  have nm: "names_ok (fst ?w')" "list_all task_ok (map fst (cs[i := (t, Ended None)]))"
    using save(1,2,4) names_same [of "fst ?w'" "fst w"] by (simp_all only: subs_inv_def Let_def fst_conv snd_conv
        same_tasks store_SaveState_handlers store_SaveState_obs)
  have st: "lists_prefix (se_handlers (fst w0)) order st" using inv(5) save(1,2) by (metis nth_mem)
  have "session_expiry now (fst ?w') = session_expiry now (fst w)" for now
    by (simp add: session_expiry_def sprops_def)
  then have w: "works cl P ?w'" using inv(1) save(3) by (auto simp: works_def intro: healthy_after_save)
  have load: "store_LoadState en' ?w' = Inr (Some st)" if "P en'" for en'
    using store_then_load_save [of cl en w en' st] inv(1) save(3) st that by (auto simp: works_def lists_prefix_def)
  have "applied (cs[i := (t, Ended None)]) = applied cs" using save(1,2) by (simp add: applied_same)
  moreover have "lists_prefix (se_handlers (fst w0)) order st'" if "(u, Collected st') \<in> set (cs[i := (t, Ended None)])" for u st'
    using update_in [OF that] inv(5) by auto
  ultimately have "subs_inv cl P w0 order (?w', cs[i := (t, Ended None)])"
    using w inv(2-4) nm st load unfolding subs_inv_def Let_def by (auto simp: keeps_session_def)
  then show ?case by blast
next
  case (status w cs st)
  have "subs_inv cl P w0 order (on_session (\<lambda>s. s\<lparr>se_status := st\<rparr>) w, cs)"
    by (rule subs_inv_quiet [OF status]) (simp_all add: same_backend_def keeps_session_def)
  then show ?case by blast
qed

lemma subs_inv_run:
  assumes "(sub_step P)\<^sup>*\<^sup>* (w, map (\<lambda>t. (t, Asking 0)) ts) s" and "works cl P w"
    and "names_ok (fst w)" and "list_all task_ok ts"
  shows "\<exists>order. subs_inv cl P w order s"
  using assms(1)
proof (induction rule: rtranclp_induct)
  case base
  have "subs_inv cl P w [] (w, map (\<lambda>t. (t, Asking 0)) ts)"
    using assms(2-4) by (auto simp: subs_inv_def Let_def keeps_session_def applied_def filter_map comp_def filter_empty_conv)
  then show ?case by blast
next
  case (step s s')
  then show ?case using subs_inv_step by blast
qed

text \<open>What \<open>Disconnect\<close> of a connected client leaves in the store.\<close>

lemma Disconnect_saves:
  assumes "store_healthy cl en w" and "time_ok (en_now en)" and "time_ok (session_expiry (en_now en) (fst w))"
    and "cp_persistent (sprops (fst w))" and "se_client (fst w) \<noteq> None" and "names_ok (fst w)"
  shows "\<exists>st. store_LoadState en (Disconnect en True w) = Inr (Some st)
    \<and> st_topics st = Some (map (\<lambda>t. \<lparr>ts_topic = t, ts_qos = 0\<rparr>) (GetAllTopics (se_handlers (fst w))))"
proof -
  let ?w1 = "on_session (\<lambda>s. s\<lparr>se_opts := (se_opts s)\<lparr>op_enhanced :=
                 map_option (\<lambda>e. e\<lparr>et_watching := False\<rparr>) (op_enhanced (se_opts s))\<rparr>\<rparr>) w"
  let ?st = "collect_state (en_now en) (fst ?w1)"
  let ?w2 = "on_session (record_call (CDisconnect 250)) (snd (store_SaveState en (Some ?st) ?w1))"
  have pers: "cp_persistent (sprops (fst ?w1))" using assms(4) by (simp add: sprops_def props_of_def)
  have eq: "Disconnect en True w = session_event EventSessionDisconnected NoData (en_now en)
      (setState (en_now en) stateClosed ?w2)"
    using assms(5) pers by (simp add: Disconnect_def Let_def save_if_persistent_def saveState_def)
  have b1: "same_backend ?w1 w" by (simp add: same_backend_def)
  have "session_expiry (en_now en) (fst ?w1) = session_expiry (en_now en) (fst w)"
    by (simp add: session_expiry_def sprops_def props_of_def)
  moreover have "names_ok (fst ?w1)"
    using assms(6) by (simp add: names_ok_def GetSubscribedTopics_def)
  ultimately have js: "json_storable ?st" using assms(2,3) by (intro collect_state_storable) simp_all
  have "store_healthy cl en ?w1" using assms(1) by (simp add: healthy_same [OF b1])
  note load = conjunct2 [OF store_then_load_save [OF this this js]]
  have "same_backend (Disconnect en True w) (snd (store_SaveState en (Some ?st) ?w1))"
    unfolding eq by (cases "snd (store_SaveState en (Some ?st) ?w1)")
      (simp add: same_backend_def session_event_def setState_def Let_def emit_hub_def record_call_def on_session_def)
  from load_same [OF this, of en] load have "store_LoadState en (Disconnect en True w) = Inr (Some ?st)" by simp
  then show ?thesis by (simp add: collect_state_def GetAllTopics_def)
qed

subsection \<open>Properties\<close>

text \<open>
  C20. However calls of \<open>Subscribe\<close> and \<open>Unsubscribe\<close> on one session interleave, in the end the
  registry is the result of exactly the calls that returned no error, one after the other in some
  order. What a persistent session has stored by then lists the topics after the first few of them,
  at least one, but not always after all. A later \<open>Disconnect\<close> of the connected client stores the
  complete list. (The names involved are UTF-8, as JSON stores nothing else.)
\<close>

theorem concurrent_subscriptions:
  assumes "(sub_step P)\<^sup>*\<^sup>* (w, map (\<lambda>t. (t, Asking 0)) ts) (w', cs)"
    and "list_all (\<lambda>c. \<exists>r. snd c = Ended r) cs" and "works cl P w" and "P en"
    and "names_ok (fst w)" and "list_all task_ok ts"
  shows "\<exists>order. mset order = mset (map fst (filter (\<lambda>c. snd c = Ended None) cs))
    \<and> se_handlers (fst w') = fold change order (se_handlers (fst w))
    \<and> (cp_persistent (sprops (fst w)) \<and> order \<noteq> [] \<longrightarrow>
         (\<exists>k st. 0 < k \<and> k \<le> length order \<and> store_LoadState en w' = Inr (Some st)
            \<and> st_topics st = Some (topics_after (take k order) (se_handlers (fst w)))))
    \<and> (cp_persistent (sprops (fst w)) \<and> se_client (fst w) \<noteq> None \<longrightarrow>
         (\<exists>st. store_LoadState en (Disconnect en True w') = Inr (Some st)
            \<and> st_topics st = Some (topics_after order (se_handlers (fst w)))))"
proof -
  obtain order where inv: "subs_inv cl P w order (w', cs)" using subs_inv_run [OF assms(1,3,5,6)] by blast
  then have w': "works cl P w'" "keeps_session w w'" "se_handlers (fst w') = fold change order (se_handlers (fst w))"
    and m: "mset order = applied cs" and nm: "names_ok (fst w')"
    and stored: "cp_persistent (sprops (fst w)) \<Longrightarrow> \<exists>t. (t, Ended None) \<in> set cs \<Longrightarrow>
       \<exists>st. lists_prefix (se_handlers (fst w)) order st \<and> (\<forall>en. P en \<longrightarrow> store_LoadState en w' = Inr (Some st))"
    by (auto simp: subs_inv_def Let_def)
  have "filter (\<lambda>c. changed_by (snd c)) cs = filter (\<lambda>c. snd c = Ended None) cs"
    using assms(2) by (intro filter_cong) (auto simp: list_all_iff)
  with m have order: "mset order = mset (map fst (filter (\<lambda>c. snd c = Ended None) cs))"
    by (simp add: applied_def)
  have "\<exists>t. (t, Ended None) \<in> set cs" if "order \<noteq> []"
  proof -
    from that order have "filter (\<lambda>c. snd c = Ended None) cs \<noteq> []" by (metis list.simps(8) mset_zero_iff)
    then show ?thesis by (fastforce simp: filter_empty_conv)
  qed
  then have "\<exists>k st. 0 < k \<and> k \<le> length order \<and> store_LoadState en w' = Inr (Some st)
      \<and> st_topics st = Some (topics_after (take k order) (se_handlers (fst w)))"
    if "cp_persistent (sprops (fst w))" "order \<noteq> []"
    using stored that assms(4) by (fastforce simp: lists_prefix_def)
  moreover have "\<exists>st. store_LoadState en (Disconnect en True w') = Inr (Some st)
      \<and> st_topics st = Some (topics_after order (se_handlers (fst w)))"
    if "cp_persistent (sprops (fst w))" "se_client (fst w) \<noteq> None"
    using Disconnect_saves [of cl en w'] w' nm assms(4) that
    by (simp add: works_def keeps_session_def sprops_def topics_after_def)
  ultimately show ?thesis using order w'(3) by blast
qed

text \<open>
  C21. A subscription can be lost by a restart although \<open>Subscribe\<close> returned no error: of two calls for
  different topics on a persistent session, the one that collects first may write last. Both succeed
  and both topics are subscribed, but a session that restores the state subscribes to the first
  topic only.
\<close>

theorem subscription_lost_on_restart:
  assumes "works cl P w" and "P en" and "IsConnected (fst w)" and "cp_persistent (sprops (fst w))"
    and "\<not> IsSubscribed (fst w) b" and "a \<noteq> b"
    and "en_now en \<le> session_expiry (en_now en) (fst w)" and "names_ok (fst w)" and "valid_utf8 a"
  shows "\<exists>w'. (sub_step P)\<^sup>*\<^sup>* (w, [(AddTopic a f qa, Asking 0), (AddTopic b g qb, Asking 0)])
        (w', [(AddTopic a f qa, Ended None), (AddTopic b g qb, Ended None)])
    \<and> IsSubscribed (fst w') a \<and> IsSubscribed (fst w') b
    \<and> (\<forall>v at. successor v w' \<and> \<not> IsSubscribed (fst v) b \<and> (\<forall>j. at_error (at j 0) = None) \<longrightarrow>
         fst (restoreState en at v) = Returned None \<and> IsSubscribed (fst (snd (restoreState en at v))) a
         \<and> \<not> IsSubscribed (fst (snd (restoreState en at v))) b)"
proof -
  let ?a = "AddTopic a f qa" and ?b = "AddTopic b g qb"
  let ?add = "\<lambda>t. on_session (\<lambda>s. s\<lparr>se_handlers := change t (se_handlers s)\<rparr>)"
  define w1 where "w1 = on_session (record_call (request ?a)) w"
  define w2 where "w2 = ?add ?a w1"
  define st where "st = collect_state (en_now en) (fst w2)"
  define v3 where "v3 = ?add ?b (on_session (record_call (request ?b)) w2)"
  define w3 where "w3 = save_if_persistent en v3"
  define w4 where "w4 = snd (store_SaveState en (Some st) w3)"
  note world = w1_def w2_def v3_def w3_def w4_def
  have conn2: "IsConnected (fst w2)" using assms(3) by (simp add: world IsConnected_def record_call_def)
  have r1: "sub_step P (w, [(?a, Asking 0), (?b, Asking 0)])
      (w1, [(?a, Granted), (?b, Asking 0)])"
    using grant [of 0 "[(?a, Asking 0), (?b, Asking 0)]" ?a 0 w P] assms(3) by (simp add: w1_def)
  have r2: "sub_step P (w1, [(?a, Granted), (?b, Asking 0)])
      (w2, [(?a, Changed), (?b, Asking 0)])"
    using change [of 0 "[(?a, Granted), (?b, Asking 0)]" ?a P w1] assms(4)
    by (simp add: w1_def w2_def record_call_def sprops_def)
  have r3: "sub_step P (w2, [(?a, Changed), (?b, Asking 0)]) (w2, [(?a, Collected st), (?b, Asking 0)])"
    using collect [of 0 "[(?a, Changed), (?b, Asking 0)]" ?a P en w2] assms(2) by (simp add: st_def)
  have r4: "(sub_step P)\<^sup>*\<^sup>* (w2, [(?a, Collected st), (?b, Asking 0)])
      (w3, [(?a, Collected st), (?b, Ended None)])"
    using sub_step_run [of 1 "[(?a, Collected st), (?b, Asking 0)]" ?b 0 w2 P en] conn2 assms(2) by (simp add: w3_def v3_def)
  have r5: "sub_step P (w3, [(?a, Collected st), (?b, Ended None)]) (w4, [(?a, Ended None), (?b, Ended None)])"
    using save [of 0 "[(?a, Collected st), (?b, Ended None)]" ?a st P en w3] assms(2) by (simp add: w4_def)
  note into = converse_rtranclp_into_rtranclp [of "sub_step P"]
  have run: "(sub_step P)\<^sup>*\<^sup>* (w, [(?a, Asking 0), (?b, Asking 0)]) (w4, [(?a, Ended None), (?b, Ended None)])"
    by (rule into [OF r1 into [OF r2 into [OF r3 rtranclp.rtrancl_into_rtrancl [OF r4 r5]]]])
  have h4: "se_handlers (fst w4) = AddMessageHandler b g (AddMessageHandler a f (se_handlers (fst w)))"
    by (simp add: world save_if_persistent_def saveState_def record_call_def)
  have subs: "IsSubscribed (fst w4) a" "IsSubscribed (fst w4) b"
    by (simp_all add: IsSubscribed_def h4 AddMessageHandler_def)
  have ex: "session_expiry now (fst w2) = session_expiry now (fst w)" for now
    by (simp add: w1_def w2_def session_expiry_def sprops_def record_call_def)
  have nm2: "names_ok (fst w2)"
    using names_change [of "fst w1" ?a] names_same [of "fst w1" "fst w"] assms(8,9)
    by (simp add: w1_def w2_def record_call_def)
  have js: "json_storable st"
    unfolding st_def using assms(1,2) nm2 by (intro collect_state_storable) (auto simp: works_def ex)
  have "works cl P v3"
    using assms(1) by (rule works_same) (simp_all add: world same_backend_def record_call_def)
  then have "store_healthy cl en w3"
    using assms(2) by (auto simp: w3_def works_def save_if_persistent_def saveState_def intro: healthy_after_save)
  then have load: "store_LoadState en w4 = Inr (Some st)" unfolding w4_def using store_then_load_save js by blast
  have lost: "fst (restoreState en at v) = Returned None \<and> IsSubscribed (fst (snd (restoreState en at v))) a
         \<and> \<not> IsSubscribed (fst (snd (restoreState en at v))) b"
    if v: "successor v w4" "\<not> IsSubscribed (fst v) b" "\<forall>j. at_error (at j 0) = None" for v at
  proof -
    let ?v = "on_session (\<lambda>s. s\<lparr>se_sequence := se_sequence (fst w2)\<rparr>) v"
    let ?ts = "map (\<lambda>t. \<lparr>ts_topic = t, ts_qos = 0\<rparr>) (GetAllTopics (se_handlers (fst w2)))"
    have "store_LoadState en v = Inr (Some st)" using v(1) load load_same unfolding successor_def by metis
    moreover have "IsConnected (fst ?v)" using v(1) by (simp add: successor_def IsConnected_def)
    moreover have "st_expiry st = session_expiry (en_now en) (fst w)" by (simp add: st_def collect_state_def ex)
    moreover have "st_sequence st = se_sequence (fst w2)" "st_topics st = Some ?ts"
      by (simp_all add: st_def collect_state_def GetAllTopics_def)
    moreover have "\<not> has_nil_message st" by (simp add: st_def)
    ultimately have eq: "restoreState en at v = (Returned None, resubscribe 0 at ?ts ?v)"
      using assms(7) by (simp add: restoreState_def Let_def)
    from resubscribe_all [of ?v at 0 ?ts] v(1,3)
    have h: "se_handlers (fst (resubscribe 0 at ?ts ?v))
        = restored_registry (GetAllTopics (se_handlers (fst w2))) (se_handlers (fst v))"
      by (simp add: comp_def successor_def IsConnected_def)
    have "IsSubscribed (fst w2) t \<longleftrightarrow> t = a \<or> IsSubscribed (fst w) t" for t
      by (simp add: w1_def w2_def record_call_def IsSubscribed_def AddMessageHandler_def)
    with assms(5,6) have "a \<in> set (GetAllTopics (se_handlers (fst w2)))" "b \<notin> set (GetAllTopics (se_handlers (fst w2)))"
      using IsSubscribed_topics [of "fst w2"] by (simp_all add: GetSubscribedTopics_def)
    then show ?thesis
      using v(2) restored_lookup [of _ "se_handlers (fst v)"]
      by (simp add: eq h IsSubscribed_def GetMessageHandler_def)
  qed
  from run subs lost show ?thesis by blast
qed

text \<open>A connected persistent session without subscriptions.\<close>

definition idle_session :: session where
  "idle_session = busy_session\<lparr>se_handlers := newHandlerRegistry\<rparr>"

lemma idle_facts:
  "works cl (\<lambda>en. en = sample_env) (idle_session, sample_hub)" "IsConnected idle_session"
  "cp_persistent (sprops idle_session)" "\<not> IsSubscribed idle_session t"
  "en_now sample_env \<le> session_expiry (en_now sample_env) idle_session" "names_ok idle_session"
proof -
  have "session_expiry now idle_session = session_expiry now busy_session" for now
    by (simp add: idle_session_def session_expiry_def sprops_def)
  moreover have "store_healthy cl sample_env (idle_session, sample_hub)"
    using busy_ok(1) [of cl] by (auto simp: store_healthy_def idle_session_def split: sstore.splits)
  ultimately show "works cl (\<lambda>en. en = sample_env) (idle_session, sample_hub)"
    and "en_now sample_env \<le> session_expiry (en_now sample_env) idle_session"
    using busy_ok(2,3,4) by (simp_all add: works_def)
  show "IsConnected idle_session" "cp_persistent (sprops idle_session)" "\<not> IsSubscribed idle_session t"
    using busy_ok(5)
    by (simp_all add: idle_session_def IsConnected_def busy_session_def sprops_def IsSubscribed_def
        newHandlerRegistry_def)
  show "names_ok idle_session"
    using busy_names by (simp add: names_ok_def idle_session_def GetSubscribedTopics_def GetAllTopics_def
        newHandlerRegistry_def)
qed

text \<open>The name of a session stays, and so does the place of a file store.\<close>

lemma store_SaveState_place:
  "se_store (fst w) = FilStore d \<Longrightarrow> se_store (fst (snd (store_SaveState en st w))) = FilStore d"
  by (cases w) (simp add: store_SaveState_def split: prod.split)

lemma sub_step_disk:
  "sub_step P s s' \<Longrightarrow> se_name (fst (fst s')) = se_name (fst (fst s))
     \<and> (se_store (fst (fst s)) = FilStore d \<longrightarrow> se_store (fst (fst s')) = FilStore d)"
  by (induction rule: sub_step.induct)
    (simp_all add: session_error_def record_call_def store_SaveState_place)

lemma sub_run_disk:
  "(sub_step P)\<^sup>*\<^sup>* s s' \<Longrightarrow> se_name (fst (fst s')) = se_name (fst (fst s))
     \<and> (se_store (fst (fst s)) = FilStore d \<longrightarrow> se_store (fst (fst s')) = FilStore d)"
proof (induction rule: rtranclp_induct)
  case (step s' s'')
  with sub_step_disk [of P s' s'' d] show ?case by simp
qed simp

theorem subscription_lost_on_restart_witness:
  "\<exists>w' :: (mock_redis, unit) world. IsSubscribed (fst w') ''b'' \<and> successor (sample_session\<lparr>se_status := stateConnected\<rparr>, snd w') w'
     \<and> \<not> IsSubscribed (fst (snd (restoreState sample_env (\<lambda>j. answers [])
            (sample_session\<lparr>se_status := stateConnected\<rparr>, snd w')))) ''b''"
proof -
  let ?P = "\<lambda>en :: mock_redis env. en = sample_env"
  let ?v = "\<lambda>w'. (sample_session\<lparr>se_status := stateConnected\<rparr>, snd w')"
  obtain w' where run: "(sub_step ?P)\<^sup>*\<^sup>* ((idle_session, sample_hub), map (\<lambda>t. (t, Asking 0)) [AddTopic ''a'' (UserHandler 1) 0, AddTopic ''b'' (UserHandler 2) 0])
        (w', [(AddTopic ''a'' (UserHandler 1) 0, Ended None), (AddTopic ''b'' (UserHandler 2) 0, Ended None)])"
    and sub: "IsSubscribed (fst w') ''b''"
    and lost: "\<forall>v at. successor v w' \<and> \<not> IsSubscribed (fst v) ''b'' \<and> (\<forall>j. at_error (at j 0) = None) \<longrightarrow>
         \<not> IsSubscribed (fst (snd (restoreState sample_env at v))) ''b''"
    using subscription_lost_on_restart [of mock_client ?P "(idle_session, sample_hub)" sample_env "''b''" "''a''"
        "UserHandler 1" 0 "UserHandler 2" 0] idle_facts by auto
  have keep: "se_name (fst w') = ''s'' \<and> se_store (fst w') = FilStore ''d''"
    using sub_run_disk [OF run, of "''d''"] by (simp add: idle_session_def busy_session_def)
  then have "successor (?v w') w'" by (simp add: successor_def same_backend_def IsConnected_def)
  moreover have "\<not> IsSubscribed (fst (?v w')) ''b''" by (simp add: IsSubscribed_def newHandlerRegistry_def)
  ultimately show ?thesis
    using sub lost by (intro exI [of _ w']) (simp add: answers_def)
qed

theorem concurrent_subscriptions_witness:
  "\<exists>(w' :: (mock_redis, unit) world) order st. mset order = {#AddTopic ''a'' (UserHandler 1) 0, AddTopic ''b'' (UserHandler 2) 0#}
     \<and> se_handlers (fst w') = fold change order newHandlerRegistry
     \<and> store_LoadState sample_env w' = Inr (Some st)"
proof -
  let ?P = "\<lambda>en :: mock_redis env. en = sample_env"
  let ?ts = "[AddTopic ''a'' (UserHandler 1) 0, AddTopic ''b'' (UserHandler 2) 0]"
  let ?a = "AddTopic ''a'' (UserHandler 1) 0" and ?b = "AddTopic ''b'' (UserHandler 2) 0"
  let ?add = "\<lambda>t w. on_session (\<lambda>s. s\<lparr>se_handlers := change t (se_handlers s)\<rparr>) (on_session (record_call (request t)) w)"
  define w1 where "w1 = save_if_persistent sample_env (?add ?a (idle_session, sample_hub))"
  define w' where "w' = save_if_persistent sample_env (?add ?b w1)"
  have "IsConnected (fst w1)"
    using idle_facts(2) by (simp add: w1_def IsConnected_def save_if_persistent_def saveState_def record_call_def)
  then have "(sub_step ?P)\<^sup>*\<^sup>* (w1, [(?a, Ended None), (?b, Asking 0)]) (w', [(?a, Ended None), (?b, Ended None)])"
    using sub_step_run [of 1 "[(?a, Ended None), (?b, Asking 0)]" ?b 0 w1 ?P sample_env] by (simp add: w'_def)
  moreover have "(sub_step ?P)\<^sup>*\<^sup>* ((idle_session, sample_hub), [(?a, Asking 0), (?b, Asking 0)])
      (w1, [(?a, Ended None), (?b, Asking 0)])"
    using sub_step_run [of 0 "[(?a, Asking 0), (?b, Asking 0)]" ?a 0 "(idle_session, sample_hub)" ?P sample_env] idle_facts(2)
    by (simp add: w1_def)
  ultimately have run: "(sub_step ?P)\<^sup>*\<^sup>* ((idle_session, sample_hub), map (\<lambda>t. (t, Asking 0)) ?ts)
      (w', [(?a, Ended None), (?b, Ended None)])"
    by (simp add: rtranclp_trans)
  have h: "se_handlers idle_session = newHandlerRegistry" by (simp add: idle_session_def)
  obtain order where o: "mset order = {#?a, ?b#}" "se_handlers (fst w') = fold change order (se_handlers idle_session)"
    and st: "order \<noteq> [] \<Longrightarrow> \<exists>k st. 0 < k \<and> k \<le> length order \<and> store_LoadState sample_env w' = Inr (Some st)
        \<and> st_topics st = Some (topics_after (take k order) (se_handlers idle_session))"
    using concurrent_subscriptions [OF run _ idle_facts(1), of sample_env] idle_facts(3,6) by auto
  have "order \<noteq> []" using o(1) by auto
  from st [OF this] o h show ?thesis by (intro exI [of _ w'] exI [of _ order]) auto
qed

end
