(* ===== verification/Chains.thy ===== *)
theory Chains
  imports ForwarderRuns
begin

text \<open>
  Several forwarders on one manager (\<open>forwarder.go\<close> with \<open>manager.go\<close> and \<open>session.go\<close>): what one
  forwarder publishes arrives, through the broker, at the handlers of others, or at its own. The
  steps are those of the workers and of the handlers; nobody starts, stops or publishes anything else.
  A broker is a parameter: it delivers what is published through a session to each subscription with
  a matching filter of each session \<open>linked\<close> to it (connected to the same broker), or loses it; it does
  not repeat messages.
\<close>

subsection \<open>State and steps\<close>

text \<open>The handlers of each session.\<close>

definition subscriptions :: "'c manager \<Rightarrow> (string, handler_registry) gomap" where
  "subscriptions m = map (\<lambda>(n, s). (n, se_handlers s)) (mg_sessions m)"

text \<open>The forwarders, each with the session whose client calls its handler, that a message reaches.\<close>

definition forward_handlers ::
  "(string \<Rightarrow> string \<Rightarrow> bool) \<Rightarrow> string \<Rightarrow> handler_registry \<Rightarrow> string list" where
  "forward_handlers matches tpc h =
     concat (map (\<lambda>(flt, f). case f of ForwardHandler fn \<Rightarrow> if matches flt tpc then [fn] else [] | _ \<Rightarrow> [])
       (hr_handlers h))"

definition receivers ::
  "(string \<Rightarrow> string \<Rightarrow> bool) \<Rightarrow> (string \<Rightarrow> string \<Rightarrow> bool) \<Rightarrow> (string, handler_registry) gomap \<Rightarrow>
     string \<Rightarrow> string \<Rightarrow> (string \<times> string) list" where
  "receivers linked matches subs src tpc =
     concat (map (\<lambda>(n, h). if linked src n then map (Pair n) (forward_handlers matches tpc h) else []) subs)"

text \<open>
  The manager, the forwarders by name, the messages in the hands of their workers, the messages on
  their way to a handler (session, forwarder, topic, payload), and how many were lost or refused.
\<close>

record 'c network =
  nt_manager :: "'c manager"
  nt_fwds :: "(string, forwarder) gomap"
  nt_hands :: "(string \<times> pooled) list"
  nt_air :: "(string \<times> string \<times> string \<times> payload) list"
  nt_lost :: nat

text \<open>Others may do anything while a worker sleeps between its attempts, but change no subscription.\<close>

definition same_subscriptions :: "handler_registry \<Rightarrow> (string, handler_registry) gomap \<Rightarrow> 'c mworld \<Rightarrow> bool" where
  "same_subscriptions h subs w \<longleftrightarrow> se_handlers (fst w) = h \<and> subscriptions (snd w) = subs"

definition undisturbed :: "(nat \<Rightarrow> ('c, 'c mworld) attempt) \<Rightarrow> bool" where
  "undisturbed at \<longleftrightarrow> (\<forall>h subs. keeps (same_subscriptions h subs) at)"

definition dispatched ::
  "(string \<Rightarrow> string \<Rightarrow> bool) \<Rightarrow> (string \<Rightarrow> string \<Rightarrow> bool) \<Rightarrow> forwarder \<Rightarrow> pooled \<Rightarrow> 'c manager \<Rightarrow>
     (string \<times> string \<times> string \<times> payload) list" where
  "dispatched linked matches f msg m =
     (let tpc = target_topic (fw_config f) (pm_topic msg)
      in map (\<lambda>(n, fn). (n, fn, tpc, pm_payload msg))
           (receivers linked matches (subscriptions m) (fc_target (fw_config f)) tpc))"

inductive net_step ::
  "(string \<Rightarrow> string \<Rightarrow> bool) \<Rightarrow> (string \<Rightarrow> string \<Rightarrow> bool) \<Rightarrow> 'c network \<Rightarrow> 'c network \<Rightarrow> bool"
  for linked matches where
  arrive: "nt_air r = xs @ (n, fn, tpc, p) # ys \<Longrightarrow> GetSession (nt_manager r) n = Inr s \<Longrightarrow>
    mget (nt_fwds r) fn = Some f \<Longrightarrow>
    net_step linked matches r
      (r\<lparr>nt_manager := snd (on_named n s (\<lambda>w. ((), on_session (deliver now False p) w)) (nt_manager r)),
         nt_fwds := mput fn (handleMessage now tpc p f) (nt_fwds r), nt_air := xs @ ys,
         nt_lost := nt_lost r + (if fw_stopped f \<or> \<not> has_room f then 1 else 0)\<rparr>)"
| vanish: "nt_air r = xs @ a # ys \<Longrightarrow>
    net_step linked matches r (r\<lparr>nt_air := xs @ ys, nt_lost := nt_lost r + 1\<rparr>)"
| pick: "mget (nt_fwds r) fn = Some f \<Longrightarrow> fw_running f \<Longrightarrow> fw_queue f = msg # q \<Longrightarrow>
    mget (nt_hands r) fn = None \<Longrightarrow>
    net_step linked matches r
      (r\<lparr>nt_fwds := mput fn (f\<lparr>fw_queue := q\<rparr>) (nt_fwds r), nt_hands := (fn, msg) # nt_hands r\<rparr>)"
| pass: "nt_hands r = us @ (fn, msg) # vs \<Longrightarrow> mget (nt_fwds r) fn = Some f \<Longrightarrow> undisturbed at \<Longrightarrow>
    forwardMessage at now msg f (nt_manager r) = (err, f', m') \<Longrightarrow>
    net_step linked matches r
      (r\<lparr>nt_manager := m', nt_fwds := mput fn f' (nt_fwds r), nt_hands := us @ vs,
         nt_air := nt_air r @ (if err = None then dispatched linked matches f msg m' else []),
         nt_lost := nt_lost r + (if err = None then 0 else 1)\<rparr>)"

subsection \<open>What the steps leave alone\<close>

lemma mput_splits:
  "mget m k = Some v \<Longrightarrow> \<exists>xs ys. m = xs @ (k, v) # ys \<and> (\<forall>u. mput k u m = xs @ (k, u) # ys)"
proof (induction m)
  case (Cons e m)
  show ?case
  proof (cases "fst e = k")
    case True
    with Cons.prems show ?thesis by (intro exI [of _ "[]"] exI [of _ m]) (cases e; simp)
  next
    case False
    with Cons obtain xs ys where "m = xs @ (k, v) # ys" "\<forall>u. mput k u m = xs @ (k, u) # ys"
      by (cases e) (auto split: if_splits)
    with False show ?thesis by (intro exI [of _ "e # xs"] exI [of _ ys]) (cases e; auto)
  qed
qed simp

lemma map_mput_same:
  assumes "mget m k = Some v" and "g u = g v"
  shows "map (\<lambda>(k, v). (k, g v)) (mput k u m) = map (\<lambda>(k, v). (k, g v)) m"
proof -
  from mput_splits [OF assms(1)] obtain xs ys where "m = xs @ (k, v) # ys" "mput k u m = xs @ (k, u) # ys" by blast
  then show ?thesis by (simp add: assms(2))
qed

lemma subscriptions_put_back:
  assumes "mget (subscriptions m) n = Some (se_handlers s)"
  shows "subscriptions (put_back n s m) = subscriptions m"
proof -
  from assms obtain s0 where "mget (mg_sessions m) n = Some s0" "se_handlers s0 = se_handlers s"
    by (auto simp: subscriptions_def mget_map_values)
  then show ?thesis using map_mput_same [of "mg_sessions m" n s0 se_handlers s]
    by (simp add: put_back_def subscriptions_def)
qed

lemma Publish_subscriptions:
  "undisturbed at \<Longrightarrow> same_subscriptions h subs w \<Longrightarrow> same_subscriptions h subs (snd (Publish_loop k i at tpc p qos e w))"
proof (induction k i at tpc p qos e w rule: Publish_loop.induct)
  case (1 i at tpc p qos e w)
  then show ?case by simp
next
  case (2 k i at tpc p qos e w)
  have gap: "same_subscriptions h subs v \<Longrightarrow> same_subscriptions h subs (at_gap (at (Suc i)) v)" for v
    using keepsD [of "same_subscriptions h subs" at v "Suc i"] "2.prems"(1) by (simp add: undisturbed_def)
  show ?case using "2.IH" "2.prems" gap
    by (auto simp: Let_def same_subscriptions_def record_call_def session_error_def split: option.split)
qed

lemma PublishTo_subscriptions:
  assumes "undisturbed at"
  shows "subscriptions (snd (PublishTo at now n tpc p qos m)) = subscriptions m"
proof (cases "GetSession m n")
  case (Inr s)
  then have s: "mget (subscriptions m) n = Some (se_handlers s)"
    by (simp add: GetSession_Inr subscriptions_def mget_map_values)
  obtain e s' m' where pub: "Publish at tpc p qos (s, m) = (e, (s', m'))" by (metis prod.exhaust)
  have "same_subscriptions (se_handlers s) (subscriptions m) (snd (Publish at tpc p qos (s, m)))"
    unfolding Publish_def by (rule Publish_subscriptions [OF assms]) (simp add: same_subscriptions_def)
  with pub have "se_handlers s' = se_handlers s" "subscriptions m' = subscriptions m"
    by (simp_all add: same_subscriptions_def)
  with s have "subscriptions (put_back n s' m') = subscriptions m"
    by (metis subscriptions_put_back)
  with Inr pub show ?thesis
    by (auto simp: PublishTo_def on_named_def hub_RegisterError_def Let_def subscriptions_def split: option.split)
qed (simp add: PublishTo_def)

lemma forwardMessage_subscriptions:
  "undisturbed at \<Longrightarrow> forwardMessage at now msg f m = (e, f', m') \<Longrightarrow> subscriptions m' = subscriptions m"
  using PublishTo_subscriptions [of at now] unfolding forwardMessage_def
  by (force split: prod.splits option.splits dest: arg_cong [of _ _ snd])

lemma deliver_subscriptions:
  assumes "GetSession m n = Inr s"
  shows "subscriptions (snd (on_named n s (\<lambda>w. ((), on_session (deliver now b p) w)) m)) = subscriptions m"
proof -
  have "mget (subscriptions m) n = Some (se_handlers (deliver now b p s))"
    using assms by (simp add: GetSession_Inr subscriptions_def mget_map_values deliver_def safelyCallHandler_def
        session_error_def Let_def)
  then show ?thesis by (simp add: on_named_def on_session_def subscriptions_put_back)
qed

text \<open>The subscriptions and the configurations, which decide where a message goes.\<close>

definition wiring ::
  "'c network \<Rightarrow> (string, handler_registry) gomap \<times> (string, forwarder_config \<times> bool \<times> bool) gomap" where
  "wiring r = (subscriptions (nt_manager r),
     map (\<lambda>(fn, f). (fn, fw_config f, fw_running f, fw_stopped f)) (nt_fwds r))"

lemma net_step_wiring:
  assumes "net_step linked matches r r'"
  shows "wiring r' = wiring r"
  using assms
proof (induction rule: net_step.induct)
  case (arrive r xs n fn tpc p ys s f now)
  then show ?case
    by (simp add: wiring_def deliver_subscriptions)
      (rule map_mput_same [where g = "\<lambda>f. (fw_config f, fw_running f, fw_stopped f)", OF arrive(3)], simp_all add: handleMessage_def refuse_message_def queue_message_def accept_message_def)
next
  case (vanish r xs a ys)
  then show ?case by (simp add: wiring_def)
next
  case (pick r fn f msg q)
  then show ?case by (simp add: wiring_def) (rule map_mput_same [where g = "\<lambda>f. (fw_config f, fw_running f, fw_stopped f)", OF pick(1)], simp_all)
next
  case (pass r us fn msg vs f at now err f' m')
  then show ?case
    by (simp add: wiring_def forwardMessage_subscriptions)
      (rule map_mput_same [where g = "\<lambda>f. (fw_config f, fw_running f, fw_stopped f)", OF pass(2)], use forwardMessage_forwarder [OF pass(4)] in simp_all)
qed

subsection \<open>Where the messages are\<close>

text \<open>
  The place of a message: how far it has to go until its worker publishes it (2 on its way, 1 in the
  channel, 0 with the worker), its forwarder, its topic.
\<close>

type_synonym place = "nat \<times> string \<times> string"

definition places :: "'c network \<Rightarrow> place multiset" where
  "places r = mset (map (\<lambda>(n, fn, tpc, p). (2, fn, tpc)) (nt_air r))
     + mset (concat (map (\<lambda>(fn, f). map (\<lambda>msg. (1, fn, pm_topic msg)) (fw_queue f)) (nt_fwds r)))
     + mset (map (\<lambda>(fn, msg). (0, fn, pm_topic msg)) (nt_hands r))"

text \<open>Where a published message goes.\<close>

definition onward ::
  "(string \<Rightarrow> string \<Rightarrow> bool) \<Rightarrow> (string \<Rightarrow> string \<Rightarrow> bool) \<Rightarrow> 'c network \<Rightarrow> forwarder \<Rightarrow> string \<Rightarrow> place list" where
  "onward linked matches r f tpc =
     map (\<lambda>(n, fn). (2, fn, target_topic (fw_config f) tpc))
       (receivers linked matches (subscriptions (nt_manager r)) (fc_target (fw_config f)) (target_topic (fw_config f) tpc))"

text \<open>Each step moves one message, or makes it the copies that its receivers get, or loses it.\<close>

inductive moves_to ::
  "(string \<Rightarrow> string \<Rightarrow> bool) \<Rightarrow> (string \<Rightarrow> string \<Rightarrow> bool) \<Rightarrow> 'c network \<Rightarrow> place \<Rightarrow> place list \<Rightarrow> bool"
  for linked matches r where
  "moves_to linked matches r (Suc k, fn, tpc) [(k, fn, tpc)]"
| "mget (nt_fwds r) fn = Some f \<Longrightarrow>
     moves_to linked matches r (0, fn, tpc) (onward linked matches r f tpc)"

lemma queues_mput:
  assumes "mget m k = Some f"
  shows "\<exists>M. mset (concat (map (\<lambda>(fn, f). map (\<lambda>msg. (1 :: nat, fn, pm_topic msg)) (fw_queue f)) m))
           = mset (map (\<lambda>msg. (1, k, pm_topic msg)) (fw_queue f)) + M
    \<and> (\<forall>f'. mset (concat (map (\<lambda>(fn, f). map (\<lambda>msg. (1, fn, pm_topic msg)) (fw_queue f)) (mput k f' m)))
           = mset (map (\<lambda>msg. (1, k, pm_topic msg)) (fw_queue f')) + M)"
proof -
  from mput_splits [OF assms] obtain xs ys where "m = xs @ (k, f) # ys" "\<forall>u. mput k u m = xs @ (k, u) # ys" by blast
  then show ?thesis
    by (intro exI [of _ "mset (concat (map (\<lambda>(fn, f). map (\<lambda>msg. (1, fn, pm_topic msg)) (fw_queue f)) (xs @ ys)))"])
      simp
qed

lemma net_step_places:
  assumes "net_step linked matches r r'"
  shows "\<exists>x M. places r = add_mset x M \<and>
     (places r' = M \<and> nt_lost r' = Suc (nt_lost r)
      \<or> (\<exists>N. moves_to linked matches r x N \<and> places r' = mset N + M \<and> nt_lost r' = nt_lost r))"
  using assms
proof (induction rule: net_step.induct)
  case (arrive r xs n fn tpc p ys s f now)
  from queues_mput [OF arrive(3)] obtain M where
    "mset (concat (map (\<lambda>(fn, f). map (\<lambda>msg. (1 :: nat, fn, pm_topic msg)) (fw_queue f)) (nt_fwds r)))
       = mset (map (\<lambda>msg. (1, fn, pm_topic msg)) (fw_queue f)) + M"
    "\<And>f'. mset (concat (map (\<lambda>(fn, f). map (\<lambda>msg. (1, fn, pm_topic msg)) (fw_queue f)) (mput fn f' (nt_fwds r))))
       = mset (map (\<lambda>msg. (1, fn, pm_topic msg)) (fw_queue f')) + M" by blast
  moreover have "moves_to linked matches r (2, fn, tpc) [(1, fn, tpc)]"
    using moves_to.intros(1) [of linked matches r 1 fn tpc] by (simp add: numeral_2_eq_2)
  ultimately show ?case
    by (intro exI [of _ "(2, fn, tpc)"]) (auto simp: places_def arrive(1) handleMessage_def refuse_message_def
        queue_message_def accept_message_def has_room_def pooled_copy_def intro!: exI [of _ "[(1, fn, tpc)]"])
next
  case (vanish r xs a ys)
  then show ?case by (cases a) (auto simp: places_def)
next
  case (pick r fn f msg q)
  from queues_mput [OF pick(1)] obtain M where
    "mset (concat (map (\<lambda>(fn, f). map (\<lambda>msg. (1 :: nat, fn, pm_topic msg)) (fw_queue f)) (nt_fwds r)))
       = mset (map (\<lambda>msg. (1, fn, pm_topic msg)) (fw_queue f)) + M"
    "\<And>f'. mset (concat (map (\<lambda>(fn, f). map (\<lambda>msg. (1, fn, pm_topic msg)) (fw_queue f)) (mput fn f' (nt_fwds r))))
       = mset (map (\<lambda>msg. (1, fn, pm_topic msg)) (fw_queue f')) + M" by blast
  moreover have "moves_to linked matches r (1, fn, pm_topic msg) [(0, fn, pm_topic msg)]"
    using moves_to.intros(1) [of linked matches r 0 fn "pm_topic msg"] by simp
  ultimately show ?case
    by (intro exI [of _ "(1, fn, pm_topic msg)"]) (auto simp: places_def pick(3) intro!: exI [of _ "[(0, fn, pm_topic msg)]"])
next
  case (pass r us fn msg vs f at now err f' m')
  from queues_mput [OF pass(2)] obtain M where
    "mset (concat (map (\<lambda>(fn, f). map (\<lambda>msg. (1 :: nat, fn, pm_topic msg)) (fw_queue f)) (nt_fwds r)))
       = mset (map (\<lambda>msg. (1, fn, pm_topic msg)) (fw_queue f)) + M"
    "\<And>f'. mset (concat (map (\<lambda>(fn, f). map (\<lambda>msg. (1, fn, pm_topic msg)) (fw_queue f)) (mput fn f' (nt_fwds r))))
       = mset (map (\<lambda>msg. (1, fn, pm_topic msg)) (fw_queue f')) + M" by blast
  moreover have "fw_queue f' = fw_queue f" using forwardMessage_forwarder [OF pass(4)] by simp
  moreover have "mset (map (\<lambda>(n, fn, tpc, p). (2, fn, tpc)) (dispatched linked matches f msg m'))
      = mset (onward linked matches r f (pm_topic msg))"
    by (simp add: image_mset.compositionality dispatched_def onward_def Let_def comp_def case_prod_unfold forwardMessage_subscriptions [OF pass(3,4)])
  moreover have "moves_to linked matches r (0, fn, pm_topic msg) (onward linked matches r f (pm_topic msg))"
    using pass(2) by (rule moves_to.intros(2))
  ultimately show ?case
    by (intro exI [of _ "(0, fn, pm_topic msg)"]) (auto simp: places_def pass(1))
qed

text \<open>What is published from a place goes to the same places in every state of a run.\<close>

lemma wired_same:
  assumes "wiring r' = wiring r" and "mget (nt_fwds r') fn = Some f'"
  shows "\<exists>f. mget (nt_fwds r) fn = Some f \<and> fw_config f = fw_config f' \<and> fw_running f = fw_running f'
    \<and> fw_stopped f = fw_stopped f' \<and> onward linked matches r f = onward linked matches r' f'"
proof -
  let ?g = "\<lambda>f. (fw_config f, fw_running f, fw_stopped f)"
  from assms(1) have "subscriptions (nt_manager r') = subscriptions (nt_manager r)"
    and m: "map (\<lambda>(fn, f). (fn, ?g f)) (nt_fwds r') = map (\<lambda>(fn, f). (fn, ?g f)) (nt_fwds r)"
    by (simp_all add: wiring_def)
  moreover have "map_option ?g (mget (nt_fwds r) fn) = map_option ?g (mget (nt_fwds r') fn)"
    unfolding mget_map_values [symmetric] m ..
  ultimately show ?thesis using assms(2) by (auto simp: onward_def fun_eq_iff)
qed

lemma net_run_wiring: "(net_step linked matches)\<^sup>*\<^sup>* r r' \<Longrightarrow> wiring r' = wiring r"
  by (induction rule: rtranclp_induct) (simp_all add: net_step_wiring)

subsection \<open>Chains that end\<close>

text \<open>Each hop of a message goes down in some ranking of the forwarders and topics.\<close>

definition descends ::
  "(string \<Rightarrow> string \<Rightarrow> bool) \<Rightarrow> (string \<Rightarrow> string \<Rightarrow> bool) \<Rightarrow> (string \<Rightarrow> string \<Rightarrow> nat) \<Rightarrow> 'c network \<Rightarrow> bool" where
  "descends linked matches rank r \<longleftrightarrow>
     (\<forall>fn f tpc k fn' tpc'. mget (nt_fwds r) fn = Some f \<longrightarrow> (k, fn', tpc') \<in> set (onward linked matches r f tpc) \<longrightarrow>
        rank fn' tpc' < rank fn tpc)"

lemma descends_wired: "wiring r' = wiring r \<Longrightarrow> descends linked matches rank r \<Longrightarrow> descends linked matches rank r'"
  unfolding descends_def using wired_same [of r' r _ _ linked matches] by metis

definition weights :: "(string \<Rightarrow> string \<Rightarrow> nat) \<Rightarrow> 'c network \<Rightarrow> nat multiset" where
  "weights rank r = image_mset (\<lambda>(k, fn, tpc). 3 * rank fn tpc + k) (places r)"

lemma net_step_weights:
  assumes "net_step linked matches r r'" and "descends linked matches rank r"
  shows "(weights rank r', weights rank r) \<in> mult less_than"
proof -
  let ?g = "\<lambda>(k, fn, tpc). 3 * rank fn tpc + k"
  obtain x M N where r: "places r = M + {#x#}" "places r' = M + mset N"
    and N: "N = [] \<or> moves_to linked matches r x N"
    using net_step_places [OF assms(1)] by (force simp: add.commute)
  have "?g y < ?g x" if y: "y \<in> set N" for y
  proof -
    from N y have "moves_to linked matches r x N" by auto
    then show ?thesis
    proof cases
      case (1 k fn tpc)
      with y show ?thesis by simp
    next
      case (2 fn f tpc)
      obtain k fn' tpc' where yy: "y = (k, fn', tpc')" by (cases y) auto
      with 2 y have "rank fn' tpc' < rank fn tpc" and "k = 2"
        using assms(2) by (auto simp: descends_def onward_def)
      with 2 yy show ?thesis by simp
    qed
  qed
  then show ?thesis unfolding weights_def r image_mset_union
    by (intro one_step_implies_mult) auto
qed

text \<open>A network with work left can take a step.\<close>

definition staffed :: "'c network \<Rightarrow> bool" where
  "staffed r \<longleftrightarrow> wf_map (nt_fwds r) \<and> (\<forall>fn f. mget (nt_fwds r) fn = Some f \<longrightarrow> fw_running f)
     \<and> fst ` set (nt_hands r) \<subseteq> dom (mget (nt_fwds r))"

lemma staffed_step:
  assumes "net_step linked matches r r'" and "staffed r"
  shows "staffed r'"
  using assms
proof (induction rule: net_step.induct)
  case (pass r us fn msg vs f at now err f' m')
  then show ?case using forwardMessage_forwarder [OF pass(4)] by (auto simp: staffed_def split: if_splits)
qed (auto simp: staffed_def handleMessage_def refuse_message_def queue_message_def accept_message_def split: if_splits)

lemma prompt_attempt:
  "\<exists>at :: nat \<Rightarrow> ('c, 'c mworld) attempt. undisturbed at \<and> calm at \<and> failures at = []"
  by (rule exI [of _ "\<lambda>i. \<lparr>at_gap = id, at_error = None, at_env = undefined\<rparr>"])
    (simp add: undisturbed_def keeps_def calm_def failures_def upt_3)

lemma staffed_moves:
  fixes r :: "'c network"
  assumes "staffed r" and "places r \<noteq> {#}"
  shows "\<exists>r'. net_step linked matches r r'"
proof (cases "nt_air r = []")
  case False
  then obtain a ys where "nt_air r = [] @ a # ys" by (cases "nt_air r") auto
  from vanish [OF this] show ?thesis by blast
next
  case air: True
  show ?thesis
  proof (cases "nt_hands r")
    case (Cons h vs)
    obtain fn msg where h: "nt_hands r = [] @ (fn, msg) # vs" using Cons by (cases h) simp
    with assms(1) have "fn \<in> dom (mget (nt_fwds r))" by (simp add: staffed_def)
    then obtain f where f: "mget (nt_fwds r) fn = Some f" by blast
    obtain at :: "nat \<Rightarrow> ('c, 'c mworld) attempt" where "undisturbed at" using prompt_attempt by blast
    from pass [OF h f this] show ?thesis by (metis prod.exhaust)
  next
    case Nil
    with air assms(2) obtain fn f where in_reg: "(fn, f) \<in> set (nt_fwds r)" and q: "fw_queue f \<noteq> []"
      by (auto simp: places_def)
    then have "mget (nt_fwds r) fn = Some f" using assms(1) by (simp add: staffed_def)
    with q Nil assms(1) show ?thesis
      by (cases "fw_queue f") (auto simp: staffed_def intro!: exI pick)
  qed
qed


subsection \<open>Chains that come back\<close>

text \<open>A set of forwarders with topics that every hop from it can lead back into.\<close>

definition closed_loop ::
  "(string \<Rightarrow> string \<Rightarrow> bool) \<Rightarrow> (string \<Rightarrow> string \<Rightarrow> bool) \<Rightarrow> (string \<times> string) set \<Rightarrow> 'c network \<Rightarrow> bool" where
  "closed_loop linked matches C r \<longleftrightarrow>
     (\<forall>(fn, tpc) \<in> C. \<forall>f. mget (nt_fwds r) fn = Some f \<longrightarrow>
        (\<exists>y \<in> set (onward linked matches r f tpc). snd y \<in> C))"

definition copies :: "(string \<times> string) set \<Rightarrow> 'c network \<Rightarrow> nat" where
  "copies C r = size (filter_mset (\<lambda>x. snd x \<in> C) (places r))"

lemma closed_loop_wired: "wiring r' = wiring r \<Longrightarrow> closed_loop linked matches C r \<Longrightarrow> closed_loop linked matches C r'"
  unfolding closed_loop_def using wired_same [of r' r _ _ linked matches] by fastforce

lemma net_step_copies:
  assumes "net_step linked matches r r'" and "closed_loop linked matches C r"
  shows "copies C r + nt_lost r \<le> copies C r' + nt_lost r'"
proof -
  obtain x M where r: "places r = add_mset x M"
    and "places r' = M \<and> nt_lost r' = Suc (nt_lost r)
      \<or> (\<exists>N. moves_to linked matches r x N \<and> places r' = mset N + M \<and> nt_lost r' = nt_lost r)"
    using net_step_places [OF assms(1)] by blast
  then show ?thesis
  proof (elim disjE conjE exE)
    assume "places r' = M" "nt_lost r' = Suc (nt_lost r)"
    with r show ?thesis by (simp add: copies_def)
  next
    fix N assume N: "moves_to linked matches r x N" "places r' = mset N + M" "nt_lost r' = nt_lost r"
    have "\<exists>y \<in> set N. snd y \<in> C" if "snd x \<in> C"
      using N(1) that assms(2) by cases (auto simp: closed_loop_def)
    then have "snd x \<in> C \<Longrightarrow> 0 < size (filter_mset (\<lambda>x. snd x \<in> C) (mset N))"
      unfolding mset_filter [symmetric] size_mset by (auto simp: filter_empty_conv)
    with r N show ?thesis by (auto simp: copies_def)
  qed
qed

lemma net_run_copies:
  assumes "(net_step linked matches)\<^sup>*\<^sup>* r r'" and "closed_loop linked matches C r"
  shows "copies C r + nt_lost r \<le> copies C r' + nt_lost r'"
  using assms(1)
proof (induction rule: rtranclp_induct)
  case (step r' r'')
  with net_step_copies [OF step(2) closed_loop_wired [OF net_run_wiring [OF step(1)] assms(2)]] show ?case by simp
qed simp

text \<open>
  The forwarders of the loop run, with room in their channels and connected targets. One message of
  the loop is on its way, or alone with its forwarder while the others are idle.
\<close>

definition is_up :: "'c manager \<Rightarrow> string \<Rightarrow> bool" where
  "is_up m n \<longleftrightarrow> (\<exists>s. GetSession m n = Inr s \<and> IsConnected s)"

definition in_service :: "(string \<times> string) set \<Rightarrow> 'c network \<Rightarrow> bool" where
  "in_service C r \<longleftrightarrow> (\<forall>(fn, tpc) \<in> C. \<exists>f. mget (nt_fwds r) fn = Some f \<and> fw_running f \<and> \<not> fw_stopped f
     \<and> 0 < fw_room f \<and> is_up (nt_manager r) (fc_target (fw_config f)))"

definition idle_but :: "string option \<Rightarrow> (string \<times> string) set \<Rightarrow> 'c network \<Rightarrow> bool" where
  "idle_but x C r \<longleftrightarrow> (\<forall>fn f. fn \<in> fst ` C \<longrightarrow> Some fn \<noteq> x \<longrightarrow> mget (nt_fwds r) fn = Some f \<longrightarrow>
     fw_queue f = [] \<and> mget (nt_hands r) fn = None)"

lemma is_up_put_back:
  assumes "GetSession m n = Inr s" and "IsConnected s' = IsConnected s"
  shows "is_up (put_back n s' m) = is_up m"
  using assms by (auto simp: is_up_def put_back_def GetSession_def fun_eq_iff split: option.splits)

lemma prompt_publish:
  assumes "undisturbed at" and "calm at" and "failures at = []" and "is_up m (fc_target (fw_config f))"
  shows "\<exists>f' m'. forwardMessage at now msg f m = (None, f', m') \<and> is_up m' = is_up m"
proof -
  let ?n = "fc_target (fw_config f)" and ?t = "target_topic (fw_config f) (pm_topic msg)"
  obtain s where s: "GetSession m ?n = Inr s" "IsConnected s" using assms(4) by (auto simp: is_up_def)
  obtain e s' m' where pub: "Publish at ?t (pm_payload msg) (fc_qos (fw_config f)) (s, m) = (e, (s', m'))"
    by (metis prod.exhaust)
  with Publish_online [OF assms(2), of "(s, m)" ?t "pm_payload msg" "fc_qos (fw_config f)"] s(2) assms(3)
  have "e = None" "IsConnected s'" "m' = m" by (simp_all add: IsConnected_def)
  with pub s is_up_put_back [OF s(1), of s'] show ?thesis
    by (simp add: forwardMessage_def PublishTo_def on_named_def)
qed

fun message_at :: "(string \<times> string) set \<Rightarrow> 'c network \<Rightarrow> place \<Rightarrow> bool" where
  "message_at C r (k, fn, tpc) =
     (if k = 2 then idle_but None C r
        \<and> (\<exists>xs n p ys. nt_air r = xs @ (n, fn, tpc, p) # ys \<and> mget (subscriptions (nt_manager r)) n \<noteq> None)
      else if k = 1 then idle_but (Some fn) C r \<and> mget (nt_hands r) fn = None
        \<and> (\<exists>f msg. mget (nt_fwds r) fn = Some f \<and> fw_queue f = [msg] \<and> pm_topic msg = tpc)
      else idle_but (Some fn) C r
        \<and> (\<exists>us msg vs. nt_hands r = us @ (fn, msg) # vs \<and> mget (us @ vs) fn = None \<and> pm_topic msg = tpc)
        \<and> (\<exists>f. mget (nt_fwds r) fn = Some f \<and> fw_queue f = []))"

lemma message_arrives:
  assumes "message_at C r (2, fn, tpc)" and "in_service C r" and "(fn, tpc) \<in> C"
  shows "\<exists>r'. net_step linked matches r r' \<and> nt_lost r' = nt_lost r \<and> in_service C r' \<and> message_at C r' (1, fn, tpc)"
proof -
  obtain xs n p ys s0 where air: "nt_air r = xs @ (n, fn, tpc, p) # ys"
    and n: "mget (subscriptions (nt_manager r)) n = Some s0" and idle: "idle_but None C r"
    using assms(1) by auto
  from n obtain s where s: "GetSession (nt_manager r) n = Inr s"
    by (auto simp: subscriptions_def mget_map_values GetSession_Inr)
  obtain f where f: "mget (nt_fwds r) fn = Some f" "\<not> fw_stopped f" "0 < fw_room f"
    using assms(2,3) by (auto simp: in_service_def)
  have q: "fw_queue f = []" "mget (nt_hands r) fn = None" using idle f(1) assms(3) by (force simp: idle_but_def)+
  have room: "has_room f" "has_room (accept_message f)" using f(3) q by (simp_all add: has_room_def accept_message_def)
  let ?r = "r\<lparr>nt_manager := snd (on_named n s (\<lambda>w. ((), on_session (deliver 0 False p) w)) (nt_manager r)),
         nt_fwds := mput fn (handleMessage 0 tpc p f) (nt_fwds r), nt_air := xs @ ys,
         nt_lost := nt_lost r + (if fw_stopped f \<or> \<not> has_room f then 1 else 0)\<rparr>"
  have "is_up (nt_manager ?r) = is_up (nt_manager r)"
    using is_up_put_back [OF s, of "deliver 0 False p s"]
    by (simp add: on_named_def on_session_def deliver_def safelyCallHandler_def IsConnected_def)
  moreover have "fw_config (handleMessage 0 tpc p f) = fw_config f" "fw_running (handleMessage 0 tpc p f) = fw_running f"
      "\<not> fw_stopped (handleMessage 0 tpc p f)" "fw_room (handleMessage 0 tpc p f) = fw_room f"
      "fw_queue (handleMessage 0 tpc p f) = [pooled_copy 0 tpc p f]"
    using f(2) room q by (simp_all add: handleMessage_def queue_message_def accept_message_def)
  ultimately have "in_service C ?r" "message_at C ?r (1, fn, tpc)"
    using assms(2) idle q(2) f(1) by (force simp: in_service_def idle_but_def pooled_copy_def split: if_splits)+
  moreover have "net_step linked matches r ?r" by (rule arrive [OF air s f(1)])
  ultimately show ?thesis using room f(2) by (intro exI [of _ ?r]) simp
qed

lemma message_picked:
  assumes "message_at C r (1, fn, tpc)" and "in_service C r" and "(fn, tpc) \<in> C"
  shows "\<exists>r'. net_step linked matches r r' \<and> nt_lost r' = nt_lost r \<and> in_service C r' \<and> message_at C r' (0, fn, tpc)"
proof -
  obtain f msg where f: "mget (nt_fwds r) fn = Some f" "fw_queue f = [msg]" "pm_topic msg = tpc"
    and idle: "idle_but (Some fn) C r" "mget (nt_hands r) fn = None" using assms(1) by auto
  have run: "fw_running f" using assms(2,3) f(1) by (force simp: in_service_def)
  let ?r = "r\<lparr>nt_fwds := mput fn (f\<lparr>fw_queue := []\<rparr>) (nt_fwds r), nt_hands := (fn, msg) # nt_hands r\<rparr>"
  have "in_service C ?r" using assms(2) f(1) by (force simp: in_service_def split: if_splits)
  moreover have "message_at C ?r (0, fn, tpc)"
    using idle f by (force simp: idle_but_def intro: exI [of _ "[]"] split: if_splits)
  moreover have "net_step linked matches r ?r" by (rule pick [OF f(1) run f(2) idle(2)])
  ultimately show ?thesis by (intro exI [of _ ?r]) simp
qed

lemma receiver_known: "(n, fn) \<in> set (receivers linked matches subs src tpc) \<Longrightarrow> mget subs n \<noteq> None"
  by (auto simp: receivers_def map_of_eq_None_iff image_iff split: if_splits intro!: bexI)

lemma message_passed:
  fixes r :: "'c network"
  assumes "message_at C r (0, fn, tpc)" and "in_service C r" and "(fn, tpc) \<in> C" and "closed_loop linked matches C r"
  shows "\<exists>r' fn' tpc'. net_step linked matches r r' \<and> nt_lost r' = nt_lost r \<and> in_service C r'
    \<and> (fn', tpc') \<in> C \<and> message_at C r' (2, fn', tpc')"
proof -
  obtain us msg vs f where h: "nt_hands r = us @ (fn, msg) # vs" "mget (us @ vs) fn = None" "pm_topic msg = tpc"
    and f: "mget (nt_fwds r) fn = Some f" "fw_queue f = []" and idle: "idle_but (Some fn) C r"
    using assms(1) by auto
  have up: "is_up (nt_manager r) (fc_target (fw_config f))" using assms(2,3) f(1) by (force simp: in_service_def)
  obtain at :: "nat \<Rightarrow> ('c, 'c mworld) attempt" where at: "undisturbed at" "calm at" "failures at = []"
    using prompt_attempt by blast
  from prompt_publish [OF this up] obtain f' m' where
    fw: "forwardMessage at 0 msg f (nt_manager r) = (None, f', m')" and m': "is_up m' = is_up (nt_manager r)" by blast
  have f': "f' = f\<lparr>fw_last_sent := 0, fw_sent := fw_sent f + 1\<rparr>" using forwardMessage_forwarder [OF fw] by simp
  have subs: "subscriptions m' = subscriptions (nt_manager r)" by (rule forwardMessage_subscriptions [OF at(1) fw])
  let ?tt = "target_topic (fw_config f) tpc"
  obtain n fn' where n: "(n, fn') \<in> set (receivers linked matches (subscriptions m') (fc_target (fw_config f)) ?tt)"
    and C: "(fn', ?tt) \<in> C"
    using assms(3,4) f(1) by (force simp: closed_loop_def onward_def subs)
  let ?r = "r\<lparr>nt_manager := m', nt_fwds := mput fn f' (nt_fwds r), nt_hands := us @ vs,
         nt_air := nt_air r @ (if None = (None :: goerr option) then dispatched linked matches f msg m' else []),
         nt_lost := nt_lost r + (if None = (None :: goerr option) then 0 else 1)\<rparr>"
  have "net_step linked matches r ?r" by (rule pass [OF h(1) f(1) at(1) fw])
  moreover have "in_service C ?r"
    using assms(2) f(1) m' by (force simp: in_service_def f' split: if_splits)
  moreover have "(n, fn', ?tt, pm_payload msg) \<in> set (nt_air ?r)"
    using n h(3) by (force simp: dispatched_def Let_def)
  then have "\<exists>xs ys. nt_air ?r = xs @ (n, fn', ?tt, pm_payload msg) # ys" by (rule split_list)
  moreover have "mget (nt_hands ?r) x = None" if "x \<noteq> fn \<longrightarrow> mget (nt_hands r) x = None" for x
    using that h(1,2) by (auto simp: map_add_def split: if_splits option.splits)
  then have "idle_but None C ?r" using idle f by (auto simp: idle_but_def f' split: if_splits)
  ultimately show ?thesis using C receiver_known [OF n] by (intro exI [of _ ?r] exI [of _ fn'] exI [of _ ?tt]) auto
qed

definition circling ::
  "(string \<Rightarrow> string \<Rightarrow> bool) \<Rightarrow> (string \<Rightarrow> string \<Rightarrow> bool) \<Rightarrow> (string \<times> string) set \<Rightarrow> 'c network \<Rightarrow> bool" where
  "circling linked matches C r \<longleftrightarrow> closed_loop linked matches C r \<and> in_service C r
     \<and> (\<exists>k fn tpc. k \<in> {0, 1, 2} \<and> (fn, tpc) \<in> C \<and> message_at C r (k, fn, tpc))"

lemma circling_goes_on:
  assumes "circling linked matches C r"
  shows "\<exists>r'. net_step linked matches r r' \<and> nt_lost r' = nt_lost r \<and> circling linked matches C r'"
proof -
  have "\<exists>r' k fn tpc. net_step linked matches r r' \<and> nt_lost r' = nt_lost r \<and> in_service C r'
      \<and> k \<in> {0, 1, 2} \<and> (fn, tpc) \<in> C \<and> message_at C r' (k, fn, tpc)"
    using assms message_arrives [of C r _ _ linked matches] message_picked [of C r _ _ linked matches]
      message_passed [of C r _ _ linked matches] unfolding circling_def by blast
  then show ?thesis using assms closed_loop_wired [OF net_step_wiring] unfolding circling_def by blast
qed


text \<open>A forwarder whose target is its source: \<open>NewForwarder\<close> accepts it.\<close>

definition loop_config :: forwarder_config where
  "loop_config = sample_config\<lparr>fc_topics := [''t''], fc_target := ''s'', fc_map := None\<rparr>"

definition loop_forwarder :: forwarder where
  "loop_forwarder = sample_forwarder\<lparr>fw_config := loop_config\<rparr>"

definition loop_net :: "mock_redis network" where
  "loop_net =
     \<lparr>nt_manager = source_manager\<lparr>mg_sessions := [(''s'', source_session\<lparr>se_handlers :=
        AddMessageHandler ''t'' (ForwardHandler ''f'') newHandlerRegistry\<rparr>)]\<rparr>,
      nt_fwds = [(''f'', loop_forwarder\<lparr>fw_running := True\<rparr>)], nt_hands = [],
      nt_air = [(''s'', ''f'', ''t'', ''x'')], nt_lost = 0\<rparr>"

lemmas loop_defs = loop_config_def loop_forwarder_def loop_net_def sample_forwarder_def sample_config_def

lemma loop_facts:
  "closed_loop (\<lambda>a b. True) (=) {(''f'', ''t'')} loop_net" "in_service {(''f'', ''t'')} loop_net"
  "message_at {(''f'', ''t'')} loop_net (2, ''f'', ''t'')"
proof -
  have subs: "subscriptions (nt_manager loop_net) = [(''s'', AddMessageHandler ''t'' (ForwardHandler ''f'') newHandlerRegistry)]"
    by (simp add: subscriptions_def loop_net_def)
  have "forward_handlers (=) ''t'' (AddMessageHandler ''t'' (ForwardHandler ''f'') newHandlerRegistry) = [''f'']"
    by (simp add: forward_handlers_def AddMessageHandler_def newHandlerRegistry_def)
  then show "closed_loop (\<lambda>a b. True) (=) {(''f'', ''t'')} loop_net"
    by (simp add: closed_loop_def onward_def receivers_def subs) (simp add: target_topic_def loop_defs)
  show "in_service {(''f'', ''t'')} loop_net"
    using source_facts(2) by (simp add: in_service_def loop_defs is_up_def GetSession_def IsConnected_def)
  show "message_at {(''f'', ''t'')} loop_net (2, ''f'', ''t'')"
    by (simp add: subs idle_but_def) (force simp: loop_defs)
qed


text \<open>Two forwarders, from \<open>s\<close> over \<open>d\<close> to \<open>e\<close>, each session with a broker of its own.\<close>

definition chain_net :: "mock_redis network" where
  "chain_net =
     \<lparr>nt_manager = source_manager\<lparr>mg_sessions :=
        [(''s'', source_session\<lparr>se_handlers := AddMessageHandler ''a'' (ForwardHandler ''f'') newHandlerRegistry\<rparr>),
         (''d'', source_session\<lparr>se_handlers := AddMessageHandler ''z'' (ForwardHandler ''g'') newHandlerRegistry\<rparr>)]\<rparr>,
      nt_fwds =
        [(''f'', sample_forwarder\<lparr>fw_running := True\<rparr>),
         (''g'', sample_forwarder\<lparr>fw_running := True, fw_config := sample_config\<lparr>fc_name := ''g'', fc_source := ''d'',
            fc_topics := [''z''], fc_target := ''e''\<rparr>\<rparr>)],
      nt_hands = [], nt_air = [(''s'', ''f'', ''a'', ''x'')], nt_lost = 0\<rparr>"


end
