(* ===== verification/GoRedis.thy ===== *)
theory GoRedis
  imports Stores
begin

text \<open>
  The Redis client used in production (\<open>redis_client.go\<close>): an adapter from the library go-redis to the
  interface \<open>RedisClient\<close>. The library is a parameter, a record of the functions that the adapter calls;
  what is proved of it rests on its documented behaviour, stated as a hypothesis.
\<close>

subsection \<open>The adapter\<close>

record go_redis_options =
  gr_addr :: string
  gr_password :: string
  gr_db :: int
  gr_username :: string
  gr_pool :: int
  gr_idle :: int
  gr_dial :: int
  gr_read :: int
  gr_write :: int

definition DefaultGoRedisOptions :: go_redis_options where
  "DefaultGoRedisOptions =
     \<lparr>gr_addr = ''localhost:6379'', gr_password = [], gr_db = 0, gr_username = [], gr_pool = 10, gr_idle = 2,
      gr_dial = 5 * second, gr_read = 3 * second, gr_write = 3 * second\<rparr>"

text \<open>A command of the library as it returns: a value and an error.\<close>

record 'r redis_cmd =
  cmd_val :: 'r
  cmd_err :: "goerr option"

text \<open>The library, over the state of a client and its server.\<close>

record 'c go_redis =
  lib_NewClient :: "go_redis_options \<Rightarrow> 'c"
  lib_Set :: "string \<Rightarrow> payload \<Rightarrow> int \<Rightarrow> 'c \<Rightarrow> string redis_cmd \<times> 'c"
  lib_Get :: "string \<Rightarrow> 'c \<Rightarrow> payload redis_cmd"
  lib_Del :: "string list \<Rightarrow> 'c \<Rightarrow> int redis_cmd \<times> 'c"
  lib_Close :: "'c \<Rightarrow> goerr option"
  lib_Ping :: "'c \<Rightarrow> string redis_cmd"

definition NewGoRedisClient :: "'c go_redis \<Rightarrow> go_redis_options option \<Rightarrow> 'c" where
  "NewGoRedisClient lib opts =
     (let o1 = (case opts of None \<Rightarrow> DefaultGoRedisOptions | Some x \<Rightarrow> x)
      in lib_NewClient lib
           \<lparr>gr_addr = gr_addr o1, gr_password = gr_password o1, gr_db = gr_db o1, gr_username = gr_username o1,
            gr_pool = gr_pool o1, gr_idle = gr_idle o1, gr_dial = gr_dial o1, gr_read = gr_read o1,
            gr_write = gr_write o1\<rparr>)"

definition adapter_Set :: "'c go_redis \<Rightarrow> string \<Rightarrow> payload \<Rightarrow> int \<Rightarrow> 'c \<Rightarrow> goerr option \<times> 'c" where
  "adapter_Set lib key v expiration c =
     (case lib_Set lib key v expiration c of (cmd, c') \<Rightarrow> (cmd_err cmd, c'))"

definition adapter_Get :: "'c go_redis \<Rightarrow> string \<Rightarrow> 'c \<Rightarrow> goerr + payload" where
  "adapter_Get lib key c =
     (let cmd = lib_Get lib key c
      in case cmd_err cmd of None \<Rightarrow> Inr (cmd_val cmd) | Some e \<Rightarrow> Inl e)"

definition adapter_Del :: "'c go_redis \<Rightarrow> string list \<Rightarrow> 'c \<Rightarrow> goerr option \<times> 'c" where
  "adapter_Del lib keys c = (case lib_Del lib keys c of (cmd, c') \<Rightarrow> (cmd_err cmd, c'))"

definition adapter_Close :: "'c go_redis \<Rightarrow> 'c \<Rightarrow> goerr option" where
  "adapter_Close lib c = lib_Close lib c"

definition adapter_Ping :: "'c go_redis \<Rightarrow> 'c \<Rightarrow> goerr option" where
  "adapter_Ping lib c = cmd_err (lib_Ping lib c)"

definition GoRedisAdapter :: "'c go_redis \<Rightarrow> 'c redis_client" where
  "GoRedisAdapter lib = \<lparr>rd_Set = adapter_Set lib, rd_Get = adapter_Get lib, rd_Del = adapter_Del lib,
     rd_Close = adapter_Close lib\<rparr>"

text \<open>
  What \<open>newSession\<close> asks for: of the pool only its size, so that the library's own defaults apply to
  the timeouts and idle connections, not those of \<open>DefaultGoRedisOptions\<close>.
\<close>

definition session_redis_options :: "string \<Rightarrow> string \<Rightarrow> string \<Rightarrow> int \<Rightarrow> int \<Rightarrow> go_redis_options" where
  "session_redis_options addr username password db pool =
     \<lparr>gr_addr = addr, gr_password = password, gr_db = db, gr_username = username, gr_pool = pool, gr_idle = 0,
      gr_dial = 0, gr_read = 0, gr_write = 0\<rparr>"

subsection \<open>The library as documented\<close>

text \<open>
  While the server is reachable (\<open>up\<close>) and no key runs out: \<open>Set\<close> stores the value, \<open>Get\<close> finds it or
  fails with \<open>redis.Nil\<close>, whose text is \<open>redis: nil\<close>, \<open>Del\<close> removes the keys.
\<close>

definition as_documented :: "'c go_redis \<Rightarrow> ('c \<Rightarrow> bool) \<Rightarrow> ('c \<Rightarrow> string \<Rightarrow> payload option) \<Rightarrow> bool" where
  "as_documented lib up held \<longleftrightarrow>
     (\<forall>c. up c \<longrightarrow>
        (\<forall>k d t. case lib_Set lib k d t c of (cmd, c') \<Rightarrow> cmd_err cmd = None \<and> up c' \<and> held c' = (held c)(k \<mapsto> d))
      \<and> (\<forall>k. case held c k of
               Some d \<Rightarrow> cmd_err (lib_Get lib k c) = None \<and> cmd_val (lib_Get lib k c) = d
             | None \<Rightarrow> (\<exists>e. cmd_err (lib_Get lib k c) = Some e \<and> err_text e = ''redis: nil''))
      \<and> (\<forall>ks. case lib_Del lib ks c of (cmd, c') \<Rightarrow>
            cmd_err cmd = None \<and> up c' \<and> held c' = (\<lambda>k. if k \<in> set ks then None else held c k)))"

lemma adapter_contract:
  assumes "as_documented lib up held"
  shows "redis_contract (GoRedisAdapter lib) up held"
proof unfold_locales
  fix c k d t ks assume c: "up c"
  have set: "case lib_Set lib k d t c of (cmd, c') \<Rightarrow> cmd_err cmd = None \<and> up c' \<and> held c' = (held c)(k \<mapsto> d)"
    and get: "case held c k of Some d \<Rightarrow> cmd_err (lib_Get lib k c) = None \<and> cmd_val (lib_Get lib k c) = d
       | None \<Rightarrow> (\<exists>e. cmd_err (lib_Get lib k c) = Some e \<and> err_text e = ''redis: nil'')"
    and del: "case lib_Del lib ks c of (cmd, c') \<Rightarrow>
       cmd_err cmd = None \<and> up c' \<and> held c' = (\<lambda>k. if k \<in> set ks then None else held c k)"
    using assms c by (simp_all add: as_documented_def)
  show "fst (rd_Set (GoRedisAdapter lib) k d t c) = None" "up (snd (rd_Set (GoRedisAdapter lib) k d t c))"
    "held (snd (rd_Set (GoRedisAdapter lib) k d t c)) = (held c)(k \<mapsto> d)"
    using set by (simp_all add: GoRedisAdapter_def adapter_Set_def split: prod.splits)
  show "fst (rd_Del (GoRedisAdapter lib) ks c) = None" "up (snd (rd_Del (GoRedisAdapter lib) ks c))"
    "held (snd (rd_Del (GoRedisAdapter lib) ks c)) = (\<lambda>k. if k \<in> set ks then None else held c k)"
    using del by (simp_all add: GoRedisAdapter_def adapter_Del_def split: prod.splits)
  show "rd_Get (GoRedisAdapter lib) k c = Inr d" if "held c k = Some d"
    using get that by (simp add: GoRedisAdapter_def adapter_Get_def Let_def)
  show "\<exists>e. rd_Get (GoRedisAdapter lib) k c = Inl e \<and> err_text e = ''redis: nil''" if "held c k = None"
    using get that by (auto simp: GoRedisAdapter_def adapter_Get_def Let_def)
qed

text \<open>So what holds of persistent sessions over a client that is up (theory Persistence) holds over go-redis.\<close>

lemma adapter_up: "as_documented lib up held \<Longrightarrow> up c \<Longrightarrow> client_up (GoRedisAdapter lib) c"
  by (rule client_upI [OF adapter_contract])


text \<open>A library that keeps the values in memory.\<close>

definition map_redis :: "(string, payload) gomap go_redis" where
  "map_redis =
     \<lparr>lib_NewClient = \<lambda>o1. [(''config'', gr_addr o1)],
      lib_Set = \<lambda>k d t c. (\<lparr>cmd_val = ''OK'', cmd_err = None\<rparr>, mput k d c),
      lib_Get = \<lambda>k c. (case mget c k of None \<Rightarrow> \<lparr>cmd_val = [], cmd_err = Some (NewErr ''redis: nil'')\<rparr>
                       | Some d \<Rightarrow> \<lparr>cmd_val = d, cmd_err = None\<rparr>),
      lib_Del = \<lambda>ks c. (\<lparr>cmd_val = int (length ks), cmd_err = None\<rparr>, fold mdel ks c),
      lib_Close = \<lambda>c. None, lib_Ping = \<lambda>c. \<lparr>cmd_val = ''PONG'', cmd_err = None\<rparr>\<rparr>"

lemma map_redis_documented: "as_documented map_redis (\<lambda>c. True) mget"
  by (simp add: as_documented_def map_redis_def mget_mdel_all split: option.split)


end
