(* ===== verification/Reports.thy ===== *)
theory Reports
  imports Sessions
begin

text \<open>
  What the library prints: the lines of the default logger and who logs where (\<open>logger.go\<close>,
  \<open>SetLogger\<close> of \<open>manager.go\<close>), the JSON exporter (\<open>metrics_export.go\<close>), and the text of a session's
  metrics (\<open>PrometheusMetrics\<close> and \<open>writeGaugeMetric\<close> of \<open>session.go\<close>).
\<close>

subsection \<open>Log lines\<close>

text \<open>\<open>%v\<close> of an argument is the parameter \<open>sv\<close>.\<close>

function format_from :: "('a \<Rightarrow> string) \<Rightarrow> 'a list \<Rightarrow> nat \<Rightarrow> string" where
  "format_from sv args i =
     (if i < length args
      then (if i + 1 < length args then sv (args ! i) @ ''='' @ sv (args ! (i + 1)) @ '' ''
            else sv (args ! i) @ '' '') @ format_from sv args (i + 2)
      else [])"
  by pat_completeness auto
termination by (relation "measure (\<lambda>(sv, args, i). length args - i)") auto

declare format_from.simps [simp del]

definition formatArgs :: "('a \<Rightarrow> string) \<Rightarrow> 'a list \<Rightarrow> string" where
  "formatArgs sv args = (if length args = 0 then [] else format_from sv args 0)"

datatype log_level = LDebug | LInfo | LWarn | LError

fun level_tag :: "log_level \<Rightarrow> string" where
  "level_tag LDebug = ''[DEBUG] ''"
| "level_tag LInfo = ''[INFO] ''"
| "level_tag LWarn = ''[WARN] ''"
| "level_tag LError = ''[ERROR] ''"

text \<open>A logger's output: the lines with their times. \<open>Printf\<close> of the library ends a line that lacks its end.\<close>

definition NewDefaultLogger :: "(int \<times> string) list" where
  "NewDefaultLogger = []"

definition log_printf :: "int \<Rightarrow> string \<Rightarrow> (int \<times> string) list \<Rightarrow> (int \<times> string) list" where
  "log_printf now txt out = out @ [(now, if txt \<noteq> [] \<and> last txt = CHR 0x0A then txt else txt @ [CHR 0x0A])]"

definition log_msg ::
  "log_level \<Rightarrow> ('a \<Rightarrow> string) \<Rightarrow> int \<Rightarrow> string \<Rightarrow> 'a list \<Rightarrow> (int \<times> string) list \<Rightarrow> (int \<times> string) list" where
  "log_msg lv sv now msg args = log_printf now (level_tag lv @ msg @ '' '' @ formatArgs sv args)"

text \<open>\<open>Debugf\<close> and the like pass the format on, with the tag in front (\<open>sprintf\<close> is \<open>fmt\<close>'s).\<close>

definition log_format ::
  "log_level \<Rightarrow> (string \<Rightarrow> 'a list \<Rightarrow> string) \<Rightarrow> int \<Rightarrow> string \<Rightarrow> 'a list \<Rightarrow> (int \<times> string) list \<Rightarrow>
     (int \<times> string) list" where
  "log_format lv sprintf now fmt args = log_printf now (sprintf (level_tag lv @ fmt) args)"

fun pairs_text :: "('a \<Rightarrow> string) \<Rightarrow> 'a list \<Rightarrow> string" where
  "pairs_text sv [] = []"
| "pairs_text sv [a] = sv a @ '' ''"
| "pairs_text sv (a # b # xs) = sv a @ ''='' @ sv b @ '' '' @ pairs_text sv xs"

lemma format_from_drop: "format_from sv args i = pairs_text sv (drop i args)"
proof (induction sv args i rule: format_from.induct)
  case (1 sv args i)
  show ?case
  proof (cases "i < length args")
    case False
    then show ?thesis by (simp add: format_from.simps [of sv args i])
  next
    case True
    then have "drop i args = args ! i # drop (Suc i) args" by (simp add: Cons_nth_drop_Suc)
    moreover have "drop (Suc i) args = (if i + 1 < length args then args ! (i + 1) # drop (i + 2) args else [])"
      by (simp add: Cons_nth_drop_Suc)
    ultimately show ?thesis using True 1
      by (simp add: format_from.simps [of sv args i])
  qed
qed

lemma formatArgs_pairs: "formatArgs sv args = pairs_text sv args"
  by (simp add: formatArgs_def format_from_drop)

subsection \<open>Who logs where\<close>

datatype log_sink = DefaultLogger | UserLogger nat

text \<open>The manager's logger and the one that its recovery manager was created with.\<close>

record log_sinks =
  ls_manager :: log_sink
  ls_recovery :: log_sink

definition NewRecoveryManager_logger :: "log_sink \<Rightarrow> log_sinks" where
  "NewRecoveryManager_logger mgr = \<lparr>ls_manager = mgr, ls_recovery = mgr\<rparr>"

definition manager_loggers :: log_sinks where
  "manager_loggers = NewRecoveryManager_logger DefaultLogger"

definition SetLogger :: "log_sink option \<Rightarrow> log_sinks \<Rightarrow> log_sink \<times> log_sinks" where
  "SetLogger l s =
     (case l of None \<Rightarrow> (DefaultLogger, s\<lparr>ls_manager := DefaultLogger\<rparr>)
      | Some x \<Rightarrow> (x, s\<lparr>ls_manager := x\<rparr>))"

text \<open>Error recovery goes on logging to the default logger whatever the user sets.\<close>

lemma SetLogger_not_recovery:
  "ls_recovery (foldl (\<lambda>s l. snd (SetLogger l s)) manager_loggers ls) = DefaultLogger"
proof (induction ls rule: rev_induct)
  case Nil
  show ?case by (simp add: manager_loggers_def NewRecoveryManager_logger_def)
next
  case (snoc l ls)
  then show ?case by (cases l) (simp_all add: SetLogger_def)
qed

subsection \<open>The JSON exporter\<close>

text \<open>
  \<open>json.Marshal\<close> writes a map in the order of its keys, and \<open>pretty\<close> decides the layout. The times are
  64-bit nanoseconds, which \<open>Marshal\<close> accepts. \<open>sv\<close> gives the texts that \<open>formatBytes\<close> and \<open>Format\<close> make.
\<close>

fun metric_json :: "(metric_value \<Rightarrow> string) \<Rightarrow> metric_value \<Rightarrow> json" where
  "metric_json sv (MU64 n) = JNum (uint n)"
| "metric_json sv (MI64 i) = JNum i"
| "metric_json sv (MTime t) = JStr (time_text t)"
| "metric_json sv v = JStr (sv v)"

definition metrics_json :: "(metric_value \<Rightarrow> string) \<Rightarrow> (string, metric_value) gomap \<Rightarrow> json" where
  "metrics_json sv metrics = JObj (sort_keys (map (\<lambda>(k, v). (k, metric_json sv v)) metrics))"

definition NewJSONExporter :: "bool \<Rightarrow> bool" where
  "NewJSONExporter pretty = pretty"

definition JSON_Export :: "(metric_value \<Rightarrow> string) \<Rightarrow> bool \<Rightarrow> (string, metric_value) gomap \<Rightarrow> goerr + string" where
  "JSON_Export sv pretty metrics =
     (if pretty then Inr (print_indented (metrics_json sv metrics))
      else Inr (print_json (metrics_json sv metrics)))"

lemma metrics_json_ok:
  assumes "\<And>k v. (k, v) \<in> set m \<Longrightarrow> valid_utf8 k \<and> valid_utf8 (sv v)"
  shows "json_ok (metrics_json sv m)"
proof -
  have "json_fit n (metric_json sv v)" if "(k, v) \<in> set m" for n k v
    using assms [OF that] by (cases v) simp_all
  with assms show ?thesis
    by (auto simp: json_ok_fit metrics_json_def list_all_iff)
qed

text \<open>
  Both layouts of the exported text read back as the same object, which holds every entry of the
  snapshot under its key.
\<close>

lemma JSON_Export_entries:
  assumes "wf_map m" and "\<And>k v. (k, v) \<in> set m \<Longrightarrow> valid_utf8 k \<and> valid_utf8 (sv v)"
  shows "\<exists>s kvs. JSON_Export sv pretty m = Inr s \<and> parse_json s = Some (JObj kvs)
    \<and> mget kvs = map_option (metric_json sv) \<circ> mget m"
proof -
  let ?kvs = "map (\<lambda>(k, v). (k, metric_json sv v)) m"
  have "wf_map ?kvs" using assms(1) by (simp add: comp_def case_prod_unfold)
  then have "mget (sort_keys ?kvs) = map_option (metric_json sv) \<circ> mget m"
    by (simp add: mget_sort_keys mget_map_values fun_eq_iff)
  moreover have "json_ok (metrics_json sv m)" using assms(2) by (rule metrics_json_ok)
  then have "parse_json (print_json (metrics_json sv m)) = Some (metrics_json sv m)"
    "parse_json (print_indented (metrics_json sv m)) = Some (metrics_json sv m)"
    using parse_print parse_print_indented coerce_strings_ok by (auto simp: json_ok_def)
  ultimately show ?thesis by (cases pretty) (simp_all add: JSON_Export_def metrics_json_def)
qed

subsection \<open>The metrics of a session as a text\<close>

text \<open>
  \<open>%v\<close> of a float that holds an integer (exactly: these are times in seconds and small numbers): the
  shortest digits, in scientific notation from a million on.
\<close>

definition float_digits :: "string \<Rightarrow> string" where
  "float_digits ds =
     (let ex = length ds - 1; sig = rev (dropWhile (\<lambda>c. c = CHR ''0'') (rev ds))
      in if ex < 6 then ds
         else (case sig of [] \<Rightarrow> [] | [d] \<Rightarrow> [d] | d # e # fs \<Rightarrow> d # CHR ''.'' # e # fs)
              @ ''e+'' @ (if ex < 10 then ''0'' else []) @ dec ex)"

definition float_text :: "int \<Rightarrow> string" where
  "float_text i = (if i < 0 then ''-'' else []) @ float_digits (dec (nat \<bar>i\<bar>))"

fun prom_text :: "prom_value \<Rightarrow> string" where
  "prom_text (PCount n) = dec (unat n)"
| "prom_text (PInt n) = dec n"
| "prom_text (PFloat i) = float_text i"

definition writeGaugeMetric :: "string \<Rightarrow> string \<Rightarrow> string \<Rightarrow> string \<Rightarrow> string" where
  "writeGaugeMetric sb name sess v =
     sb @ name @ ''{session='' @ [CHR 0x22] @ sess @ [CHR 0x22] @ ''} '' @ v @ [CHR 0x0A]"

definition PrometheusMetrics_text :: "session \<Rightarrow> string" where
  "PrometheusMetrics_text s =
     foldl (\<lambda>sb (name, v). writeGaugeMetric sb name (se_name s) (prom_text v)) [] (PrometheusMetrics s)"

text \<open>A reader of the text: name, session and value of each line.\<close>

definition parse_line :: "string \<Rightarrow> string \<times> string \<times> string" where
  "parse_line l =
     (let name = takeWhile (\<lambda>c. c \<noteq> CHR ''{'') l;
          rest = drop (length name + length ''{session='' + 1) l;
          label = takeWhile (\<lambda>c. c \<noteq> CHR 0x22) rest
      in (name, label, drop (length label + 3) rest))"

definition parse_report :: "string \<Rightarrow> (string \<times> string \<times> string) list" where
  "parse_report txt = map parse_line (butlast (split_on (CHR 0x0A) txt))"

lemma text_lines:
  assumes "CHR 0x0A \<notin> set (concat ls)"
  shows "split_on (CHR 0x0A) (concat (map (\<lambda>l. l @ [CHR 0x0A]) ls)) = ls @ [[]]"
  using assms
proof (induction ls)
  case (Cons l ls)
  then show ?case
    using split_on_append [of "CHR 0x0A" l "concat (map (\<lambda>l. l @ [CHR 0x0A]) ls)"] by (simp add: split_on_plain)
qed simp

definition gauge_line :: "string \<Rightarrow> string \<times> prom_value \<Rightarrow> string" where
  "gauge_line sess r = fst r @ ''{session='' @ [CHR 0x22] @ sess @ [CHR 0x22] @ ''} '' @ prom_text (snd r)"

lemma text_of_rows: "PrometheusMetrics_text s = concat (map (\<lambda>l. l @ [CHR 0x0A]) (map (gauge_line (se_name s)) (PrometheusMetrics s)))"
proof -
  have "foldl (\<lambda>sb (name, v). writeGaugeMetric sb name n (prom_text v)) sb rows
      = sb @ concat (map (\<lambda>l. l @ [CHR 0x0A]) (map (gauge_line n) rows))" for n rows sb
    by (induction rows arbitrary: sb) (auto simp: writeGaugeMetric_def gauge_line_def)
  then show ?thesis by (simp add: PrometheusMetrics_text_def)
qed

lemma digits_plain: "list_all is_digit ds \<Longrightarrow> CHR 0x0A \<notin> set ds"
  by (auto simp: list_all_iff is_digit_def)

lemma prom_text_one_line: "CHR 0x0A \<notin> set (prom_text v)"
proof -
  have "CHR 0x0A \<notin> set (dec n)" for n by (rule digits_plain) (simp add: dec_digits)
  moreover have "CHR 0x0A \<notin> set (float_digits ds)" if ds: "CHR 0x0A \<notin> set ds" for ds
  proof -
    define sig where "sig = rev (dropWhile (\<lambda>c. c = CHR ''0'') (rev ds))"
    have "CHR 0x0A \<notin> set sig" using ds set_dropWhileD unfolding sig_def by fastforce
    with ds calculation show ?thesis
      by (auto simp: float_digits_def Let_def sig_def [symmetric] split: list.splits)
  qed
  ultimately show ?thesis by (cases v) (simp_all add: float_text_def)
qed

lemma parse_gauge_line:
  assumes "CHR ''{'' \<notin> set (fst r)" and "CHR 0x22 \<notin> set sess"
  shows "parse_line (gauge_line sess r) = (fst r, sess, prom_text (snd r))"
proof -
  have "takeWhile (\<lambda>c. c \<noteq> CHR ''{'') (gauge_line sess r) = fst r"
    using assms(1) unfolding gauge_line_def by (subst takeWhile_append2) auto
  moreover have "takeWhile (\<lambda>c. c \<noteq> CHR 0x22) (sess @ [CHR 0x22] @ ''} '' @ prom_text (snd r)) = sess"
    using assms(2) by (subst takeWhile_append2) auto
  moreover have "drop (length (fst r) + length ''{session='' + 1) (gauge_line sess r)
      = sess @ [CHR 0x22] @ ''} '' @ prom_text (snd r)"
    by (simp add: gauge_line_def)
  moreover have "drop (length sess + 3) (sess @ [CHR 0x22] @ ''} '' @ prom_text (snd r)) = prom_text (snd r)"
    by simp
  ultimately show ?thesis by (simp only: parse_line_def Let_def)
qed

lemma metric_names_plain: "r \<in> set (PrometheusMetrics s) \<Longrightarrow> CHR ''{'' \<notin> set (fst r) \<and> CHR 0x0A \<notin> set (fst r)"
  by (auto simp: PrometheusMetrics_def Let_def split: if_splits)

subsection \<open>Properties\<close>

text \<open>
  C33. The text of a session's metrics can be read back line by line, name, session and value of every
  metric in order, when the name of the session has no quote and no line end.
\<close>

theorem metrics_text_roundtrip:
  assumes "CHR 0x22 \<notin> set (se_name s)" and "CHR 0x0A \<notin> set (se_name s)"
  shows "parse_report (PrometheusMetrics_text s)
    = map (\<lambda>(name, v). (name, se_name s, prom_text v)) (PrometheusMetrics s)"
proof -
  have "CHR 0x0A \<notin> set (concat (map (gauge_line (se_name s)) (PrometheusMetrics s)))"
    using assms(2) metric_names_plain [of _ s] prom_text_one_line by (auto simp: gauge_line_def)
  then have "split_on (CHR 0x0A) (PrometheusMetrics_text s) = map (gauge_line (se_name s)) (PrometheusMetrics s) @ [[]]"
    unfolding text_of_rows by (rule text_lines)
  then show ?thesis
    using metric_names_plain [of _ s] parse_gauge_line [OF _ assms(1)]
    by (simp add: parse_report_def case_prod_unfold)
qed

text \<open>A fresh session of a given name.\<close>

definition named_session :: "string \<Rightarrow> session" where
  "named_session n = fresh_session 0 ((DefaultOptions (replicate 8 0))\<lparr>op_name := n\<rparr>) DefaultConnectProps (MemStore [])"

theorem metrics_text_roundtrip_witness:
  "(''mqtt_session_messages_sent_total'', ''s'', ''0'') \<in> set (parse_report (PrometheusMetrics_text (named_session ''s'')))"
proof -
  let ?s = "named_session ''s''"
  have n: "se_name ?s = ''s''" by (simp add: named_session_def fresh_session_def)
  have "sm_sent (se_metrics ?s) = 0" by (simp add: named_session_def fresh_session_def newSessionMetrics_def)
  then have "(''mqtt_session_messages_sent_total'', PCount 0) \<in> set (PrometheusMetrics ?s)"
    by (simp add: PrometheusMetrics_def Let_def)
  moreover have "dec 0 = ''0''" by code_simp
  ultimately show ?thesis
    using metrics_text_roundtrip [of ?s] by (force simp: n)
qed

text \<open>
  Nothing escapes the name: with quotes and line ends in it, which \<open>Validate\<close> accepts, a session adds
  metrics of its choice, here an error count for another session.
\<close>

theorem metrics_text_injection:
  fixes n :: string
  defines "n \<equiv> ''a'' @ [CHR 0x22] @ ''} 0'' @ [CHR 0x0A] @ ''mqtt_session_errors_total{session='' @ [CHR 0x22] @ ''b''"
  shows "\<exists>v. (''mqtt_session_errors_total'', ''b'', v) \<in> set (parse_report (PrometheusMetrics_text (named_session n)))"
proof -
  let ?s = "named_session n" and ?f = "''mqtt_session_errors_total''"
  have n: "se_name ?s = n" by (simp add: named_session_def fresh_session_def)
  obtain c rows where r: "PrometheusMetrics ?s = (''mqtt_session_messages_sent_total'', c) # rows"
    by (simp add: PrometheusMetrics_def Let_def)
  let ?b = "gauge_line ''b'' (?f, c)"
  let ?rest = "concat (map (\<lambda>l. l @ [CHR 0x0A]) (map (gauge_line n) rows))"
  have "PrometheusMetrics_text ?s
      = (''mqtt_session_messages_sent_total{session='' @ [CHR 0x22] @ ''a'' @ [CHR 0x22] @ ''} 0'')
        @ CHR 0x0A # (?b @ CHR 0x0A # ?rest)"
    unfolding text_of_rows n r by (simp add: gauge_line_def n_def)
  then have "split_on (CHR 0x0A) (PrometheusMetrics_text ?s)
      = split_on (CHR 0x0A) (''mqtt_session_messages_sent_total{session='' @ [CHR 0x22] @ ''a'' @ [CHR 0x22] @ ''} 0'')
        @ split_on (CHR 0x0A) ?b @ split_on (CHR 0x0A) ?rest"
    by (simp only: split_on_append)
  moreover have "CHR 0x0A \<notin> set ?b" using prom_text_one_line [of c] by (simp add: gauge_line_def)
  ultimately have "?b \<in> set (butlast (split_on (CHR 0x0A) (PrometheusMetrics_text ?s)))"
    by (simp add: split_on_plain butlast_append)
  moreover have "parse_line ?b = (?f, ''b'', prom_text c)" using parse_gauge_line [of "(?f, c)" "''b''"] by simp
  ultimately show ?thesis unfolding parse_report_def by force
qed

end
