(* ===== verification/Protocol.thy ===== *)
theory Protocol
  imports Prelude
begin

text \<open>
  The MQTT versions, property identifiers and reason codes of \<open>mqtt5.go\<close>, which the library offers to
  its users and does not use itself.
\<close>

definition MQTT311 :: nat where "MQTT311 = 4"
definition MQTT50 :: nat where "MQTT50 = 5"

definition mqtt5_properties :: "(string \<times> nat) list" where
  "mqtt5_properties =
    [(''PropPayloadFormatIndicator'', 1), (''PropMessageExpiryInterval'', 2), (''PropContentType'', 3),
     (''PropResponseTopic'', 8), (''PropCorrelationData'', 9), (''PropSubscriptionIdentifier'', 11),
     (''PropSessionExpiryInterval'', 17), (''PropAssignedClientIdentifier'', 18),
     (''PropServerKeepAlive'', 19), (''PropAuthenticationMethod'', 21), (''PropAuthenticationData'', 22),
     (''PropRequestProblemInformation'', 23), (''PropWillDelayInterval'', 24),
     (''PropRequestResponseInformation'', 25), (''PropResponseInformation'', 26),
     (''PropServerReference'', 28), (''PropReasonString'', 31), (''PropReceiveMaximum'', 33),
     (''PropTopicAliasMaximum'', 34), (''PropTopicAlias'', 35), (''PropMaximumQoS'', 36),
     (''PropRetainAvailable'', 37), (''PropUserProperty'', 38), (''PropMaximumPacketSize'', 39),
     (''PropWildcardSubscriptionAvail'', 40), (''PropSubscriptionIdentifierAvail'', 41),
     (''PropSharedSubscriptionAvail'', 42)]"

definition mqtt5_reasons :: "(string \<times> nat) list" where
  "mqtt5_reasons =
    [(''ReasonSuccess'', 0), (''ReasonNormalDisconnection'', 0), (''ReasonGrantedQoS0'', 0),
     (''ReasonGrantedQoS1'', 1), (''ReasonGrantedQoS2'', 2), (''ReasonDisconnectWithWill'', 4),
     (''ReasonNoMatchingSubscribers'', 16), (''ReasonNoSubscriptionExisted'', 17),
     (''ReasonContinueAuthentication'', 24), (''ReasonReAuthenticate'', 25), (''ReasonUnspecifiedError'', 128),
     (''ReasonMalformedPacket'', 129), (''ReasonProtocolError'', 130),
     (''ReasonImplementationSpecificError'', 131), (''ReasonUnsupportedProtocolVersion'', 132),
     (''ReasonClientIdentifierNotValid'', 133), (''ReasonBadUsernameOrPassword'', 134),
     (''ReasonNotAuthorized'', 135), (''ReasonServerUnavailable'', 136), (''ReasonServerBusy'', 137),
     (''ReasonBanned'', 138), (''ReasonServerShuttingDown'', 139), (''ReasonBadAuthenticationMethod'', 140),
     (''ReasonKeepAliveTimeout'', 141), (''ReasonSessionTakenOver'', 142), (''ReasonTopicFilterInvalid'', 143),
     (''ReasonTopicNameInvalid'', 144), (''ReasonPacketIdentifierInUse'', 145),
     (''ReasonPacketIdentifierNotFound'', 146), (''ReasonReceiveMaximumExceeded'', 147),
     (''ReasonTopicAliasInvalid'', 148), (''ReasonPacketTooLarge'', 149), (''ReasonMessageRateTooHigh'', 150),
     (''ReasonQuotaExceeded'', 151), (''ReasonAdministrativeAction'', 152),
     (''ReasonPayloadFormatInvalid'', 153), (''ReasonRetainNotSupported'', 154),
     (''ReasonQoSNotSupported'', 155), (''ReasonUseAnotherServer'', 156), (''ReasonServerMoved'', 157),
     (''ReasonSharedSubscriptionsNotSupported'', 158), (''ReasonConnectionRateExceeded'', 159),
     (''ReasonMaximumConnectTime'', 160), (''ReasonSubscriptionIdentifiersNotSupported'', 161),
     (''ReasonWildcardSubscriptionsNotSupported'', 162)]"

text \<open>
  The identifiers of properties are distinct and fit the one byte that the protocol gives them; the
  reason codes from 128 on, the failures, leave no gap, and only the three successes share a code.
\<close>

lemma property_ids: "distinct (map snd mqtt5_properties) \<and> list_all (\<lambda>(n, i). 0 < i \<and> i < 128) mqtt5_properties"
  by (simp add: mqtt5_properties_def)

lemma reason_codes:
  "filter (\<lambda>c. 128 \<le> c) (map snd mqtt5_reasons) = [128..<163] \<and> distinct (drop 2 (map snd mqtt5_reasons))
   \<and> take 3 (map snd mqtt5_reasons) = [0, 0, 0]"
  by (simp add: mqtt5_reasons_def upt_rec)

end
