(* ===== verification/TopicOwners.thy ===== *)
theory TopicOwners
  imports RouteProps ForwarderRuns
begin

text \<open>
  Two routes on one topic of one session (\<open>route.go\<close> over \<open>manager.go\<close> and \<open>session.go\<close>): a session keeps
  one handler for each topic, so the routes are not independent.
\<close>

lemma SubscribeTo_online:
  assumes "GetSession m name = Inr s" and "IsConnected s" and "calm at" and "failures at = []"
  shows "\<exists>s' m'. SubscribeTo at now name tpc f qos m = (None, m') \<and> GetSession m' name = Inr s' \<and> IsConnected s'
    \<and> se_handlers s' = AddMessageHandler tpc f (se_handlers s)"
proof -
  obtain e s' m1 where sub: "Subscribe at tpc f qos (s, m) = (e, (s', m1))" by (metis prod.exhaust)
  with Subscribe_online [OF assms(3), of "(s, m)" tpc f qos] assms(2,4)
  have r: "e = None" "IsConnected s'" "se_handlers s' = AddMessageHandler tpc f (se_handlers s)"
    by (simp_all add: IsConnected_def)
  have "table_is (mg_sessions m) (snd (Subscribe at tpc f qos (s, m)))"
    by (rule obs_Subscribe [OF table_obs_inv calm_keeps [OF assms(3)]]) (simp add: table_is_def)
  with sub assms(1) have "mget (mg_sessions m1) name \<noteq> None" by (simp add: table_is_def GetSession_Inr)
  then have "GetSession (put_back name s' m1) name = Inr s'" by (rule GetSession_put_back)
  with r assms(1) sub show ?thesis by (simp add: SubscribeTo_def on_named_def)
qed

lemma UnsubscribeTo_online:
  assumes "GetSession m name = Inr s" and "IsConnected s"
  shows "\<exists>s' m'. UnsubscribeTo en None name tpc m = (None, m') \<and> GetSession m' name = Inr s'
    \<and> se_handlers s' = RemoveMessageHandler tpc (se_handlers s)"
proof -
  obtain e s' m1 where un: "Unsubscribe en None [tpc] (s, m) = (e, (s', m1))" by (metis prod.exhaust)
  have r: "e = None" "se_handlers s' = RemoveMessageHandler tpc (se_handlers s)"
    using un assms(2) fst_saved [of en "on_session (\<lambda>s. s\<lparr>se_handlers := RemoveMessageHandler tpc (se_handlers s)\<rparr>)
        (on_session (record_call (CUnsubscribe [tpc])) (s, m))"]
    by (auto simp: Unsubscribe_def IsConnected_def record_call_def)
  have "table_is (mg_sessions m) (snd (Unsubscribe en None [tpc] (s, m)))"
    by (rule obs_Unsubscribe [OF table_obs_inv]) (simp add: table_is_def)
  with un assms(1) have "mget (mg_sessions m1) name \<noteq> None" by (simp add: table_is_def GetSession_Inr)
  then have "GetSession (put_back name s' m1) name = Inr s'" by (rule GetSession_put_back)
  with r assms(1) un show ?thesis by (simp add: UnsubscribeTo_def on_named_def GetSession_Inr)
qed

lemma HandleTo_online:
  assumes "GetSession m name = Inr s" and "IsConnected s" and "calm at" and "failures at = []"
  shows "\<exists>s' m'. HandleTo at now rid name tpc f m = (Inr (newRoute tpc name m 0 f), m') \<and> GetSession m' name = Inr s'
    \<and> IsConnected s' \<and> se_handlers s' = AddMessageHandler tpc (RouteHandler rid) (se_handlers s)"
  using SubscribeTo_online [OF assms, of now tpc "RouteHandler rid" 0] by (auto simp: HandleTo_def Let_def)



end
