(* ===== verification/Spec2Isabelle.thy ===== *)
theory Spec2Isabelle
  imports RouteProps ForwarderRuns Persistence EnhancedAuth RecoveryRuns Pools Builders Security Waiting Locks StateRaces SaveRaces
    Chains GoRedis Reports Protocol TopicOwners
begin

text \<open>
  A model of the Go library mqttx, an MQTT client library: a manager with named sessions, each with its own
  MQTT client, options, store and handlers; forwarders and routes on top of sessions; and the parts they
  share (errors and their recovery, events, metrics, pools, builders, security).

  \<^bold>\<open>How the program is modelled.\<close> A struct is a record with the fields of the code, an
  interface with several implementations a datatype or a record of functions, a Go map an association list
  with distinct keys whose order is the order one iteration visits it in, a counter updated atomically a
  word, an \<open>int\<close>, \<open>int64\<close> or \<open>Duration\<close> an integer with its 64-bit
  wrap-around written out, a float an exact binary value with rounding (theory Floats), a byte slice or
  string a list of bytes, a time its nanoseconds. Errors are values of \<open>goerr\<close>; a result with
  an error is a sum, a panic a value of its own. Objects that the code shares by pointer are in explicit
  heaps where it matters: the entries of the error table, the pooled objects, the objects behind a builder's
  options, the topic maps of forwarder configurations. An operation is a function from the state before to
  the state after. What goroutines do at the same time is a step relation; a call that sleeps between its
  attempts takes, for each attempt, an arbitrary change of the world during the sleep.

  \<^bold>\<open>What comes from outside\<close> is an argument: the clock, random bytes, the answers of the
  MQTT client's tokens, faults of the file system, the Redis client (a record of functions, instantiated by
  the adapter to go-redis, whose functions are again an argument, and by the model of
  \<open>mock_redis_client.go\<close>), regular expressions (their two methods), SHA-256, and the
  cryptographic functions that \<open>security.go\<close> calls. A handler of the user is a number and its
  calls are recorded in a log.

  \<^bold>\<open>The theories.\<close> Prelude: integers, maps, strings, and the interface
  \<open>keyed_store\<close> of the registries and stores. Errors: \<open>errors.go\<close>,
  \<open>error_utils.go\<close>. Events: \<open>event.go\<close>. Metrics: \<open>metrics.go\<close> and the
  Prometheus exporter of \<open>metrics_export.go\<close>. Unicode, JsonText, Encodings: the texts that
  \<open>encoding/json\<close> of the standard library writes and reads, with UTF-8, base64 and RFC 3339.
  Messages, Codec: the messages and session states of \<open>types.go\<close>, their JSON encoding, and the
  two payload readings of \<open>route.go\<close>. Floats, Config: \<open>options.go\<close> and the options
  of \<open>mqtt5.go\<close>. Stores: \<open>store.go\<close>, \<open>store_redis.go\<close>,
  \<open>mock_redis_client.go\<close>. Recovery, RecoveryRuns: \<open>error_recovery.go\<close>, one call at
  a time and interleaved. Sessions, SessionFacts, SessionProps, Persistence: \<open>session.go\<close> and
  the shared subscriptions of \<open>mqtt5.go\<close>; StateRaces: its \<open>setState\<close> in steps,
  interleaved; SaveRaces: subscribing, unsubscribing and saving in steps, interleaved. Managers,
  ManagerProps, Waiting: \<open>manager.go\<close>; Locks: the locks of the manager and of its events.
  Filters: \<open>filter.go\<close>. Transformers: \<open>transformer.go\<close>. Routes, RouteProps,
  TopicOwners: \<open>route.go\<close>, \<open>route_advanced.go\<close>. Forwarders, ForwarderRuns:
  \<open>forwarder.go\<close>; Chains: forwarders that feed each other. EnhancedAuth:
  \<open>mqtt5_auth.go\<close>. Pools: \<open>object_pool.go\<close>. Builders: \<open>builder.go\<close>
  and \<open>Options.Clone\<close>. Security: \<open>security.go\<close>. GoRedis:
  \<open>redis_client.go\<close>. Reports: \<open>logger.go\<close>, the text of the JSON exporter and the
  metrics text of a session. Protocol: the constants of \<open>mqtt5.go\<close>. An operation has the name
  of its Go function where that is free; otherwise a prefix says whose it is (\<open>sm_\<close>,
  \<open>metrics_\<close>, \<open>route_\<close>, \<open>fwd_\<close>, \<open>man_\<close>,
  \<open>mock_\<close>, \<open>builder_\<close>).

  \<^bold>\<open>How the parts are put together.\<close> A session operation works on a world: the session
  and the hub it belongs to, which holds the events, counters, error table, files and Redis state
  (\<open>hub\<close>). The manager is the hub extended by the table of sessions; it runs a session
  operation with \<open>on_named\<close> and puts the session back. A forwarder and a route work on the
  manager.

  \<^bold>\<open>The interfaces\<close> are locales, each interpreted on the model:
  \<open>keyed_store\<close> (Prelude) on Go maps, the handler registry, the stores, the mock client and the
  registries; the session stores against a map from names to states, and the Redis clients against what the
  store expects of them (Stores, GoRedis); \<open>auth_mechanism\<close> and \<open>timed_mechanism\<close>
  (EnhancedAuth) on the four providers; \<open>pool_contract\<close> (Pools) on the five pools;
  \<open>builder_contract\<close> (Builders) on both builders.

  \<^bold>\<open>What the properties show.\<close> Of a session: what an observer of its events sees (C1),
  the outcome of publishing and subscribing under retries (C4, C25), what observers are told when goroutines
  change its state at once (C19), what is registered and saved when they subscribe at once (C20, C21), the
  reconnect intervals (C23), and what a restart and a reconnect restore and lose (C5, C36). Of the manager:
  its invariant over any run of operations (C2), adding a session (C24), publishing to all (C31), waiting
  for all sessions in any interleaving (C38), and how handlers of events lock it up (C18). Of forwarders, in
  every interleaving of handlers, workers, start and stop: each accepted message is accounted for (C3),
  order is kept (C10), and what start and stop do (C28, C32); of several forwarders together: without a loop
  forwarding ends (C11), with one it need not (C12). Of routes: a route is its pipeline of filters and
  transformers (C7), stopping races with a delivery (C35), and two routes on one topic disturb each other
  (C37); topic matching agrees with its specification (C6); setting a JSON path in a payload, from text to
  text (C39). Of errors: the table is bounded, exactly for one caller (C8) and up to the number of
  concurrent callers (C9), the back-off (C40), and an error that comes back (C34). Of the stores: the file
  store and the Redis store refine a map (C13, C26, the latter over go-redis as documented), and reading the
  JSON text of a state gives the state back (C22); what is stored is that text, so a topic that is not UTF-8
  comes back as another (\<open>invalid_topics_replaced\<close> in Stores), and what a restart restores (C5,
  C36) is stated for names that are UTF-8. Of the exported metrics: a session's text can be read back (C33).
  Of options: validation (C27), the session builder (C15, C16). Of authentication: the manager refines one
  automaton (C14). Of pools: exclusive ownership (C29). Of security: building the TLS configuration (C30),
  and reloading certificates, which never completes (C17). The theories hold further theorems of this kind
  that are not numbered.

  \<^bold>\<open>Bounds and termination.\<close> No definition uses fuel. The loops are structural
  recursions or have a measure (\<open>dec\<close>, \<open>unit_loop\<close>, \<open>bitlen\<close>,
  \<open>strip\<close>); the retry loops count down from \<open>maxRetries\<close>; the search for a PEM
  block is a partial function whose termination is \<open>key_search_ends\<close> (Security), under the
  documented behaviour of \<open>pem.Decode\<close> that it consumes input.

  \<^bold>\<open>Not modelled.\<close> What the operations log (no state depends on it; theory Reports has
  the logger itself); the test hooks of the manager; the examples and tests. Of JSON texts, the wording of
  syntax errors is not kept, times are written in UTC, a number is an integer or kept by its text where it
  is no integer literal, the exponents Go writes from 1e21 on are not reproduced, and of a field that a text
  repeats the last is read. \<open>%v\<close> of times is represented by the value printed. A session
  operation is atomic apart from the sleeps of its retries and the steps of \<open>setState\<close>
  (StateRaces) and of subscribing, unsubscribing and saving (SaveRaces): other races between the goroutines
  of one session inside one operation are not modelled. Of the locks, those of the manager and of its events
  are (theory Locks).
\<close>

end
